(* ===== verification/Risu_Prelude.thy ===== *)
theory Risu_Prelude
  imports Main "HOL-Library.Word"
begin

text \<open>
  Shared vocabulary of the development: the machine integers of the C sources, the bytes a
  value occupies in memory for either byte order, the ways in which a C function can fail to
  return, and the list and word lemmas the component theories rely on.
\<close>

unbundle bit_operations_syntax

named_theorems risu_layout \<open>lengths and round trips of byte layouts\<close>
named_theorems risu_wire \<open>one-step facts about the transport layer\<close>

section \<open>Machine integers\<close>

type_synonym u8 = "8 word"
type_synonym u16 = "16 word"
type_synonym u32 = "32 word"
type_synonym u64 = "64 word"
type_synonym byte = "8 word"

section \<open>Ways of not returning\<close>

text \<open>
  \<open>Exit_Failure\<close> is \<^verbatim>\<open>exit(EXIT_FAILURE)\<close>, \<open>Abort\<close> is \<^verbatim>\<open>abort()\<close> or a failed \<^verbatim>\<open>assert\<close>,
  \<open>Out_Of_Bounds\<close> is a read or write outside of the object a pointer refers to. Three faults are signed
  arithmetic that C leaves undefined: \<open>Division_By_Zero\<close>, \<open>Division_Overflow\<close> (a quotient without
  representation, a trap on most hosts) and \<open>Signed_Overflow\<close> (the negation of the least number). Finally
  \<open>Waiting\<close> means that the call is still blocked in a system call when the modelled history ends.
\<close>

datatype fault = Exit_Failure | Abort | Out_Of_Bounds | Division_By_Zero | Division_Overflow | Signed_Overflow | Waiting

text \<open>Sequencing of calls that may not return.\<close>

definition andThen :: "'e + 'a \<Rightarrow> ('a \<Rightarrow> 'e + 'b) \<Rightarrow> 'e + 'b" where
  "andThen r f = (case r of Inl e \<Rightarrow> Inl e | Inr x \<Rightarrow> f x)"

lemma andThen_simps [simp]:
  "andThen (Inl e) f = Inl e"
  "andThen (Inr x) f = f x"
  by (simp_all add: andThen_def)

lemma andThen_eq_Inr [simp]: "andThen r f = Inr y \<longleftrightarrow> (\<exists>x. r = Inr x \<and> f x = Inr y)"
  by (cases r) auto

lemma andThen_eq_Inl: "andThen r f = Inl e \<longleftrightarrow> r = Inl e \<or> (\<exists>x. r = Inr x \<and> f x = Inl e)"
  by (cases r) auto

section \<open>Values in memory\<close>

text \<open>
  \<open>le_bytes n w\<close> lists the \<open>n\<close> low-order bytes of \<open>w\<close>, least significant first, as a
  little-endian machine stores them; a big-endian machine stores the reversed list.
\<close>

definition le_bytes :: "nat \<Rightarrow> 'a::len word \<Rightarrow> byte list" where
  "le_bytes n w = map (\<lambda>i. ucast (drop_bit (8 * i) w)) [0..<n]"

fun of_le_bytes :: "byte list \<Rightarrow> 'a::len word" where
  "of_le_bytes [] = 0"
| "of_le_bytes (b # bs) = ucast b OR push_bit 8 (of_le_bytes bs)"

definition mem_bytes :: "bool \<Rightarrow> nat \<Rightarrow> 'a::len word \<Rightarrow> byte list" where
  "mem_bytes big n w = (if big then rev (le_bytes n w) else le_bytes n w)"

definition of_mem_bytes :: "bool \<Rightarrow> byte list \<Rightarrow> 'a::len word" where
  "of_mem_bytes big bs = of_le_bytes (if big then rev bs else bs)"

lemma length_le_bytes [simp, risu_layout]: "length (le_bytes n w) = n"
  by (simp add: le_bytes_def)

lemma length_mem_bytes [simp, risu_layout]: "length (mem_bytes big n w) = n"
  by (simp add: mem_bytes_def)

lemma nth_le_bytes [simp]: "i < n \<Longrightarrow> le_bytes n w ! i = ucast (drop_bit (8 * i) w)"
  by (simp add: le_bytes_def)

lemma bit_of_le_bytes:
  fixes w :: "'a::len word"
  shows "bit (of_le_bytes bs :: 'a word) k \<longleftrightarrow>
    k < LENGTH('a) \<and> k div 8 < length bs \<and> bit (bs ! (k div 8)) (k mod 8)"
proof (induction bs arbitrary: k)
  case Nil
  show ?case by simp
next
  case (Cons b bs)
  show ?case
  proof (cases "k < 8")
    case True
    then show ?thesis
      by (auto simp: bit_simps)
  next
    case False
    then have "k div 8 = Suc ((k - 8) div 8)" and "k mod 8 = (k - 8) mod 8"
      by (simp_all add: le_div_geq le_mod_geq)
    moreover have "\<not> bit b k"
      using False by (auto dest: bit_imp_le_length)
    ultimately show ?thesis
      using False by (auto simp: bit_simps Cons.IH)
  qed
qed

lemma bit_le_bytes_nth:
  fixes w :: "'a::len word"
  assumes "i < n" and "j < 8"
  shows "bit (le_bytes n w ! i) j \<longleftrightarrow> bit w (8 * i + j)"
  using assms by (simp add: bit_simps)

lemma of_le_bytes_le_bytes [simp, risu_layout]:
  fixes w :: "'a::len word"
  assumes "LENGTH('a) \<le> 8 * n"
  shows "of_le_bytes (le_bytes n w) = w"
proof (rule bit_word_eqI)
  fix k
  assume "k < LENGTH('a)"
  with assms have "k div 8 < n" by (simp add: less_mult_imp_div_less mult.commute)
  moreover have "8 * (k div 8) + k mod 8 = k" by simp
  ultimately show "bit (of_le_bytes (le_bytes n w) :: 'a word) k = bit w k"
    using \<open>k < LENGTH('a)\<close> by (simp add: bit_of_le_bytes bit_simps)
qed

lemma le_bytes_of_le_bytes [risu_layout]:
  assumes "8 * length bs \<le> LENGTH('a::len)"
  shows "le_bytes (length bs) (of_le_bytes bs :: 'a word) = bs"
proof (rule nth_equalityI)
  show "length (le_bytes (length bs) (of_le_bytes bs :: 'a word)) = length bs" by simp
next
  fix i
  assume "i < length (le_bytes (length bs) (of_le_bytes bs :: 'a word))"
  then have i: "i < length bs" by simp
  show "le_bytes (length bs) (of_le_bytes bs :: 'a word) ! i = bs ! i"
  proof (rule bit_word_eqI)
    fix j
    assume "j < LENGTH(8)"
    then have j: "j < 8" by simp
    have "8 * i + j < 8 * length bs" using i j by simp
    with assms have "8 * i + j < LENGTH('a)" by linarith
    with i j show "bit (le_bytes (length bs) (of_le_bytes bs :: 'a word) ! i) j = bit (bs ! i) j"
      by (simp add: bit_le_bytes_nth bit_of_le_bytes del: nth_le_bytes)
  qed
qed

lemma of_mem_bytes_mem_bytes [simp, risu_layout]:
  fixes w :: "'a::len word"
  shows "LENGTH('a) \<le> 8 * n \<Longrightarrow> of_mem_bytes big (mem_bytes big n w) = w"
  by (simp add: of_mem_bytes_def mem_bytes_def)

lemma mem_bytes_of_mem_bytes [risu_layout]:
  assumes "length bs = n" and "8 * n \<le> LENGTH('a::len)"
  shows "mem_bytes big n (of_mem_bytes big bs :: 'a word) = bs"
  using assms le_bytes_of_le_bytes [of bs, where 'a = 'a] le_bytes_of_le_bytes [of "rev bs", where 'a = 'a]
  by (auto simp: of_mem_bytes_def mem_bytes_def)

lemma le_bytes_4: "le_bytes 4 w = [ucast w, ucast (drop_bit 8 w), ucast (drop_bit 16 w), ucast (drop_bit 24 w)]"
  by (simp add: le_bytes_def upt_rec)

lemma le_bytes_8:
  "le_bytes 8 w = [ucast w, ucast (drop_bit 8 w), ucast (drop_bit 16 w), ucast (drop_bit 24 w),
     ucast (drop_bit 32 w), ucast (drop_bit 40 w), ucast (drop_bit 48 w), ucast (drop_bit 56 w)]"
  by (simp add: le_bytes_def upt_rec)

section \<open>Arrays of words in memory\<close>

definition enc_words :: "bool \<Rightarrow> nat \<Rightarrow> 'a::len word list \<Rightarrow> byte list" where
  "enc_words big n ws = concat (map (mem_bytes big n) ws)"

fun dec_words :: "bool \<Rightarrow> nat \<Rightarrow> nat \<Rightarrow> byte list \<Rightarrow> 'a::len word list" where
  "dec_words big n 0 bs = []"
| "dec_words big n (Suc k) bs = of_mem_bytes big (take n bs) # dec_words big n k (drop n bs)"

lemma enc_words_simps [simp]:
  "enc_words big n [] = []"
  "enc_words big n (w # ws) = mem_bytes big n w @ enc_words big n ws"
  by (simp_all add: enc_words_def)

lemma length_enc_words [simp, risu_layout]: "length (enc_words big n ws) = n * length ws"
  by (induction ws) simp_all

lemma length_dec_words [simp, risu_layout]: "length (dec_words big n k bs) = k"
  by (induction k arbitrary: bs) simp_all

lemma dec_words_enc_words [simp, risu_layout]:
  fixes ws :: "'a::len word list"
  assumes "LENGTH('a) \<le> 8 * n" and "length ws = k"
  shows "dec_words big n k (enc_words big n ws @ rest) = ws"
  using assms(2)
proof (induction ws arbitrary: k)
  case Nil
  then show ?case by simp
next
  case (Cons w ws)
  then obtain k' where "k = Suc k'" "length ws = k'" by auto
  with Cons.IH [of k'] assms(1) show ?case by simp
qed

lemma enc_words_map_swap:
  assumes "\<And>w :: 'a::len word. mem_bytes big n (f w) = mem_bytes (\<not> big) n w"
  shows "enc_words big n (map f ws) = enc_words (\<not> big) n ws"
  by (induction ws) (simp_all add: assms)

section \<open>Structures in memory\<close>

text \<open>
  The contract of a structure that is sent as the bytes it occupies: its layout has a fixed size,
  and the bytes determine the value. A buffer that is filled from its start by a shorter read keeps
  its old tail.
\<close>

definition fill :: "byte list \<Rightarrow> byte list \<Rightarrow> byte list" where
  "fill new old = new @ drop (length new) old"

lemma length_fill [simp]: "length new \<le> length old \<Longrightarrow> length (fill new old) = length old"
  by (simp add: fill_def)

lemma fill_all [simp]: "length old \<le> length new \<Longrightarrow> fill new old = new"
  by (simp add: fill_def)

locale struct_layout =
  fixes enc :: "'s \<Rightarrow> byte list"
    and dec :: "byte list \<Rightarrow> 's"
    and sz :: nat
    and wf :: "'s \<Rightarrow> bool"
  assumes length_enc: "wf x \<Longrightarrow> length (enc x) = sz"
    and dec_enc: "wf x \<Longrightarrow> dec (enc x) = x"
begin

lemma enc_inject: "wf x \<Longrightarrow> wf y \<Longrightarrow> enc x = enc y \<longleftrightarrow> x = y"
  using dec_enc by metis

lemma overwrite_all: "wf x \<Longrightarrow> wf y \<Longrightarrow> dec (fill (enc x) (enc y)) = x"
  by (simp add: length_enc dec_enc)

lemma overwrite_none: "wf y \<Longrightarrow> dec (fill [] (enc y)) = y"
  by (simp add: fill_def dec_enc)

end

end
