(* ===== verification/Endian.thy ===== *)
theory Endian
  imports Risu_Prelude
begin

text \<open>
  Byte swapping (\<^verbatim>\<open>src/endianswap.h\<close>): the compiler built-ins, the portable fall-back macros
  that are used when neither a GNU C++, an Apple nor a Microsoft compiler is detected, and the
  size-directed macro. The built-ins are documented to reverse the order of the bytes.
\<close>

section \<open>Definitions\<close>

text \<open>The built-ins reverse the bytes of their argument.\<close>

definition byteswap :: "nat \<Rightarrow> 'a::len word \<Rightarrow> 'a word" where
  "byteswap n w = of_le_bytes (rev (le_bytes n w))"

definition BYTESWAP_16 :: "u16 \<Rightarrow> u16" where
  "BYTESWAP_16 x = byteswap 2 x"

definition BYTESWAP_32 :: "u32 \<Rightarrow> u32" where
  "BYTESWAP_32 x = byteswap 4 x"

definition BYTESWAP_64 :: "u64 \<Rightarrow> u64" where
  "BYTESWAP_64 x = byteswap 8 x"

text \<open>The fall-back macros, shift by shift.\<close>

definition slow_BYTESWAP_16 :: "u16 \<Rightarrow> u16" where
  "slow_BYTESWAP_16 x = drop_bit 8 x OR push_bit 8 (x AND 0xFF)"

definition slow_BYTESWAP_32 :: "u32 \<Rightarrow> u32" where
  "slow_BYTESWAP_32 x =
     drop_bit 24 x OR (drop_bit 8 x AND 0xFF00) OR push_bit 8 (x AND 0xFF00) OR push_bit 24 x"

text \<open>
  Applied to an \<^verbatim>\<open>int32_t\<close> (the \<^verbatim>\<open>risu_op\<close> of a trace header) the first shift of the macro is
  arithmetic.
\<close>

definition slow_BYTESWAP_32_signed :: "u32 \<Rightarrow> u32" where
  "slow_BYTESWAP_32_signed x =
     signed_drop_bit 24 x OR (signed_drop_bit 8 x AND 0xFF00) OR push_bit 8 (x AND 0xFF00)
       OR push_bit 24 x"

definition slow_BYTESWAP_64 :: "u64 \<Rightarrow> u64" where
  "slow_BYTESWAP_64 x =
     drop_bit 56 x OR
     drop_bit 48 (x AND 0x00FF000000000000) OR
     drop_bit 40 (x AND 0x0000FF0000000000) OR
     drop_bit 32 (x AND 0x000000FF00000000) OR
     push_bit 32 (x AND 0x00000000FF000000) OR
     push_bit 40 (x AND 0x0000000000FF0000) OR
     push_bit 48 (x AND 0x000000000000FF00) OR
     push_bit 56 (x AND 0x00000000000000FF)"

definition BYTESWAP_SIZED :: "u32 \<Rightarrow> nat \<Rightarrow> u32" where
  "BYTESWAP_SIZED val sz =
     (if sz = 2 then ucast (BYTESWAP_16 (ucast val)) else if sz = 4 then BYTESWAP_32 val else val)"

section \<open>Reversing bytes\<close>

lemma le_bytes_byteswap [simp]:
  fixes w :: "'a::len word"
  assumes "8 * n \<le> LENGTH('a)"
  shows "le_bytes n (byteswap n w) = rev (le_bytes n w)"
  using assms le_bytes_of_le_bytes [of "rev (le_bytes n w)", where 'a = 'a]
  by (simp add: byteswap_def)

lemma byteswap_byteswap [simp]:
  fixes w :: "'a::len word"
  assumes "LENGTH('a) = 8 * n"
  shows "byteswap n (byteswap n w) = w"
  using assms by (subst byteswap_def) simp

lemma mem_bytes_byteswap [simp]:
  fixes w :: "'a::len word"
  assumes "8 * n \<le> LENGTH('a)"
  shows "mem_bytes big n (byteswap n w) = mem_bytes (\<not> big) n w"
  using assms by (simp add: mem_bytes_def)

lemma byteswap_eq_iff [simp]:
  fixes v w :: "'a::len word"
  assumes "LENGTH('a) = 8 * n"
  shows "byteswap n v = byteswap n w \<longleftrightarrow> v = w"
  using byteswap_byteswap [OF assms] by metis

lemma bit_byteswap:
  fixes w :: "'a::len word"
  assumes "8 * n = LENGTH('a)"
  shows "bit (byteswap n w) k \<longleftrightarrow> k < LENGTH('a) \<and> bit w (8 * (n - 1 - k div 8) + k mod 8)"
proof (cases "k < LENGTH('a)")
  case True
  with assms have "k div 8 < n" by (simp add: less_mult_imp_div_less mult.commute)
  then show ?thesis
    using True by (simp add: byteswap_def bit_of_le_bytes rev_nth bit_le_bytes_nth del: nth_le_bytes)
next
  case False
  then show ?thesis by (auto dest: bit_imp_le_length)
qed

section \<open>The fall-back macros against the built-ins\<close>

lemma byte_mask_bit:
  "bit (push_bit n (mask 8) :: 'a::len word) k \<longleftrightarrow> n \<le> k \<and> k < n + 8 \<and> k < LENGTH('a)"
  by (auto simp: bit_simps)

lemma byte_masks:
  "(0xFF :: 'a::len word) = push_bit 0 (mask 8)"
  "(0xFF00 :: 'a::len word) = push_bit 8 (mask 8)"
  "(0xFF0000 :: 'a::len word) = push_bit 16 (mask 8)"
  "(0xFF000000 :: 'a::len word) = push_bit 24 (mask 8)"
  "(0xFF00000000 :: 'a::len word) = push_bit 32 (mask 8)"
  "(0xFF0000000000 :: 'a::len word) = push_bit 40 (mask 8)"
  "(0xFF000000000000 :: 'a::len word) = push_bit 48 (mask 8)"
  by (simp_all add: mask_eq_exp_minus_1 push_bit_eq_mult)

lemma byte_index_cases:
  assumes "(k::nat) < 32"
  obtains "k div 8 = 0" "k mod 8 = k" "k < 8"
  | "k div 8 = 1" "k mod 8 = k - 8" "8 \<le> k" "k < 16"
  | "k div 8 = 2" "k mod 8 = k - 16" "16 \<le> k" "k < 24"
  | "k div 8 = 3" "k mod 8 = k - 24" "24 \<le> k" "k < 32"
  using assms that by (cases "k < 8"; cases "k < 16"; cases "k < 24") (auto simp: le_div_geq le_mod_geq)

lemma slow_BYTESWAP_16_eq: "slow_BYTESWAP_16 x = BYTESWAP_16 x"
proof (rule bit_word_eqI)
  fix k assume "k < LENGTH(16)"
  then have "k < 32" and "k < 16" by simp_all
  from this(1) show "bit (slow_BYTESWAP_16 x) k = bit (BYTESWAP_16 x) k"
    unfolding slow_BYTESWAP_16_def BYTESWAP_16_def byte_masks
    by (cases rule: byte_index_cases) (use \<open>k < 16\<close> in \<open>auto simp: bit_byteswap bit_simps byte_mask_bit dest: bit_imp_le_length\<close>)
qed

lemma slow_BYTESWAP_32_eq: "slow_BYTESWAP_32 x = BYTESWAP_32 x"
proof (rule bit_word_eqI)
  fix k assume "k < LENGTH(32)"
  then have "k < 32" by simp
  then show "bit (slow_BYTESWAP_32 x) k = bit (BYTESWAP_32 x) k"
    unfolding slow_BYTESWAP_32_def BYTESWAP_32_def byte_masks
    by (cases rule: byte_index_cases) (auto simp: bit_byteswap bit_simps byte_mask_bit add.commute dest: bit_imp_le_length)
qed

lemma bit_signed_drop_bit_32: "bit (signed_drop_bit m x :: u32) k \<longleftrightarrow> k < 32 \<and> bit x (if 32 - m \<le> k then 31 else m + k)"
  by (auto simp: bit_signed_drop_bit_iff dest: bit_imp_le_length)

lemma bit_upper_24: "bit (push_bit 8 (mask 24) :: u32) k \<longleftrightarrow> 8 \<le> k \<and> k < 32"
  by (auto simp: bit_simps)

text \<open>
  Applied to a signed value, as \<^verbatim>\<open>byte_swap_header\<close> does with \<^verbatim>\<open>risu_op\<close>, the fall-back agrees with the
  built-in exactly up to the sign: for a negative argument the arithmetic shift also sets the
  upper 24 bits of the result.
\<close>

lemma slow_BYTESWAP_32_signed_value: "slow_BYTESWAP_32_signed x = (if bit x 31 then BYTESWAP_32 x OR 0xFFFFFF00 else BYTESWAP_32 x)"
proof (rule bit_word_eqI)
  fix k assume "k < LENGTH(32)"
  then have "k < 32" by simp
  have ff: "(0xFFFFFF00::u32) = push_bit 8 (mask 24)" by (simp add: mask_eq_exp_minus_1 push_bit_eq_mult)
  from \<open>k < 32\<close> show "bit (slow_BYTESWAP_32_signed x) k = bit (if bit x 31 then BYTESWAP_32 x OR 0xFFFFFF00 else BYTESWAP_32 x) k"
    unfolding slow_BYTESWAP_32_signed_def BYTESWAP_32_def byte_masks ff
    by (cases rule: byte_index_cases)
      (auto simp: bit_byteswap bit_signed_drop_bit_32 bit_simps add.commute simp del: bit_signed_drop_bit_iff
        split: if_splits dest: bit_imp_le_length)
qed

text \<open>
  The fall-back of \<^verbatim>\<open>BYTESWAP_64\<close> does not reverse the bytes of its argument: for every argument
  it merges the four upper bytes into the lowest byte and the four lower bytes into the highest
  byte of the result, and loses the rest.
\<close>

lemma slow_BYTESWAP_64_value: "slow_BYTESWAP_64 x =
  (let b = (\<lambda>i. drop_bit (8 * i) x AND 0xFF) in (b 7 OR b 6 OR b 5 OR b 4) OR push_bit 56 (b 3 OR b 2 OR b 1 OR b 0))"
proof (rule bit_word_eqI)
  fix k assume "k < LENGTH(64)"
  then have "k < 64" by simp
  then consider "k < 8" | "8 \<le> k" "k < 56" | "56 \<le> k" by linarith
  then show "bit (slow_BYTESWAP_64 x) k = bit (let b = (\<lambda>i. drop_bit (8 * i) x AND 0xFF) in (b 7 OR b 6 OR b 5 OR b 4) OR push_bit 56 (b 3 OR b 2 OR b 1 OR b 0)) k"
    unfolding slow_BYTESWAP_64_def byte_masks Let_def
    by cases (use \<open>k < 64\<close> in \<open>auto simp: bit_simps byte_mask_bit add.commute dest: bit_imp_le_length\<close>)
qed

text \<open>
  C33: The portable fall-backs. \<^verbatim>\<open>BYTESWAP_32\<close> computes the same value as the compiler built-in for every unsigned argument;
  applied to a signed value, as \<^verbatim>\<open>byte_swap_header\<close> does with \<^verbatim>\<open>risu_op\<close>, it also sets the upper 24 bits of the result for a
  negative one; \<^verbatim>\<open>BYTESWAP_64\<close> does not reverse the bytes but merges the four upper ones into the lowest and the four lower
  ones into the highest.
\<close>

theorem portable_byteswaps:
  "slow_BYTESWAP_32 x = BYTESWAP_32 x \<and>
   slow_BYTESWAP_32_signed x = (if bit x 31 then BYTESWAP_32 x OR 0xFFFFFF00 else BYTESWAP_32 x) \<and>
   slow_BYTESWAP_64 y = (let b = (\<lambda>i. drop_bit (8 * i) y AND 0xFF) in (b 7 OR b 6 OR b 5 OR b 4) OR push_bit 56 (b 3 OR b 2 OR b 1 OR b 0))"
  by (intro conjI slow_BYTESWAP_32_eq slow_BYTESWAP_32_signed_value slow_BYTESWAP_64_value)

lemma BYTESWAP_32_BYTESWAP_32 [simp]: "BYTESWAP_32 (BYTESWAP_32 x) = x"
  by (simp add: BYTESWAP_32_def)

lemma BYTESWAP_64_BYTESWAP_64 [simp]: "BYTESWAP_64 (BYTESWAP_64 x) = x"
  by (simp add: BYTESWAP_64_def)

lemma mem_bytes_BYTESWAP_32 [simp]: "mem_bytes big 4 (BYTESWAP_32 x) = mem_bytes (\<not> big) 4 x"
  by (simp add: BYTESWAP_32_def)

lemma mem_bytes_BYTESWAP_64 [simp]: "mem_bytes big 8 (BYTESWAP_64 x) = mem_bytes (\<not> big) 8 x"
  by (simp add: BYTESWAP_64_def)

end
