(* ===== verification/Risu_Types.thy ===== *)
theory Risu_Types
  imports Endian
begin

text \<open>
  The declarations of \<^verbatim>\<open>src/risu.h\<close> that the harness and the architecture back ends share: the
  operations a test image can request, the results of handling one of them, and the header of a
  trace record. C enumerations are datatypes; the values an enumeration object can hold without
  being an enumerator (a received byte, four bits of an instruction) are kept in an extra
  constructor.
\<close>

section \<open>Operations\<close>

datatype RisuOp =
    OP_SIGILL
  | OP_COMPARE
  | OP_TESTEND
  | OP_SETMEMBLOCK
  | OP_GETMEMBLOCK
  | OP_COMPAREMEM
  | OP_SETUPBEGIN
  | OP_SETUPEND
  | OP_UNKNOWN int

definition op_of_int :: "int \<Rightarrow> RisuOp" where
  "op_of_int i =
     (if i = -1 then OP_SIGILL else if i = 0 then OP_COMPARE else if i = 1 then OP_TESTEND
      else if i = 2 then OP_SETMEMBLOCK else if i = 3 then OP_GETMEMBLOCK
      else if i = 4 then OP_COMPAREMEM else if i = 5 then OP_SETUPBEGIN
      else if i = 6 then OP_SETUPEND else OP_UNKNOWN i)"

fun int_of_op :: "RisuOp \<Rightarrow> int" where
  "int_of_op OP_SIGILL = -1"
| "int_of_op OP_COMPARE = 0"
| "int_of_op OP_TESTEND = 1"
| "int_of_op OP_SETMEMBLOCK = 2"
| "int_of_op OP_GETMEMBLOCK = 3"
| "int_of_op OP_COMPAREMEM = 4"
| "int_of_op OP_SETUPBEGIN = 5"
| "int_of_op OP_SETUPEND = 6"
| "int_of_op (OP_UNKNOWN i) = i"

fun op_known :: "RisuOp \<Rightarrow> bool" where
  "op_known (OP_UNKNOWN _) = False"
| "op_known _ = True"

section \<open>Results\<close>

datatype RisuResult =
    RES_OK
  | RES_END
  | RES_MISMATCH_REG
  | RES_MISMATCH_MEM
  | RES_MISMATCH_OP
  | RES_BAD_IO
  | RES_BAD_MAGIC
  | RES_BAD_SIZE_HEADER
  | RES_BAD_SIZE_REGINFO
  | RES_BAD_SIZE_MEMBLOCK
  | RES_BAD_SIZE_ZERO
  | RES_BAD_OP
  | RES_SIGBUS
  | RES_UNKNOWN nat

definition res_of_nat :: "nat \<Rightarrow> RisuResult" where
  "res_of_nat n =
     (let rs = [RES_OK, RES_END, RES_MISMATCH_REG, RES_MISMATCH_MEM, RES_MISMATCH_OP, RES_BAD_IO,
                RES_BAD_MAGIC, RES_BAD_SIZE_HEADER, RES_BAD_SIZE_REGINFO, RES_BAD_SIZE_MEMBLOCK,
                RES_BAD_SIZE_ZERO, RES_BAD_OP, RES_SIGBUS]
      in if n < length rs then rs ! n else RES_UNKNOWN n)"

fun nat_of_res :: "RisuResult \<Rightarrow> nat" where
  "nat_of_res RES_OK = 0"
| "nat_of_res RES_END = 1"
| "nat_of_res RES_MISMATCH_REG = 2"
| "nat_of_res RES_MISMATCH_MEM = 3"
| "nat_of_res RES_MISMATCH_OP = 4"
| "nat_of_res RES_BAD_IO = 5"
| "nat_of_res RES_BAD_MAGIC = 6"
| "nat_of_res RES_BAD_SIZE_HEADER = 7"
| "nat_of_res RES_BAD_SIZE_REGINFO = 8"
| "nat_of_res RES_BAD_SIZE_MEMBLOCK = 9"
| "nat_of_res RES_BAD_SIZE_ZERO = 10"
| "nat_of_res RES_BAD_OP = 11"
| "nat_of_res RES_SIGBUS = 12"
| "nat_of_res (RES_UNKNOWN n) = n"

fun res_known :: "RisuResult \<Rightarrow> bool" where
  "res_known (RES_UNKNOWN _) = False"
| "res_known _ = True"

section \<open>Constants and the trace header\<close>

definition MEMBLOCKLEN :: nat where
  "MEMBLOCKLEN = 8192"

text \<open>The characters R, I, S, U.\<close>

definition RISU_MAGIC :: u32 where
  "RISU_MAGIC = push_bit 24 0x52 OR push_bit 16 0x49 OR push_bit 8 0x53 OR 0x55"

text \<open>
  The 32-bit build: \<^verbatim>\<open>arch_ptr_t\<close> is \<^verbatim>\<open>uint32_t\<close> (\<^verbatim>\<open>src/risu_reginfo_ppc64.h\<close>), as it is for every
  build of the DingusPPC and Mac OS 9 harness.
\<close>

type_synonym arch_ptr = u32

record trace_header =
  magic :: u32
  size :: u32
  risu_op :: u32
  pc :: arch_ptr

text \<open>The codes of options that a back end adds start here.\<close>

definition FIRST_ARCH_OPT :: int where
  "FIRST_ARCH_OPT = 0x100"

section \<open>Lemmas\<close>

lemma op_of_int_of_op [simp]: "op_known op \<Longrightarrow> op_of_int (int_of_op op) = op"
  by (cases op) (simp_all add: op_of_int_def)

lemma int_of_op_of_int [simp]: "int_of_op (op_of_int i) = i"
  by (simp add: op_of_int_def)

lemma op_of_int_inject [simp]: "op_of_int i = op_of_int j \<longleftrightarrow> i = j"
  by (metis int_of_op_of_int)

lemma int_of_op_range: "op_known op \<Longrightarrow> -1 \<le> int_of_op op \<and> int_of_op op \<le> 6"
  by (cases op) simp_all

lemma res_of_nat_of_res [simp]: "res_known r \<Longrightarrow> res_of_nat (nat_of_res r) = r"
  by (cases r) (simp_all add: res_of_nat_def)

lemma nat_of_res_of_nat [simp]: "nat_of_res (res_of_nat n) = n"
proof (cases "n < 13")
  case True
  then have "n \<in> set [0..<13]" by simp
  then show ?thesis by (auto simp: upt_rec res_of_nat_def)
next
  case False
  then show ?thesis by (simp add: res_of_nat_def)
qed

lemma RISU_MAGIC_value: "RISU_MAGIC = 0x52495355"
  by (simp add: RISU_MAGIC_def)

lemma BYTESWAP_32_RISU_MAGIC: "BYTESWAP_32 RISU_MAGIC = 0x55534952"
  by (simp add: RISU_MAGIC_value slow_BYTESWAP_32_def flip: slow_BYTESWAP_32_eq)

lemma RISU_MAGIC_not_palindrome [simp]: "BYTESWAP_32 RISU_MAGIC \<noteq> RISU_MAGIC"
  using BYTESWAP_32_RISU_MAGIC by (simp add: RISU_MAGIC_value)

end
