(* ===== verification/Comms.thy ===== *)
theory Comms
  imports Risu_Types
begin

text \<open>
  The socket layer between master and apprentice (\<^verbatim>\<open>src/comms.c\<close>). The kernel side of a file
  descriptor is a record: the bytes that wait to be read, the bytes accepted so far, \<^verbatim>\<open>errno\<close>, and
  the outcomes of the system calls to come. \<open>Xfer k\<close> lets the next call move at most \<open>k\<close>
  bytes, so that short reads, short writes and the end of the stream (\<open>Xfer 0\<close>) are all
  histories of the model; \<open>Fail e\<close> makes the call return -1 with \<^verbatim>\<open>errno\<close> set to \<open>e\<close>. When the
  history ends the process is still blocked in the call.
\<close>

section \<open>System calls\<close>

datatype sysret = Xfer nat | Fail int

record sock =
  rx :: "byte list"
  tx :: "byte list"
  errno :: int
  plan :: "sysret list"

definition EINTR :: int where
  "EINTR = 4"

definition EINVAL :: int where
  "EINVAL = 22"

definition sys_read :: "nat \<Rightarrow> sock \<Rightarrow> (int \<times> byte list \<times> sock) option" where
  "sys_read n s =
     (case plan s of
        [] \<Rightarrow> None
      | Xfer k # p \<Rightarrow>
          (let bs = take (min k n) (rx s)
           in Some (int (length bs), bs, s\<lparr>rx := drop (length bs) (rx s), plan := p\<rparr>))
      | Fail e # p \<Rightarrow> Some (-1, [], s\<lparr>errno := e, plan := p\<rparr>))"

text \<open>
  A \<^verbatim>\<open>read\<close> whose count is a C \<^verbatim>\<open>int\<close>. A negative one becomes a count above \<^verbatim>\<open>SSIZE_MAX\<close>, which the systems reject
  at once; which error they report does not matter here, as long as it is not \<^verbatim>\<open>EINTR\<close>.
\<close>

definition read_int :: "int \<Rightarrow> sock \<Rightarrow> (int \<times> byte list \<times> sock) option" where
  "read_int len s = (if len < 0 then Some (-1, [], s\<lparr>errno := EINVAL\<rparr>) else sys_read (nat len) s)"

definition sys_write :: "byte list \<Rightarrow> sock \<Rightarrow> (int \<times> sock) option" where
  "sys_write bs s =
     (case plan s of
        [] \<Rightarrow> None
      | Xfer k # p \<Rightarrow>
          Some (int (length (take k bs)), s\<lparr>tx := tx s @ take k bs, plan := p\<rparr>)
      | Fail e # p \<Rightarrow> Some (-1, s\<lparr>errno := e, plan := p\<rparr>))"

text \<open>An \<^verbatim>\<open>iovec\<close> is a base buffer and the number of its bytes that are to be written.\<close>

type_synonym iovec = "byte list \<times> nat"

definition gather :: "iovec list \<Rightarrow> byte list" where
  "gather iov = concat (map (\<lambda>(base, len). take len base) iov)"

section \<open>Receiving\<close>

text \<open>
  The callers of \<^verbatim>\<open>recv_bytes\<close> and \<^verbatim>\<open>recv_data_pkt\<close> pass the size of the buffer they own, so \<^verbatim>\<open>pktlen\<close> is a
  natural number here. The C parameter is an \<^verbatim>\<open>int\<close>: the model speaks of the code for sizes below 2 to the power 31.
\<close>

function recv_bytes :: "nat \<Rightarrow> sock \<Rightarrow> fault + (byte list \<times> sock)" where
  "recv_bytes pktlen s =
     (if pktlen = 0 then Inr ([], s)
      else case sys_read pktlen s of
        None \<Rightarrow> Inl Waiting
      | Some (i, bs, s') \<Rightarrow>
          if i \<le> 0 then
            (if errno s' = EINTR then recv_bytes pktlen s' else Inl Exit_Failure)
          else
            (case recv_bytes (pktlen - nat i) s' of
               Inl e \<Rightarrow> Inl e
             | Inr (r, s'') \<Rightarrow> Inr (bs @ r, s'')))"
  by pat_completeness auto
termination
  by (relation "measure (\<lambda>(n, s). length (plan s))")
    (auto simp: sys_read_def Let_def split: list.splits sysret.splits)

text \<open>
  \<^verbatim>\<open>recv_and_discard_bytes\<close> takes a C \<^verbatim>\<open>int\<close>: the received length is an unsigned word that is
  converted to a signed one. A read of more than the 64 bytes of \<^verbatim>\<open>dumpbuf\<close> would write past it.
\<close>

function recv_and_discard_bytes :: "int \<Rightarrow> sock \<Rightarrow> fault + sock" where
  "recv_and_discard_bytes pktlen s =
     (if pktlen = 0 then Inr s
      else case read_int (if 64 > pktlen then pktlen else 64) s of
        None \<Rightarrow> Inl Waiting
      | Some (i, bs, s') \<Rightarrow>
          if 64 < length bs then Inl Out_Of_Bounds
          else if i \<le> 0 then
            (if errno s' = EINTR then recv_and_discard_bytes pktlen s' else Inl Exit_Failure)
          else recv_and_discard_bytes (pktlen - i) s')"
  by pat_completeness auto
termination
  by (relation "measure (\<lambda>(n, s). length (plan s))")
    (auto simp: read_int_def sys_read_def EINVAL_def EINTR_def Let_def split: list.splits sysret.splits if_splits)

definition recv_data_pkt :: "nat \<Rightarrow> sock \<Rightarrow> fault + (RisuResult \<times> byte list \<times> sock)" where
  "recv_data_pkt pktlen s =
     (case recv_bytes 4 s of
        Inl e \<Rightarrow> Inl e
      | Inr (lb, s1) \<Rightarrow>
          (let net_pktlen = (of_mem_bytes True lb :: u32)
           in if (of_nat pktlen :: u32) \<noteq> net_pktlen then
                (case recv_and_discard_bytes (sint net_pktlen) s1 of
                   Inl e \<Rightarrow> Inl e
                 | Inr s2 \<Rightarrow> Inr (RES_BAD_IO, [], s2))
              else
                (case recv_bytes pktlen s1 of
                   Inl e \<Rightarrow> Inl e
                 | Inr (bs, s2) \<Rightarrow> Inr (RES_OK, bs, s2))))"

section \<open>Sending\<close>

text \<open>
  Moving forward through the vector after \<open>i\<close> bytes were written: entries that are complete are
  dropped, the length of the first incomplete one is reduced; its base stays as it is. The empty
  result is the \<^verbatim>\<open>return\<close> inside of the inner loop.
\<close>

fun advance_iov :: "nat \<Rightarrow> iovec list \<Rightarrow> iovec list" where
  "advance_iov i [] = []"
| "advance_iov i ((base, len) # iov) =
     (if i \<ge> len then advance_iov (i - len) iov else (base, len - i) # iov)"

function safe_writev_loop :: "int \<Rightarrow> iovec list \<Rightarrow> sock \<Rightarrow> fault + (int \<times> sock)" where
  "safe_writev_loop r iov s =
     (case sys_write (gather iov) s of
        None \<Rightarrow> Inl Waiting
      | Some (i, s') \<Rightarrow>
          if i = -1 then
            (if errno s' = EINTR then safe_writev_loop r iov s' else Inr (-1, s'))
          else
            (case advance_iov (nat i) iov of
               [] \<Rightarrow> Inr (r + i, s')
             | v # iov' \<Rightarrow> safe_writev_loop (r + i) (v # iov') s'))"
  by pat_completeness auto
termination
  by (relation "measure (\<lambda>(r, iov, s). length (plan s))")
    (auto simp: sys_write_def Let_def split: list.splits sysret.splits)

definition safe_writev :: "iovec list \<Rightarrow> sock \<Rightarrow> fault + (int \<times> sock)" where
  "safe_writev iov s = safe_writev_loop 0 iov s"

definition send_data_pkt :: "byte list \<Rightarrow> nat \<Rightarrow> sock \<Rightarrow> fault + (RisuResult \<times> sock)" where
  "send_data_pkt pkt pktlen s =
     (if length pkt < pktlen then Inl Out_Of_Bounds
      else
        (let net_pktlen = mem_bytes True 4 (of_nat pktlen :: u32)
         in case safe_writev [(net_pktlen, 4), (pkt, pktlen)] s of
              Inl e \<Rightarrow> Inl e
            | Inr (r, s1) \<Rightarrow>
                if r = -1 then Inl Exit_Failure
                else
                  (case sys_read 1 s1 of
                     None \<Rightarrow> Inl Waiting
                   | Some (i, bs, s2) \<Rightarrow>
                       if i \<noteq> 1 then Inl Exit_Failure
                       else Inr (res_of_nat (unat (hd bs)), s2))))"

definition send_response_byte :: "RisuResult \<Rightarrow> sock \<Rightarrow> fault + sock" where
  "send_response_byte resp s =
     (case sys_write [of_nat (nat_of_res resp)] s of
        None \<Rightarrow> Inl Waiting
      | Some (i, s') \<Rightarrow> if i \<noteq> 1 then Inl Exit_Failure else Inr s')"

declare recv_bytes.simps [simp del]
declare recv_and_discard_bytes.simps [simp del]
declare safe_writev_loop.simps [simp del]

lemma take_append_drop_min [simp]: "take k xs @ drop (min (length xs) k) xs = xs"
  by (simp add: min_def)

lemma recv_bytes_0 [simp]: "recv_bytes 0 s = Inr ([], s)"
  by (simp add: recv_bytes.simps [of 0 s])

lemma discard_0 [simp]: "recv_and_discard_bytes 0 s = Inr s"
  by (simp add: recv_and_discard_bytes.simps [of 0 s])

section \<open>Inversion of the system calls\<close>

lemma sys_read_SomeD:
  assumes "sys_read n s = Some (i, bs, s')"
  shows "rx s = bs @ rx s'" and "tx s' = tx s" and "length bs \<le> n"
    and "i = int (length bs) \<or> i = -1 \<and> bs = []"
    and "length (plan s') < length (plan s)"
  using assms by (auto simp: sys_read_def Let_def split: list.splits sysret.splits)

lemma sys_write_SomeD:
  assumes "sys_write bs s = Some (i, s')"
  shows "rx s' = rx s" and "i \<noteq> -1 \<Longrightarrow> 0 \<le> i \<and> i \<le> int (length bs) \<and> tx s' = tx s @ take (nat i) bs"
    and "i = -1 \<Longrightarrow> tx s' = tx s" and "length (plan s') < length (plan s)"
  using assms by (auto simp: sys_write_def Let_def min_def split: list.splits sysret.splits)

text \<open>
  The number of leading system calls of a history that make progress: transfers of at least one
  byte, with interruptions in between that the retry loops absorb.
\<close>

fun good_reads :: "sysret list \<Rightarrow> nat" where
  "good_reads [] = 0"
| "good_reads (Xfer k # p) = (if k = 0 then 0 else Suc (good_reads p))"
| "good_reads (Fail e # p) = (if e = EINTR then good_reads p else 0)"

section \<open>Facts about receiving\<close>

lemma recv_bytes_sound:
  "recv_bytes n s = Inr (bs, s') \<Longrightarrow> rx s = bs @ rx s' \<and> length bs = n \<and> tx s' = tx s"
proof (induction n s arbitrary: bs s' rule: recv_bytes.induct)
  case (1 n s)
  show ?case
  proof (cases "n = 0")
    case True
    with "1.prems" show ?thesis by simp
  next
    case False
    with "1.prems" obtain i b s1 where r: "sys_read n s = Some (i, b, s1)"
      by (auto simp: recv_bytes.simps [of n s] split: option.splits)
    note D = sys_read_SomeD [OF r]
    show ?thesis
    proof (cases "i \<le> 0")
      case True
      with D(4) have "b = []" by auto
      moreover from True "1.prems" False r have "recv_bytes n s1 = Inr (bs, s')" "errno s1 = EINTR"
        by (auto simp: recv_bytes.simps [of n s] split: if_splits)
      moreover have "rx s1 = bs @ rx s' \<and> length bs = n \<and> tx s' = tx s1"
        by (rule "1.IH"(1) [OF False r]) (use True calculation in auto)
      ultimately show ?thesis using D by simp
    next
      case i: False
      with "1.prems" False r obtain c where c: "recv_bytes (n - nat i) s1 = Inr (c, s')" "bs = b @ c"
        by (auto simp: recv_bytes.simps [of n s] split: sum.splits)
      have "rx s1 = c @ rx s' \<and> length c = n - nat i \<and> tx s' = tx s1"
        by (rule "1.IH"(2) [OF False r _ _ i c(1)]) simp_all
      then show ?thesis using c(2) D i by auto
    qed
  qed
qed

lemma recv_bytes_complete:
  "n \<le> length (rx s) \<Longrightarrow> n \<le> good_reads (plan s) \<Longrightarrow>
   \<exists>s'. recv_bytes n s = Inr (take n (rx s), s') \<and> rx s' = drop n (rx s) \<and> tx s' = tx s \<and>
        good_reads (plan s) \<le> n + good_reads (plan s')"
proof (induction n s rule: recv_bytes.induct)
  case (1 n s)
  show ?case
  proof (cases "n = 0")
    case True
    then show ?thesis by simp
  next
    case False
    with "1.prems" obtain e p where p: "plan s = e # p"
      by (cases "plan s") auto
    show ?thesis
    proof (cases e)
      case (Fail er)
      with p "1.prems" False have er: "er = EINTR" by (auto split: if_splits)
      let ?s1 = "s\<lparr>errno := er, plan := p\<rparr>"
      have r: "sys_read n s = Some (-1, [], ?s1)"
        by (simp add: sys_read_def p Fail)
      have eq: "recv_bytes n s = recv_bytes n ?s1"
        using False er by (simp add: recv_bytes.simps [of n s] r)
      have "n \<le> length (rx ?s1)" "n \<le> good_reads (plan ?s1)"
        using "1.prems" p Fail er by simp_all
      from "1.IH"(1) [OF False r _ _ _ _ this] er
      show ?thesis unfolding eq using p Fail er by simp
    next
      case (Xfer k)
      with p "1.prems" False have k: "0 < k" by (auto split: if_splits)
      define b where "b = take (min k n) (rx s)"
      define s1 where "s1 = s\<lparr>rx := drop (length b) (rx s), plan := p\<rparr>"
      have r: "sys_read n s = Some (int (length b), b, s1)"
        by (simp add: sys_read_def p Xfer b_def s1_def Let_def)
      have lb: "length b = min k n" using "1.prems" by (simp add: b_def)
      then have pos: "\<not> int (length b) \<le> 0" using k False by simp
      have "n - nat (int (length b)) \<le> length (rx s1)" using "1.prems" by (simp add: s1_def)
      moreover have "n - nat (int (length b)) \<le> good_reads (plan s1)"
        using "1.prems" p Xfer k lb by (auto simp: s1_def min_def split: if_splits)
      ultimately obtain s' where s': "recv_bytes (n - length b) s1 = Inr (take (n - length b) (rx s1), s')"
        "rx s' = drop (n - length b) (rx s1)" "tx s' = tx s1"
        "good_reads (plan s1) \<le> n - length b + good_reads (plan s')"
        using "1.IH"(2) [OF False r refl refl pos] by auto
      have "b @ take (n - length b) (rx s1) = take n (rx s)"
        using lb take_add [of "length b" "n - length b" "rx s"] by (simp add: b_def s1_def)
      then have "recv_bytes n s = Inr (take n (rx s), s')"
        using False pos r s'(1) by (simp add: recv_bytes.simps [of n s])
      moreover have "rx s' = drop n (rx s)" using s'(2) lb by (simp add: s1_def)
      moreover have "good_reads (plan s) \<le> n + good_reads (plan s')"
        using s'(4) p Xfer k lb False by (simp add: s1_def)
      ultimately show ?thesis using s'(3) by (simp add: s1_def)
    qed
  qed
qed

lemma discard_chunk: "0 < (n::int) \<Longrightarrow> read_int (if 64 > n then n else 64) s = sys_read (min 64 (nat n)) s"
  by (auto simp: read_int_def min_def)

lemma discard_negative: "n < 0 \<Longrightarrow> recv_and_discard_bytes n s = Inl Exit_Failure"
  by (simp add: recv_and_discard_bytes.simps [of n s] read_int_def EINVAL_def EINTR_def)

lemma discard_in_bounds: "recv_and_discard_bytes n s \<noteq> Inl Out_Of_Bounds"
proof (induction n s rule: recv_and_discard_bytes.induct)
  case (1 n s)
  show ?case
  proof (cases "0 < n")
    case True
    have "\<not> 64 < length b" if "read_int (if 64 > n then n else 64) s = Some (i, b, s')" for i b s'
      using sys_read_SomeD(3) [of "min 64 (nat n)" s i b s'] that unfolding discard_chunk [OF True] by simp
    then show ?thesis
      using True "1.IH" by (auto simp: recv_and_discard_bytes.simps [of n s] split: option.splits)
  next
    case False
    then show ?thesis by (cases "n = 0") (simp_all add: discard_negative)
  qed
qed

lemma discard_complete:
  "0 \<le> n \<Longrightarrow> nat n \<le> length (rx s) \<Longrightarrow> nat n \<le> good_reads (plan s) \<Longrightarrow>
   \<exists>s'. recv_and_discard_bytes n s = Inr s' \<and> rx s' = drop (nat n) (rx s) \<and> tx s' = tx s"
proof (induction n s rule: recv_and_discard_bytes.induct)
  case (1 n s)
  show ?case
  proof (cases "n = 0")
    case True
    then show ?thesis by simp
  next
    case False
    with "1.prems" have n: "0 < n" by simp
    let ?len = "min 64 (nat n)" and ?read = "read_int (if 64 > n then n else 64) s"
    from n "1.prems" obtain e p where p: "plan s = e # p"
      by (cases "plan s") auto
    show ?thesis
    proof (cases e)
      case (Fail er)
      with p "1.prems" n have er: "er = EINTR" by (auto split: if_splits)
      let ?s1 = "s\<lparr>errno := er, plan := p\<rparr>"
      have r: "?read = Some (-1, [], ?s1)"
        unfolding discard_chunk [OF n] by (simp add: sys_read_def p Fail)
      have eq: "recv_and_discard_bytes n s = recv_and_discard_bytes n ?s1"
        unfolding recv_and_discard_bytes.simps [of n s] r using False er by simp
      have "nat n \<le> length (rx ?s1)" "nat n \<le> good_reads (plan ?s1)"
        using "1.prems" p Fail er by simp_all
      from "1.IH"(1) [OF False r _ _ _ _ _ "1.prems"(1) this] er
      show ?thesis unfolding eq by simp
    next
      case (Xfer k)
      with p "1.prems" n have k: "0 < k" by (auto split: if_splits)
      define b where "b = take (min k ?len) (rx s)"
      define s1 where "s1 = s\<lparr>rx := drop (length b) (rx s), plan := p\<rparr>"
      have r: "?read = Some (int (length b), b, s1)"
        unfolding discard_chunk [OF n] by (simp add: sys_read_def p Xfer b_def s1_def Let_def)
      have lb: "length b = min k (min 64 (nat n))" using "1.prems" by (simp add: b_def)
      then have pos: "\<not> int (length b) \<le> 0" and b64: "\<not> 64 < length b" and bn: "length b \<le> nat n"
        using k n by auto
      have d: "nat (n - int (length b)) = nat n - length b" by (simp add: nat_diff_distrib)
      have "0 \<le> n - int (length b)" using bn n by simp
      moreover have "nat (n - int (length b)) \<le> length (rx s1)" using "1.prems" by (simp add: s1_def d)
      moreover have "nat (n - int (length b)) \<le> good_reads (plan s1)"
        using "1.prems" p Xfer k pos by (cases b) (auto simp: s1_def d)
      ultimately obtain s' where s': "recv_and_discard_bytes (n - int (length b)) s1 = Inr s'"
        "rx s' = drop (nat n - length b) (rx s1)" "tx s' = tx s1"
        using "1.IH"(2) [OF False r refl refl b64 pos] by (auto simp: d)
      have "recv_and_discard_bytes n s = Inr s'"
        unfolding recv_and_discard_bytes.simps [of n s] r using False b64 pos s'(1) by simp
      then show ?thesis using s' bn by (simp add: s1_def)
    qed
  qed
qed

section \<open>Frames\<close>

text \<open>What a packet looks like on the wire: a network-order length and the data.\<close>

definition pkt_frame :: "byte list \<Rightarrow> byte list" where
  "pkt_frame bs = mem_bytes True 4 (of_nat (length bs) :: u32) @ bs"

lemma unat_of_nat_u32: "n < 2 ^ 32 \<Longrightarrow> unat (of_nat n :: u32) = n"
  by (simp add: unat_of_nat)

lemma sint_of_nat_u32: "n < 2 ^ 31 \<Longrightarrow> sint (of_nat n :: u32) = int n"
  by (simp add: signed_of_nat signed_take_bit_int_eq_self)

lemma of_nat_u32_inject: "m < 2 ^ 32 \<Longrightarrow> n < 2 ^ 32 \<Longrightarrow> (of_nat m :: u32) = of_nat n \<longleftrightarrow> m = n"
  by (metis unat_of_nat_u32)

lemma recv_frame_length:
  assumes "rx s = pkt_frame bs @ rest" and "4 \<le> good_reads (plan s)"
  obtains s1 where "recv_bytes 4 s = Inr (mem_bytes True 4 (of_nat (length bs) :: u32), s1)"
    and "rx s1 = bs @ rest" and "tx s1 = tx s" and "good_reads (plan s) \<le> 4 + good_reads (plan s1)"
  using recv_bytes_complete [of 4 s] assms that by (auto simp: pkt_frame_def)

lemma recv_data_pkt_frame:
  assumes "rx s = pkt_frame bs @ rest" and "length bs < 2 ^ 32"
    and "4 + length bs \<le> good_reads (plan s)"
  shows "\<exists>s'. recv_data_pkt (length bs) s = Inr (RES_OK, bs, s') \<and> rx s' = rest \<and> tx s' = tx s"
proof -
  obtain s1 where s1: "recv_bytes 4 s = Inr (mem_bytes True 4 (of_nat (length bs) :: u32), s1)"
    "rx s1 = bs @ rest" "tx s1 = tx s" "good_reads (plan s) \<le> 4 + good_reads (plan s1)"
    using recv_frame_length [OF assms(1)] assms(3) by auto
  obtain s2 where "recv_bytes (length bs) s1 = Inr (bs, s2)" "rx s2 = rest" "tx s2 = tx s1"
    using recv_bytes_complete [of "length bs" s1] s1 assms(3) by auto
  then show ?thesis using s1 by (simp add: recv_data_pkt_def)
qed

lemma recv_data_pkt_wrong_length:
  assumes "rx s = pkt_frame bs @ rest" and "length bs < 2 ^ 31" and "n < 2 ^ 32" and "n \<noteq> length bs"
    and "4 + length bs \<le> good_reads (plan s)"
  shows "\<exists>s'. recv_data_pkt n s = Inr (RES_BAD_IO, [], s') \<and> rx s' = rest \<and> tx s' = tx s"
proof -
  obtain s1 where s1: "recv_bytes 4 s = Inr (mem_bytes True 4 (of_nat (length bs) :: u32), s1)"
    "rx s1 = bs @ rest" "tx s1 = tx s" "good_reads (plan s) \<le> 4 + good_reads (plan s1)"
    using recv_frame_length [OF assms(1)] assms(5) by auto
  have "(of_nat n :: u32) \<noteq> of_nat (length bs)"
    using assms(2,3,4) by (subst of_nat_u32_inject) simp_all
  moreover have "sint (of_nat (length bs) :: u32) = int (length bs)"
    using assms(2) by (rule sint_of_nat_u32)
  moreover obtain s2 where "recv_and_discard_bytes (int (length bs)) s1 = Inr s2" "rx s2 = rest" "tx s2 = tx s1"
    using discard_complete [of "int (length bs)" s1] s1 assms(5) by auto
  ultimately show ?thesis using s1 by (simp add: recv_data_pkt_def)
qed

section \<open>Facts about sending\<close>

definition wf_iov :: "iovec list \<Rightarrow> bool" where
  "wf_iov iov = list_all (\<lambda>(base, len). len \<le> length base) iov"

lemma wf_iov_simps [simp]:
  "wf_iov []" "wf_iov ((b, l) # iov) \<longleftrightarrow> l \<le> length b \<and> wf_iov iov"
  by (simp_all add: wf_iov_def)

lemma gather_simps [simp]:
  "gather [] = []" "gather ((b, l) # iov) = take l b @ gather iov"
  by (simp_all add: gather_def)

lemma wf_advance_iov: "wf_iov iov \<Longrightarrow> wf_iov (advance_iov i iov)"
  by (induction i iov rule: advance_iov.induct) auto

lemma length_gather_advance_iov:
  "wf_iov iov \<Longrightarrow> length (gather (advance_iov i iov)) = length (gather iov) - i"
  by (induction i iov rule: advance_iov.induct) auto

lemma advance_iov_all [simp]: "wf_iov iov \<Longrightarrow> advance_iov (length (gather iov)) iov = []"
  by (induction iov) auto

text \<open>
  Whatever the history of short writes and interruptions, \<^verbatim>\<open>safe_writev\<close> only returns success
  after as many bytes were accepted as the vector holds.
\<close>

lemma safe_writev_loop_count:
  "safe_writev_loop r iov s = Inr (r', s') \<Longrightarrow> wf_iov iov \<Longrightarrow> 0 \<le> r \<Longrightarrow> r' \<noteq> -1 \<Longrightarrow>
   r' = r + int (length (gather iov)) \<and> length (tx s') = length (tx s) + length (gather iov) \<and> rx s' = rx s"
proof (induction r iov s arbitrary: r' s' rule: safe_writev_loop.induct)
  case (1 r iov s)
  from "1.prems"(1) obtain i s1 where w: "sys_write (gather iov) s = Some (i, s1)"
    by (auto simp: safe_writev_loop.simps [of r iov s] split: option.splits)
  note D = sys_write_SomeD [OF w]
  show ?case
  proof (cases "i = -1")
    case True
    with "1.prems" w have "errno s1 = EINTR" "safe_writev_loop r iov s1 = Inr (r', s')"
      by (auto simp: safe_writev_loop.simps [of r iov s] split: if_splits)
    from "1.IH"(1) [OF w refl True this "1.prems"(2,3,4)] D True show ?thesis by simp
  next
    case False
    show ?thesis
    proof (cases "advance_iov (nat i) iov")
      case Nil
      with False "1.prems" w have "r' = r + i" "s' = s1"
        by (auto simp: safe_writev_loop.simps [of r iov s])
      moreover have "length (gather iov) \<le> nat i"
        using length_gather_advance_iov [OF "1.prems"(2), of "nat i"] Nil by simp
      ultimately show ?thesis using D False by auto
    next
      case (Cons v iov')
      with False "1.prems" w have l: "safe_writev_loop (r + i) (v # iov') s1 = Inr (r', s')"
        by (simp add: safe_writev_loop.simps [of r iov s])
      have "wf_iov (v # iov')" using wf_advance_iov [OF "1.prems"(2), of "nat i"] Cons by simp
      moreover have "length (gather (v # iov')) = length (gather iov) - nat i"
        using length_gather_advance_iov [OF "1.prems"(2), of "nat i"] Cons by simp
      ultimately show ?thesis
        using "1.IH"(2) [OF w refl False Cons l] D False "1.prems"(3,4) by auto
    qed
  qed
qed

text \<open>Interruptions alone do no harm: the whole vector goes out once, in order.\<close>

lemma safe_writev_loop_whole:
  assumes "plan s = replicate m (Fail EINTR) @ Xfer k # p" and "length (gather iov) \<le> k" and "wf_iov iov"
  shows "\<exists>e. safe_writev_loop r iov s =
     Inr (r + int (length (gather iov)), s\<lparr>tx := tx s @ gather iov, errno := e, plan := p\<rparr>)"
  using assms(1)
proof (induction m arbitrary: s)
  case 0
  then show ?case using assms(2,3)
    by (auto simp: safe_writev_loop.simps [of r iov s] sys_write_def intro!: exI [of _ "errno s"])
next
  case (Suc m)
  let ?s1 = "s\<lparr>errno := EINTR, plan := replicate m (Fail EINTR) @ Xfer k # p\<rparr>"
  have "safe_writev_loop r iov s = safe_writev_loop r iov ?s1"
    using Suc.prems by (simp add: safe_writev_loop.simps [of r iov s] sys_write_def)
  with Suc.IH [of ?s1] show ?case by simp
qed

lemma send_data_pkt_whole:
  assumes "plan s = replicate m (Fail EINTR) @ Xfer k # Xfer k' # p" and "4 + length pkt \<le> k" and "0 < k'"
    and "rx s = resp # rs" and "length pkt < 2 ^ 32"
  shows "\<exists>e. send_data_pkt pkt (length pkt) s =
     Inr (res_of_nat (unat resp), s\<lparr>rx := rs, tx := tx s @ pkt_frame pkt, errno := e, plan := p\<rparr>)"
proof -
  let ?iov = "[(mem_bytes True 4 (of_nat (length pkt) :: u32), 4), (pkt, length pkt)]"
  have "length (gather ?iov) \<le> k" using assms(2) by simp
  from safe_writev_loop_whole [OF assms(1) this, of 0] obtain e where
    "safe_writev ?iov s = Inr (int (4 + length pkt), s\<lparr>tx := tx s @ pkt_frame pkt, errno := e, plan := Xfer k' # p\<rparr>)"
    by (auto simp: safe_writev_def pkt_frame_def)
  then show ?thesis using assms(3,4)
    by (auto simp: send_data_pkt_def sys_read_def Let_def min_def take_Cons' intro!: exI [of _ e])
qed

text \<open>
  A short write that stops inside of the data: the vector entry keeps its base, so the next
  \<^verbatim>\<open>writev\<close> starts again at the first byte of the packet.
\<close>

lemma send_data_pkt_short:
  assumes "plan s = Xfer (4 + j) # Xfer k # Xfer k' # p" and "j < length pkt" and "length pkt \<le> k" and "0 < k'"
    and "rx s = resp # rs"
  shows "send_data_pkt pkt (length pkt) s =
     Inr (res_of_nat (unat resp),
       s\<lparr>rx := rs,
          tx := tx s @ mem_bytes True 4 (of_nat (length pkt) :: u32) @ take j pkt @ take (length pkt - j) pkt,
          plan := p\<rparr>)"
proof -
  let ?h = "mem_bytes True 4 (of_nat (length pkt) :: u32)"
  let ?s1 = "s\<lparr>tx := tx s @ ?h @ take j pkt, plan := Xfer k # Xfer k' # p\<rparr>"
  let ?s2 = "s\<lparr>tx := tx s @ ?h @ take j pkt @ take (length pkt - j) pkt, plan := Xfer k' # p\<rparr>"
  have n4: "nat (4 + int j) = 4 + j" by simp
  have "safe_writev [(?h, 4), (pkt, length pkt)] s = safe_writev_loop (int (4 + j)) [(pkt, length pkt - j)] ?s1"
    using assms(1,2) by (simp add: safe_writev_def safe_writev_loop.simps [of 0] sys_write_def min_def n4)
  also have "\<dots> = Inr (int (4 + length pkt), ?s2)"
    using assms(2,3) by (auto simp: safe_writev_loop.simps [of "4 + int j"] sys_write_def min_def)
  finally show ?thesis using assms(4,5)
    by (simp add: send_data_pkt_def sys_read_def Let_def min_def take_Cons')
qed

section \<open>Properties\<close>

text \<open>
  C11: \<^verbatim>\<open>recv_bytes\<close> tolerates short reads and interrupted calls: if the peer has sent at least the
  requested number of bytes and enough of the following reads make progress, it returns exactly
  the next bytes of the stream, leaves the rest of the stream in place and sends nothing.
\<close>

theorem recv_bytes_delivers:
  assumes "n \<le> length (rx s)" and "n \<le> good_reads (plan s)"
  shows "\<exists>s'. recv_bytes n s = Inr (take n (rx s), s') \<and> rx s' = drop n (rx s) \<and> tx s' = tx s"
  using recv_bytes_complete [OF assms] by blast

theorem recv_bytes_delivers_witness:
  "\<exists>s'. recv_bytes 2 \<lparr>rx = [7, 8, 9], tx = [], errno = 0, plan = [Fail EINTR, Xfer 1, Fail EINTR, Xfer 5]\<rparr>
     = Inr ([7, 8], s') \<and> rx s' = [9] \<and> tx s' = []"
  using recv_bytes_delivers [of 2 "\<lparr>rx = [7, 8, 9], tx = [], errno = 0, plan = [Fail EINTR, Xfer 1, Fail EINTR, Xfer 5]\<rparr>"]
  by (simp add: EINTR_def)

text \<open>
  C10: A framed packet is received intact: if the stream starts with the frame of a packet of the
  expected length, \<^verbatim>\<open>recv_data_pkt\<close> returns \<^verbatim>\<open>RES_OK\<close> with its data and consumes just the frame.
\<close>

theorem recv_data_pkt_intact:
  assumes "rx s = pkt_frame bs @ rest" and "length bs < 2 ^ 32"
    and "4 + length bs \<le> good_reads (plan s)"
  shows "\<exists>s'. recv_data_pkt (length bs) s = Inr (RES_OK, bs, s') \<and> rx s' = rest \<and> tx s' = tx s"
  using assms by (rule recv_data_pkt_frame)

theorem recv_data_pkt_intact_witness:
  "\<exists>s'. recv_data_pkt 1 \<lparr>rx = [0, 0, 0, 1, 42, 77], tx = [], errno = 0, plan = [Xfer 1, Xfer 1, Xfer 1, Xfer 9, Xfer 9]\<rparr>
     = Inr (RES_OK, [42], s') \<and> rx s' = [77] \<and> tx s' = []"
  using recv_data_pkt_intact [of "\<lparr>rx = [0, 0, 0, 1, 42, 77], tx = [], errno = 0, plan = [Xfer 1, Xfer 1, Xfer 1, Xfer 9, Xfer 9]\<rparr>" "[42]" "[77]"]
  by (simp add: pkt_frame_def mem_bytes_def le_bytes_4)

text \<open>
  C12: A packet of an unexpected length is reported as \<^verbatim>\<open>RES_BAD_IO\<close> and skipped as a whole, so that
  the two ends stay in step: the stream continues after the frame.
\<close>

theorem recv_data_pkt_resync:
  assumes "rx s = pkt_frame bs @ rest" and "length bs < 2 ^ 31" and "n < 2 ^ 32" and "n \<noteq> length bs"
    and "4 + length bs \<le> good_reads (plan s)"
  shows "\<exists>s'. recv_data_pkt n s = Inr (RES_BAD_IO, [], s') \<and> rx s' = rest \<and> tx s' = tx s"
  using assms by (rule recv_data_pkt_wrong_length)

theorem recv_data_pkt_resync_witness:
  "\<exists>s'. recv_data_pkt 16 \<lparr>rx = [0, 0, 0, 1, 42, 77], tx = [], errno = 0, plan = [Xfer 1, Xfer 1, Xfer 1, Xfer 9, Xfer 9]\<rparr>
     = Inr (RES_BAD_IO, [], s') \<and> rx s' = [77] \<and> tx s' = []"
  using recv_data_pkt_resync [of "\<lparr>rx = [0, 0, 0, 1, 42, 77], tx = [], errno = 0, plan = [Xfer 1, Xfer 1, Xfer 1, Xfer 9, Xfer 9]\<rparr>" "[42]" "[77]" 16]
  by (simp add: pkt_frame_def mem_bytes_def le_bytes_4)

text \<open>
  C37: Unexpected lengths do no harm to memory, but a length word that is negative as a C \<^verbatim>\<open>int\<close> ends the process. Whatever
  the length is, \<^verbatim>\<open>recv_and_discard_bytes\<close> never reads past its buffer; for a negative one it asks for a number of bytes that no
  system delivers, so that \<^verbatim>\<open>recv_data_pkt\<close> exits where the comment promises that the sender gets a response.
\<close>

theorem negative_length_exits:
  assumes "rx s = mem_bytes True 4 (w :: u32) @ rest" "4 \<le> good_reads (plan s)" "sint w < 0" "n < 2 ^ 31"
  shows "recv_data_pkt n s = Inl Exit_Failure \<and> (\<forall>k t. recv_and_discard_bytes k t \<noteq> Inl Out_Of_Bounds)"
proof -
  obtain s1 where "recv_bytes 4 s = Inr (mem_bytes True 4 w, s1)"
    using recv_bytes_complete [of 4 s] assms(1,2) by auto
  moreover have "(of_nat n :: u32) \<noteq> w" using sint_of_nat_u32 [OF assms(4)] assms(3) by auto
  ultimately have "recv_data_pkt n s = Inl Exit_Failure"
    using assms(3) by (simp add: recv_data_pkt_def discard_negative)
  then show ?thesis using discard_in_bounds by blast
qed

theorem negative_length_exits_witness:
  "recv_data_pkt 16 \<lparr>rx = [0x80, 0, 0, 1] @ replicate 70 0, tx = [], errno = 0, plan = [Xfer 1, Xfer 9, Xfer 9, Xfer 9, Xfer 99]\<rparr> =
     Inl Exit_Failure"
  using negative_length_exits [of "\<lparr>rx = [0x80, 0, 0, 1] @ replicate 70 0, tx = [], errno = 0,
    plan = [Xfer 1, Xfer 9, Xfer 9, Xfer 9, Xfer 99]\<rparr>" "0x80000001" "replicate 70 0" 16]
  by (simp add: mem_bytes_def le_bytes_4)

text \<open>
  C38: The retry test reads \<^verbatim>\<open>errno\<close> also when \<^verbatim>\<open>read\<close> returned 0, which does not set it. Once a call was
  interrupted, the end of the stream is therefore never noticed: however often \<^verbatim>\<open>read\<close> returns 0,
  \<^verbatim>\<open>recv_bytes\<close> keeps calling it, while without the interruption it exits.
\<close>

theorem recv_bytes_stale_errno:
  assumes "0 < n"
  shows "recv_bytes n (s\<lparr>plan := Fail EINTR # replicate m (Xfer 0)\<rparr>) = Inl Waiting \<and>
    (errno s \<noteq> EINTR \<longrightarrow> recv_bytes n (s\<lparr>plan := Xfer 0 # p\<rparr>) = Inl Exit_Failure)"
proof (intro conjI impI)
  have spin: "recv_bytes n t = Inl Waiting" if "errno t = EINTR" "plan t = replicate m (Xfer 0)" for m t
    using that
  proof (induction m arbitrary: t)
    case 0
    then show ?case using assms by (simp add: recv_bytes.simps [of n t] sys_read_def)
  next
    case (Suc m)
    let ?u = "t\<lparr>plan := replicate m (Xfer 0)\<rparr>"
    have "recv_bytes n t = recv_bytes n ?u"
      using Suc.prems assms by (simp add: recv_bytes.simps [of n t] sys_read_def Let_def)
    also have "\<dots> = Inl Waiting" using Suc.prems by (intro Suc.IH) simp_all
    finally show ?case .
  qed
  let ?t = "s\<lparr>plan := Fail EINTR # replicate m (Xfer 0)\<rparr>"
  have "recv_bytes n ?t = recv_bytes n (?t\<lparr>errno := EINTR, plan := replicate m (Xfer 0)\<rparr>)"
    using assms by (simp add: recv_bytes.simps [of n ?t] sys_read_def)
  also have "\<dots> = Inl Waiting" by (rule spin) simp_all
  finally show "recv_bytes n ?t = Inl Waiting" .
next
  assume "errno s \<noteq> EINTR"
  then show "recv_bytes n (s\<lparr>plan := Xfer 0 # p\<rparr>) = Inl Exit_Failure"
    using assms by (simp add: recv_bytes.simps [of n "s\<lparr>plan := Xfer 0 # p\<rparr>"] sys_read_def Let_def)
qed

theorem recv_bytes_stale_errno_witness:
  "recv_bytes 4 \<lparr>rx = [], tx = [], errno = 0, plan = [Fail EINTR, Xfer 0, Xfer 0]\<rparr> = Inl Waiting \<and>
   recv_bytes 4 \<lparr>rx = [], tx = [], errno = 0, plan = [Xfer 0]\<rparr> = Inl Exit_Failure"
  using recv_bytes_stale_errno [where n = 4 and m = "Suc (Suc 0)" and p = "[]" and s = "\<lparr>rx = [], tx = [], errno = 0, plan = []\<rparr>"]
  by (simp add: EINTR_def)

text \<open>
  C36: After a short write that stops inside of the packet, the bytes sent are not the packet: its
  first bytes are sent again in the place of its last ones, while the length still matches.
\<close>

theorem send_data_pkt_short_write_resends:
  assumes "plan s = Xfer (4 + j) # Xfer k # Xfer k' # p" and "j < length pkt" and "length pkt \<le> k" and "0 < k'"
    and "rx s = resp # rs"
  shows "\<exists>s'. send_data_pkt pkt (length pkt) s = Inr (res_of_nat (unat resp), s') \<and>
     tx s' = tx s @ mem_bytes True 4 (of_nat (length pkt) :: u32) @ take j pkt @ take (length pkt - j) pkt"
  using send_data_pkt_short [OF assms] by simp

theorem send_data_pkt_short_write_resends_witness:
  "\<exists>s'. send_data_pkt [1, 2, 3] (Suc (Suc (Suc 0))) \<lparr>rx = [0], tx = [], errno = 0, plan = [Xfer 5, Xfer 9, Xfer 1]\<rparr> = Inr (RES_OK, s') \<and>
     tx s' = [0, 0, 0, 3, 1, 1, 2] \<and> tx s' \<noteq> pkt_frame [1, 2, 3]"
  using send_data_pkt_short_write_resends [of "\<lparr>rx = [0], tx = [], errno = 0, plan = [Xfer 5, Xfer 9, Xfer 1]\<rparr>" 1 9 1 "[]" "[1, 2, 3]" 0 "[]"]
  by (fastforce simp: pkt_frame_def mem_bytes_def le_bytes_4 res_of_nat_def)

end
