(* ===== verification/Text_Output.thy ===== *)
theory Text_Output
  imports Risu_Prelude
begin

text \<open>
  The conversions of \<^verbatim>\<open>printf\<close> the sources use, as functions to strings: fixed-width and minimal
  hexadecimal numbers and decimal numbers.
\<close>

section \<open>Formatted output\<close>

definition nl :: string where "nl = [CHR 0x0A]"
definition tab :: string where "tab = [CHR 0x09]"

definition nibble_char :: "nat \<Rightarrow> char" where
  "nibble_char n = (if n < 10 then char_of (48 + n) else char_of (87 + n))"

text \<open>\<^verbatim>\<open>%08x\<close> and \<^verbatim>\<open>%016x\<close> for values of the matching width, and \<^verbatim>\<open>%d\<close> for a non-negative number.\<close>

fun hexn :: "nat \<Rightarrow> 'a::len word \<Rightarrow> string" where
  "hexn 0 w = []"
| "hexn (Suc k) w = hexn k (drop_bit 4 w) @ [nibble_char (unat (w AND 15))]"

definition hex08 :: "u32 \<Rightarrow> string" where "hex08 w = hexn 8 w"
definition hex016 :: "u64 \<Rightarrow> string" where "hex016 w = hexn 16 w"

fun decn :: "nat \<Rightarrow> string" where
  "decn n = (if n < 10 then [nibble_char n] else decn (n div 10) @ [nibble_char (n mod 10)])"

declare decn.simps [simp del]

text \<open>\<^verbatim>\<open>%x\<close>, \<^verbatim>\<open>%#08x\<close> and \<^verbatim>\<open>%d\<close> for a number that may be negative.\<close>

definition hexs :: "u32 \<Rightarrow> string" where
  "hexs w = (case dropWhile (\<lambda>c. c = nibble_char 0) (hex08 w) of [] \<Rightarrow> [nibble_char 0] | cs \<Rightarrow> cs)"

definition alt_hex08 :: "u32 \<Rightarrow> string" where
  "alt_hex08 w =
     (if w = 0 then hex08 0
      else ''0x'' @ replicate (6 - length (hexs w)) (nibble_char 0) @ hexs w)"

definition decs :: "int \<Rightarrow> string" where
  "decs i = (if i < 0 then ''-'' @ decn (nat (- i)) else decn (nat i))"

end
