(* ===== verification/C_Strtol.thy ===== *)
theory C_Strtol
  imports Text_Output
begin

text \<open>
  The conversions of the C library from strings to integers that the command line options go through:
  \<^verbatim>\<open>strtoul\<close> with base 16, \<^verbatim>\<open>strtol\<close> with base 10 and \<^verbatim>\<open>strtoull\<close> with base 0.
\<close>

section \<open>Digits\<close>

fun hex_digit :: "char \<Rightarrow> nat option" where
  "hex_digit c =
     (let k = of_char c :: nat
      in if 48 \<le> k \<and> k \<le> 57 then Some (k - 48)
         else if 97 \<le> k \<and> k \<le> 102 then Some (k - 87)
         else if 65 \<le> k \<and> k \<le> 70 then Some (k - 55)
         else None)"

fun hex_value :: "nat \<Rightarrow> string \<Rightarrow> nat" where
  "hex_value acc [] = acc"
| "hex_value acc (c # cs) = (case hex_digit c of None \<Rightarrow> acc | Some d \<Rightarrow> hex_value (16 * acc + d) cs)"

definition is_space :: "char \<Rightarrow> bool" where
  "is_space c = (of_char c \<in> {32, 9, 10, 11, 12, 13 :: nat})"

definition strip_0x :: "string \<Rightarrow> string" where
  "strip_0x s =
     (case s of
        z # x # d # _ \<Rightarrow>
          if of_char z = (48::nat) \<and> (of_char x = (120::nat) \<or> of_char x = (88::nat)) \<and> hex_digit d \<noteq> None
          then drop 2 s else s
      | _ \<Rightarrow> s)"

text \<open>
  \<^verbatim>\<open>strtoul(arg, 0, 16)\<close> on a machine with \<open>bits\<close>-bit \<^verbatim>\<open>unsigned long\<close>: leading space, a sign, an optional
  prefix, digits up to the first other character, saturation, and negation modulo the word size.
\<close>

definition strtoul_16 :: "nat \<Rightarrow> string \<Rightarrow> nat" where
  "strtoul_16 bits arg =
     (let s = dropWhile is_space arg;
          neg = (case s of c # _ \<Rightarrow> of_char c = (45::nat) | [] \<Rightarrow> False);
          s' = (case s of c # r \<Rightarrow> if of_char c \<in> {43, 45 :: nat} then r else s | [] \<Rightarrow> []);
          v = hex_value 0 (strip_0x s')
      in if 2 ^ bits \<le> v then 2 ^ bits - 1
         else if neg then (2 ^ bits - v) mod 2 ^ bits else v)"

section \<open>Decimal numbers\<close>

fun dec_digit :: "char \<Rightarrow> nat option" where
  "dec_digit c = (let k = of_char c :: nat in if 48 \<le> k \<and> k \<le> 57 then Some (k - 48) else None)"

declare dec_digit.simps [simp del]

fun dec_value :: "nat \<Rightarrow> string \<Rightarrow> nat" where
  "dec_value acc [] = acc"
| "dec_value acc (c # cs) = (case dec_digit c of None \<Rightarrow> acc | Some d \<Rightarrow> dec_value (10 * acc + d) cs)"

text \<open>
  \<^verbatim>\<open>strtol(arg, 0, 10)\<close> on a machine with \<open>bits\<close>-bit \<^verbatim>\<open>long\<close>: leading space, a sign, digits up to the first other
  character, saturation at either end. No digits at all give 0.
\<close>

definition strtol_10 :: "nat \<Rightarrow> string \<Rightarrow> int" where
  "strtol_10 bits arg =
     (let s = dropWhile is_space arg;
          neg = (case s of c # _ \<Rightarrow> of_char c = (45::nat) | [] \<Rightarrow> False);
          s' = (case s of c # r \<Rightarrow> if of_char c \<in> {43, 45 :: nat} then r else s | [] \<Rightarrow> []);
          v = (if neg then - int (dec_value 0 s') else int (dec_value 0 s'))
      in max (- (2 ^ (bits - 1))) (min v (2 ^ (bits - 1) - 1)))"

lemma strtol_10_range: "0 < bits \<Longrightarrow> - (2 ^ (bits - 1)) \<le> strtol_10 bits arg \<and> strtol_10 bits arg < 2 ^ (bits - 1)"
proof -
  have "(- (2 ^ (bits - 1)) :: int) < 2 ^ (bits - 1)" by (meson neg_less_iff_less order.strict_trans zero_less_numeral zero_less_power neg_less_0_iff_less)
  then show ?thesis unfolding strtol_10_def Let_def by (auto simp: max_def min_def)
qed

text \<open>A decimal number is read back as it was printed.\<close>

lemma dec_digit_nibble: "d < 10 \<Longrightarrow> dec_digit (nibble_char d) = Some d"
  by (simp add: nibble_char_def dec_digit.simps)

lemma dec_value_append: "(\<And>c. c \<in> set s \<Longrightarrow> dec_digit c \<noteq> None) \<Longrightarrow> dec_value acc (s @ t) = dec_value (dec_value acc s) t"
  by (induction s arbitrary: acc) (auto split: option.splits, fastforce)

lemma decn_digits: "c \<in> set (decn n) \<Longrightarrow> dec_digit c \<noteq> None"
proof (induction n rule: decn.induct)
  case (1 n)
  then show ?case by (subst (asm) (2) decn.simps) (auto simp: dec_digit_nibble split: if_splits)
qed

lemma dec_value_decn: "dec_value 0 (decn n) = n"
proof (induction n rule: decn.induct)
  case (1 n)
  show ?case
  proof (cases "n < 10")
    case True
    then show ?thesis by (subst decn.simps) (simp add: dec_digit_nibble)
  next
    case False
    then have "dec_value 0 (decn n) = dec_value (dec_value 0 (decn (n div 10))) [nibble_char (n mod 10)]"
      by (subst decn.simps) (simp add: dec_value_append decn_digits)
    with 1 False show ?thesis by (simp add: dec_digit_nibble)
  qed
qed

lemma strtol_10_decn:
  assumes "n < 2 ^ (bits - 1)"
  shows "strtol_10 bits (decn n) = int n"
proof -
  obtain c cs where c: "decn n = c # cs" by (cases "decn n"; cases "n < 10") (auto simp: decn.simps [of n])
  have d: "dec_digit c \<noteq> None" using decn_digits [of c n] c by simp
  then have "\<not> is_space c" "of_char c \<notin> {43, 45 :: nat}" by (auto simp: is_space_def dec_digit.simps Let_def)
  moreover have "int n < 2 ^ (bits - 1)" using assms by (metis of_nat_less_iff of_nat_numeral of_nat_power)
  moreover have "- (2 ^ (bits - 1)) \<le> int n" by (meson neg_le_0_iff_le of_nat_0_le_iff order_trans zero_le_numeral zero_le_power)
  ultimately show ?thesis using c dec_value_decn [of n] by (simp add: strtol_10_def Let_def)
qed

section \<open>Any base\<close>

text \<open>The digits of a number in a base up to 16, and what is left behind them.\<close>

fun base_digits :: "nat \<Rightarrow> nat \<Rightarrow> string \<Rightarrow> nat \<times> string" where
  "base_digits base acc [] = (acc, [])"
| "base_digits base acc (c # cs) =
     (case hex_digit c of None \<Rightarrow> (acc, c # cs) | Some d \<Rightarrow> if d < base then base_digits base (base * acc + d) cs else (acc, c # cs))"

text \<open>
  \<^verbatim>\<open>strtoull(arg, &endptr, 0)\<close>: a prefix \<^verbatim>\<open>0x\<close> or \<^verbatim>\<open>0\<close> selects the base. The result is the value and the string at
  \<^verbatim>\<open>endptr\<close>, which is the whole argument when there is no digit.
\<close>

definition strtoull_0 :: "string \<Rightarrow> nat \<times> string" where
  "strtoull_0 arg =
     (let s = dropWhile is_space arg;
          neg = (case s of c # _ \<Rightarrow> of_char c = (45::nat) | [] \<Rightarrow> False);
          s' = (case s of c # r \<Rightarrow> if of_char c \<in> {43, 45 :: nat} then r else s | [] \<Rightarrow> []);
          base = (if strip_0x s' \<noteq> s' then 16 else case s' of c # _ \<Rightarrow> if of_char c = (48::nat) then 8 else 10 | [] \<Rightarrow> 10);
          (v, rest) = base_digits base 0 (strip_0x s')
      in if rest = strip_0x s' then (0, arg)
         else (if 2 ^ 64 \<le> v then 2 ^ 64 - 1 else if neg then (2 ^ 64 - v) mod 2 ^ 64 else v, rest))"

end
