(* ===== verification/PPC_Float.thy ===== *)
theory PPC_Float
  imports Risu_Prelude
begin

text \<open>
  The helpers of \<^verbatim>\<open>src/risu_reginfo_ppc64.c\<close> that look at the bits of an IEEE double: classification
  of a value, its exponent and its significand. The register contents are 64-bit words; the
  functions of the source are total except for the two normalisation loops, which are partial
  functions here and are shown to return on every argument they are called with.
\<close>

section \<open>Definitions\<close>

definition denormalized :: "u64 \<Rightarrow> bool" where
  "denormalized n = ((drop_bit 52 n AND 0x7ff) = 0 \<and> (n AND NOT (push_bit 63 1)) \<noteq> 0)"

definition zero :: "u64 \<Rightarrow> bool" where
  "zero n = ((n AND NOT (push_bit 63 1)) = 0)"

definition signz :: "u64 \<Rightarrow> u64" where
  "signz n = n AND push_bit 63 1"

definition signinf :: "u64 \<Rightarrow> u64" where
  "signinf n = (n AND push_bit 63 1) OR 0x7ff0000000000000"

definition negative :: "u64 \<Rightarrow> bool" where
  "negative n = (drop_bit 63 n \<noteq> 0)"

definition infinite_fp :: "u64 \<Rightarrow> bool" where
  "infinite_fp n = ((n AND NOT (push_bit 63 1)) = 0x7ff0000000000000)"

definition is_nan :: "u64 \<Rightarrow> bool" where
  "is_nan n = ((n AND NOT (push_bit 63 1)) > 0x7ff0000000000000)"

definition isqnan :: "u64 \<Rightarrow> bool" where
  "isqnan n = ((n AND NOT (push_bit 63 1)) = 0x7ff8000000000000)"

definition anyqnan :: "u64 \<Rightarrow> bool" where
  "anyqnan n = ((n AND NOT (push_bit 63 1)) \<ge> 0x7ff8000000000000)"

definition neganyqnan :: "u64 \<Rightarrow> bool" where
  "neganyqnan n = (n \<ge> 0xfff8000000000000)"

definition snan :: "u64 \<Rightarrow> bool" where
  "snan n = (is_nan n \<and> \<not> anyqnan n)"

definition qsnan :: "u64 \<Rightarrow> bool" where
  "qsnan n = ((n AND NOT (push_bit 63 1)) > 0x7ff8000000000000)"

text \<open>
  \<^verbatim>\<open>ABS\<close> works on \<^verbatim>\<open>int64_t\<close>. Its negation overflows for the least number, which is undefined, as is the
  one overflowing division of the comparison: both are faults of the model. (The sign bit itself,
  written \<^verbatim>\<open>1LL<<63\<close> throughout, has the value the compilers of the supported systems document for it.)
\<close>

definition ABS :: "u64 \<Rightarrow> fault + u64" where
  "ABS x = (if sint x < 0 then if x = push_bit 63 1 then Inl Signed_Overflow else Inr (- x) else Inr x)"

text \<open>The loop of \<^verbatim>\<open>exponent\<close> and of \<^verbatim>\<open>normalize\<close>: shift left until bit 52 is reached.\<close>

partial_function (option) shift_loop :: "u64 \<Rightarrow> int \<Rightarrow> (u64 \<times> int) option" where
  "shift_loop x exp =
     (if x < push_bit 52 1 then shift_loop (push_bit 1 x) (exp - 1) else Some (x, exp))"

definition exponent :: "u64 \<Rightarrow> int" where
  "exponent n =
     (if zero n then -4096
      else
        (let exp = uint (drop_bit 52 n AND 0x7ff)
         in if exp = 0x7ff then 4096
            else if exp = 0 then
              (case shift_loop (n AND (push_bit 52 1 - 1)) exp of
                 Some (x, exp') \<Rightarrow> exp' - 1023
               | None \<Rightarrow> 0 \<comment> \<open>never: the loop returns, see \<open>shift_loop_returns\<close>\<close>)
            else exp - 1023))"

definition mantissa :: "u64 \<Rightarrow> u64" where
  "mantissa n =
     (n AND (push_bit 52 1 - 1)) + (if (drop_bit 52 n AND 0x7ff) = 0 then push_bit 52 1 else 0)"

definition normalize :: "u64 \<Rightarrow> u64" where
  "normalize n =
     (if \<not> denormalized n then n
      else
        (case shift_loop (n AND (push_bit 52 1 - 1)) (1536 + 1) of
           Some (x, exp) \<Rightarrow>
             (n AND push_bit 63 1) OR push_bit 52 (word_of_int exp) OR (x AND (push_bit 52 1 - 1))
         | None \<Rightarrow> 0 \<comment> \<open>never, as above\<close>))"

text \<open>
  The source also compares the value itself with \<^verbatim>\<open>FLT_MIN\<close> and \<^verbatim>\<open>FLT_MAX\<close>. Magnitudes of doubles
  order as their bit patterns do, and a NaN compares false with everything.
\<close>

definition fabs_less_FLT_MIN :: "u64 \<Rightarrow> bool" where
  "fabs_less_FLT_MIN n = ((n AND NOT (push_bit 63 1)) < 0x3810000000000000)"

definition fabs_ge_FLT_MAX :: "u64 \<Rightarrow> bool" where
  "fabs_ge_FLT_MAX n = (\<not> is_nan n \<and> (n AND NOT (push_bit 63 1)) \<ge> 0x47efffffe0000000)"

section \<open>The fields of a double\<close>

text \<open>Sign, biased exponent and fraction as natural numbers.\<close>

definition f_exp :: "u64 \<Rightarrow> nat" where
  "f_exp n = unat n div 2 ^ 52 mod 2 ^ 11"

definition f_frac :: "u64 \<Rightarrow> nat" where
  "f_frac n = unat n mod 2 ^ 52"

lemma unat_exp_field: "unat (drop_bit 52 n AND 0x7ff :: u64) = f_exp n"
proof -
  have m: "(0x7ff :: u64) = mask 11" by (simp add: mask_eq_exp_minus_1)
  show ?thesis
    unfolding m f_exp_def
    by (simp add: take_bit_eq_mask [symmetric] unsigned_take_bit_eq unsigned_drop_bit_eq take_bit_eq_mod drop_bit_eq_div unat_mod_distrib unat_div_distrib)
qed

lemma uint_exp_field: "uint (drop_bit 52 n AND 0x7ff :: u64) = int (f_exp n)"
  by (simp only: uint_nat unat_exp_field)

lemma unat_frac_field: "unat (n AND (push_bit 52 1 - 1) :: u64) = f_frac n"
proof -
  have m: "(push_bit 52 1 - 1 :: u64) = mask 52" by (simp add: mask_eq_exp_minus_1)
  show ?thesis
    unfolding m f_frac_def
    by (simp add: take_bit_eq_mask [symmetric] unsigned_take_bit_eq take_bit_eq_mod unat_mod_distrib)
qed

lemma unat_magnitude: "unat (n AND NOT (push_bit 63 1) :: u64) = 2 ^ 52 * f_exp n + f_frac n"
proof -
  have m: "NOT (push_bit 63 1 :: u64) = mask 63" by (simp add: mask_eq_exp_minus_1)
  have "unat (n AND mask 63) = unat n mod 2 ^ 63"
    by (simp add: take_bit_eq_mask [symmetric] unsigned_take_bit_eq take_bit_eq_mod unat_mod_distrib)
  also have "\<dots> = 2 ^ 52 * (unat n div 2 ^ 52 mod 2 ^ 11) + unat n mod 2 ^ 52"
    using mod_mult2_eq [of "unat n" "2 ^ 52" "2 ^ 11"] by (simp add: power_add [symmetric])
  finally show ?thesis unfolding m f_exp_def f_frac_def .
qed

lemma f_exp_less: "f_exp n < 2048"
  by (simp add: f_exp_def)

lemma f_frac_less: "f_frac n < 2 ^ 52"
  by (simp add: f_frac_def)

lemma zero_iff: "zero n \<longleftrightarrow> f_exp n = 0 \<and> f_frac n = 0"
  unfolding zero_def unat_eq_0 [symmetric] unat_magnitude by simp

lemma denormalized_iff: "denormalized n \<longleftrightarrow> f_exp n = 0 \<and> f_frac n \<noteq> 0"
  unfolding denormalized_def unat_eq_0 [symmetric] unat_magnitude unat_exp_field by auto

lemma infinite_iff: "infinite_fp n \<longleftrightarrow> f_exp n = 2047 \<and> f_frac n = 0"
proof -
  have "infinite_fp n \<longleftrightarrow> 2 ^ 52 * f_exp n + f_frac n = 2047 * 2 ^ 52"
    unfolding infinite_fp_def word_unat_eq_iff unat_magnitude by simp
  also have "\<dots> \<longleftrightarrow> f_exp n = 2047 \<and> f_frac n = 0"
    using f_frac_less [of n] by (cases "f_exp n" "2047::nat" rule: linorder_cases) simp_all
  finally show ?thesis .
qed

lemma is_nan_iff: "is_nan n \<longleftrightarrow> f_exp n = 2047 \<and> f_frac n \<noteq> 0"
proof -
  have "is_nan n \<longleftrightarrow> 2047 * 2 ^ 52 < 2 ^ 52 * f_exp n + f_frac n"
    unfolding is_nan_def word_less_nat_alt unat_magnitude by simp
  then show ?thesis using f_frac_less [of n] f_exp_less [of n] by auto
qed

lemmas fp_class_iff = zero_iff denormalized_iff infinite_iff is_nan_iff

section \<open>The normalisation loop\<close>

declare shift_loop.simps [simp del]

lemma shift_loop_steps:
  assumes "2 ^ 52 \<le> unat x * 2 ^ k" and "unat x * 2 ^ k < 2 ^ 53"
  shows "shift_loop x e = Some (push_bit k x, e - int k)"
  using assms
proof (induction k arbitrary: x e)
  case 0
  then have "\<not> x < push_bit 52 1" by (simp add: word_less_nat_alt)
  then show ?case by (simp add: shift_loop.simps [of x])
next
  case (Suc k)
  have "unat x * 2 \<le> unat x * 2 ^ Suc k" by simp
  then have x: "2 * unat x < 2 ^ 53" using Suc.prems(2) by linarith
  have "x < push_bit 52 1" using x by (simp add: word_less_nat_alt)
  moreover have u: "unat (push_bit 1 x) = 2 * unat x"
    using x by (simp add: unat_mult_lem [THEN iffD1])
  moreover have "shift_loop (push_bit 1 x) (e - 1) = Some (push_bit k (push_bit 1 x), e - 1 - int k)"
    by (rule Suc.IH) (use Suc.prems u in \<open>simp_all add: mult.assoc mult.left_commute\<close>)
  ultimately show ?case
    by (simp add: shift_loop.simps [of x] push_bit_push_bit algebra_simps)
qed

text \<open>
  A nonzero fraction whose leading bit is bit \<open>j\<close> is shifted \<open>52 - j\<close> times. For a zero fraction
  the loop of the source does not end, but it is never entered with one.
\<close>

lemma shift_loop_returns:
  assumes "2 ^ j \<le> unat x" and "unat x < 2 ^ Suc j" and "j \<le> 52"
  shows "shift_loop x e = Some (push_bit (52 - j) x, e - int (52 - j))"
proof (rule shift_loop_steps)
  have p: "2 ^ j * 2 ^ (52 - j) = (2::nat) ^ 52" using assms(3) by (simp flip: power_add)
  show "2 ^ 52 \<le> unat x * 2 ^ (52 - j)"
    using mult_le_mono1 [OF assms(1), of "2 ^ (52 - j)"] p by simp
  have "unat x * 2 ^ (52 - j) < 2 ^ Suc j * 2 ^ (52 - j)"
    using assms(2) by (intro mult_strict_right_mono) simp_all
  also have "2 ^ Suc j * 2 ^ (52 - j) = (2::nat) ^ 53" using p by simp
  finally show "unat x * 2 ^ (52 - j) < 2 ^ 53" .
qed

lemma leading_bit:
  assumes "0 < (m::nat)" and "m < 2 ^ n"
  obtains j where "2 ^ j \<le> m" and "m < 2 ^ Suc j" and "j < n"
proof -
  obtain j where j: "2 ^ j \<le> m" "m < 2 ^ (j + 1)"
    using ex_power_ivl1 [of 2 m] assms by auto
  with assms have "(2::nat) ^ j < 2 ^ n" by linarith
  with j that show ?thesis by (simp add: power_strict_increasing_iff)
qed

lemma exponent_normal: "0 < f_exp n \<Longrightarrow> f_exp n < 2047 \<Longrightarrow> exponent n = int (f_exp n) - 1023"
  by (simp add: exponent_def zero_iff Let_def uint_exp_field)

lemma denormal_leading_bit:
  assumes "denormalized n"
  obtains j where "2 ^ j \<le> f_frac n" and "f_frac n < 2 ^ Suc j" and "j < 52"
  using leading_bit [of "f_frac n" 52] f_frac_less [of n] assms that by (auto simp: denormalized_iff)

lemma exponent_denormal:
  assumes "denormalized n" and "2 ^ j \<le> f_frac n" and "f_frac n < 2 ^ Suc j" and "j < 52"
  shows "exponent n = int j - 1075"
proof -
  have e: "f_exp n = 0" and "\<not> zero n" using assms(1) by (auto simp: fp_class_iff)
  moreover have "shift_loop (n AND (push_bit 52 1 - 1)) 0 = Some (push_bit (52 - j) (n AND (push_bit 52 1 - 1)), 0 - int (52 - j))"
    by (rule shift_loop_returns) (use assms(2-4) in \<open>simp_all only: unat_frac_field less_imp_le\<close>)
  ultimately show ?thesis
    using assms(4) unfolding exponent_def Let_def uint_exp_field by simp
qed

lemma exponent_cases:
  obtains "zero n" "exponent n = -4096"
  | "f_exp n = 2047" "exponent n = 4096"
  | "denormalized n" "-1075 \<le> exponent n" "exponent n \<le> -1024"
  | "0 < f_exp n" "f_exp n < 2047" "-1022 \<le> exponent n" "exponent n \<le> 1023"
proof -
  consider "zero n" | "f_exp n = 2047" | "denormalized n" | "0 < f_exp n" "f_exp n < 2047"
    using f_exp_less [of n] unfolding fp_class_iff by linarith
  then show ?thesis
  proof cases
    case 1
    then show ?thesis using that(1) by (simp add: exponent_def)
  next
    case 2
    then show ?thesis using that(2) by (simp add: exponent_def zero_iff Let_def uint_exp_field)
  next
    case 3
    then obtain j where "2 ^ j \<le> f_frac n" "f_frac n < 2 ^ Suc j" "j < 52"
      by (rule denormal_leading_bit)
    with 3 exponent_denormal [OF 3, of j] show ?thesis using that(3) by simp
  next
    case 4
    then show ?thesis using that(4) exponent_normal [of n] by simp
  qed
qed

lemma assembled_fields:
  fixes n E x :: u64
  assumes "unat E < 2048"
  defines "w \<equiv> (n AND push_bit 63 1) OR push_bit 52 E OR (x AND (push_bit 52 1 - 1))"
  shows "f_exp w = unat E" and "f_frac w = f_frac x" and "negative w = negative n"
proof -
  have E: "take_bit 11 E = E"
    using assms(1) by (simp add: word_unat_eq_iff unsigned_take_bit_eq take_bit_nat_eq_self_iff)
  have m: "(push_bit 52 1 - 1 :: u64) = mask 52" "(0x7ff :: u64) = mask 11" "(push_bit 63 1 :: u64) = NOT (mask 63)"
    by (simp_all add: mask_eq_exp_minus_1)
  have wm: "w = (n AND NOT (mask 63)) OR push_bit 52 (take_bit 11 E) OR (x AND mask 52)"
    unfolding w_def m E ..
  have "drop_bit 52 w AND 0x7ff = take_bit 11 E"
    unfolding wm m by (rule bit_word_eqI) (auto simp: bit_simps)
  then show "f_exp w = unat E" unfolding unat_exp_field [symmetric] E by simp
  have "w AND (push_bit 52 1 - 1) = x AND (push_bit 52 1 - 1)"
    unfolding wm m by (rule bit_word_eqI) (auto simp: bit_simps)
  then show "f_frac w = f_frac x" unfolding unat_frac_field [symmetric] by simp
  have "drop_bit 63 w = drop_bit 63 n"
    unfolding wm m by (rule bit_word_eqI) (auto simp: bit_simps dest: bit_imp_le_length)
  then show "negative w = negative n" by (simp add: negative_def)
qed

lemma normalize_denormal:
  assumes "denormalized n" and "2 ^ j \<le> f_frac n" and "f_frac n < 2 ^ Suc j" and "j < 52"
  shows "f_exp (normalize n) = 1485 + j" and "f_frac (normalize n) = f_frac n * 2 ^ (52 - j) mod 2 ^ 52"
    and "negative (normalize n) = negative n"
proof -
  let ?f = "n AND (push_bit 52 1 - 1) :: u64"
  let ?E = "word_of_int (1537 - int (52 - j)) :: u64"
  have E: "unat ?E = 1485 + j"
  proof -
    have "1537 - int (52 - j) = int (1485 + j)" using assms(4) by simp
    then have "?E = of_nat (1485 + j)" by (simp only: of_int_of_nat_eq)
    then show ?thesis using assms(4) by (simp only: unat_of_nat) simp
  qed
  have "shift_loop ?f (1536 + 1) = Some (push_bit (52 - j) ?f, (1536 + 1) - int (52 - j))"
    by (rule shift_loop_returns) (use assms(2-4) in \<open>simp_all only: unat_frac_field less_imp_le\<close>)
  then have N: "normalize n = (n AND push_bit 63 1) OR push_bit 52 ?E OR (push_bit (52 - j) ?f AND (push_bit 52 1 - 1))"
    using assms(1) unfolding normalize_def by simp
  note A = assembled_fields [of ?E n "push_bit (52 - j) ?f", folded N]
  show "f_exp (normalize n) = 1485 + j" and "negative (normalize n) = negative n"
    using A(1,3) E assms(4) by simp_all
  have "f_frac n * 2 ^ (52 - j) < 2 ^ Suc j * 2 ^ (52 - j)"
    using assms(3) by (intro mult_strict_right_mono) simp_all
  also have "\<dots> = (2::nat) ^ 53" using assms(4) by (simp flip: power_add power_Suc)
  finally have "f_frac n * 2 ^ (52 - j) < 2 ^ 64" by simp
  then have "unat (push_bit (52 - j) ?f) = f_frac n * 2 ^ (52 - j)"
    unfolding unsigned_push_bit_eq unat_frac_field by (simp add: push_bit_eq_mult take_bit_eq_mod)
  then show "f_frac (normalize n) = f_frac n * 2 ^ (52 - j) mod 2 ^ 52"
    using A(2) E assms(4) by (simp add: f_frac_def)
qed

section \<open>Where an absolute value is defined\<close>

lemma ABS_Inl: "ABS x = Inl e \<longleftrightarrow> e = Signed_Overflow \<and> x = push_bit 63 1"
  by (auto simp: ABS_def)

lemma exponent_bounds: "- 4096 \<le> exponent n" "exponent n \<le> 4096"
  by (rule exponent_cases [of n]; simp)+

text \<open>Exponents, significands and numbers of the same sign are never that far apart.\<close>

lemma exponents_apart: "word_of_int (exponent x - exponent y - 192) \<noteq> (push_bit 63 1 :: u64)"
proof
  let ?d = "exponent x - exponent y - 192"
  assume "word_of_int ?d = (push_bit 63 1 :: u64)"
  then have "sint (word_of_int ?d :: u64) = - (2 ^ 63)" by simp
  moreover have "sint (word_of_int ?d :: u64) = ?d"
    using exponent_bounds [of x] exponent_bounds [of y] by (simp only: signed_of_int) (simp add: signed_take_bit_int_eq_self)
  ultimately show False using exponent_bounds [of x] exponent_bounds [of y] by simp
qed

lemma negative_iff: "negative n \<longleftrightarrow> bit n 63"
proof -
  have "bit (drop_bit 63 n) k \<longleftrightarrow> k = 0 \<and> bit n 63" for k
    using bit_imp_le_length [of n "63 + k"] by (cases k) (auto simp: bit_drop_bit_eq)
  then show ?thesis unfolding negative_def by (metis bit_0_eq bot_apply bot_bool_def bit_eqI)
qed

lemma and_push_bit_1: "\<not> bit (x :: 'a::len word) k \<Longrightarrow> x AND push_bit k 1 = 0"
  by (intro bit_word_eqI) (auto simp: bit_simps)

lemma flip_bit: "k < LENGTH('a) \<Longrightarrow> bit ((x :: 'a::len word) XOR push_bit k 1) k \<longleftrightarrow> \<not> bit x k"
  by (auto simp: bit_simps)

lemma flip_minus: "((x :: u64) XOR push_bit 63 1) - x = push_bit 63 1"
proof (cases "bit x 63")
  case False
  then have "x AND push_bit 63 1 = 0" by (rule and_push_bit_1)
  then have "x XOR push_bit 63 1 = x + push_bit 63 1" by (simp only: disjunctive_add_eq_xor)
  then show ?thesis by simp
next
  case True
  let ?y = "x XOR push_bit 63 1"
  have "?y AND push_bit 63 1 = 0"
    using True by (intro and_push_bit_1, subst flip_bit) simp_all
  then have "?y + push_bit 63 1 = ?y XOR push_bit 63 1" by (simp only: disjunctive_add_eq_xor)
  also have "\<dots> = x" by (simp add: xor.assoc)
  finally have "?y - x = - push_bit 63 1" by (simp add: algebra_simps)
  then show ?thesis by simp
qed

lemma minus_sign_bit: "(x :: u64) - y = push_bit 63 1 \<longleftrightarrow> x = y XOR push_bit 63 1"
  by (metis flip_minus diff_eq_eq)

lemma same_sign_apart: "negative x = negative y \<Longrightarrow> x - y \<noteq> push_bit 63 1"
  unfolding minus_sign_bit negative_iff using flip_bit [of 63 y] by auto

lemma normalize_negative: "denormalized n \<Longrightarrow> negative (normalize n) = negative n"
  by (rule denormal_leading_bit) (use normalize_denormal(3) in auto)

section \<open>Properties\<close>

text \<open>
  C31: Every double belongs to exactly one of the classes the comparison rules distinguish: zero,
  denormalized, infinite, not a number, or normal (a biased exponent strictly between 0 and 2047);
  and \<^verbatim>\<open>exponent\<close> tells them apart, with -4096 just for zero and 4096 just for infinities and NaNs.
\<close>

theorem fp_classification:
  "(if zero n then 1 else 0) + (if denormalized n then 1 else 0) + (if infinite_fp n then 1 else 0)
     + (if is_nan n then 1 else 0) + (if 0 < f_exp n \<and> f_exp n < 2047 then 1 else 0) = (1::nat) \<and>
   (exponent n = -4096 \<longleftrightarrow> zero n) \<and> (exponent n = 4096 \<longleftrightarrow> infinite_fp n \<or> is_nan n) \<and>
   (denormalized n \<longleftrightarrow> -1075 \<le> exponent n \<and> exponent n \<le> -1024)"
proof -
  have "(if zero n then 1 else 0) + (if denormalized n then 1 else 0) + (if infinite_fp n then 1 else 0)
     + (if is_nan n then 1 else 0) + (if 0 < f_exp n \<and> f_exp n < 2047 then 1 else 0) = (1::nat)"
    using f_exp_less [of n] by (auto simp: fp_class_iff)
  then show ?thesis
    by (cases rule: exponent_cases [of n]) (auto simp: fp_class_iff)
qed

text \<open>
  \<^verbatim>\<open>mantissa\<close> sets the implicit bit for the numbers that do not have it: it adds 2 to the power 52 to
  the fraction of zeros and denormalized numbers, and returns the bare fraction of a normal one.
\<close>

lemma mantissa_hidden_bit:
  "unat (mantissa n) = (if zero n \<or> denormalized n then 2 ^ 52 + f_frac n else f_frac n)"
proof (cases "f_exp n = 0")
  case True
  then have "(drop_bit 52 n AND 0x7ff) = 0" by (simp only: unat_exp_field flip: unat_eq_0)
  then have "unat (mantissa n) = unat ((n AND (push_bit 52 1 - 1)) + push_bit 52 1)"
    by (simp add: mantissa_def)
  also have "\<dots> = f_frac n + 2 ^ 52"
    using f_frac_less [of n] by (subst unat_plus_if') (simp add: unat_frac_field [simplified])
  finally show ?thesis using True by (auto simp: fp_class_iff)
next
  case False
  then have "(drop_bit 52 n AND 0x7ff) \<noteq> 0" by (simp only: unat_exp_field flip: unat_eq_0) simp
  then show ?thesis using False by (simp add: mantissa_def fp_class_iff unat_frac_field [simplified])
qed

lemma significands_apart: "mantissa x - mantissa y \<noteq> push_bit 63 1"
proof (rule same_sign_apart)
  have "\<not> negative (mantissa n)" for n
  proof -
    have "unat (mantissa n) < 2 ^ 63" using mantissa_hidden_bit [of n] f_frac_less [of n] by auto
    then have "unat (drop_bit 63 (mantissa n)) = 0" unfolding unat_drop_bit_eq by (simp add: drop_bit_eq_div)
    then show ?thesis by (simp only: unat_eq_0 negative_def simp_thms)
  qed
  then show "negative (mantissa x) = negative (mantissa y)" by simp
qed

text \<open>The significand of a normalized number is the fraction, shifted until its leading bit is the implicit one.\<close>

lemma normalize_significand:
  assumes "denormalized n" and "2 ^ j \<le> f_frac n" and "f_frac n < 2 ^ Suc j" and "j < 52"
  shows "2 ^ 52 + f_frac (normalize n) = f_frac n * 2 ^ (52 - j)"
proof -
  have "2 ^ j * 2 ^ (52 - j) \<le> f_frac n * 2 ^ (52 - j)" "f_frac n * 2 ^ (52 - j) < 2 ^ Suc j * 2 ^ (52 - j)"
    using assms(2,3) by (intro mult_le_mono1 mult_less_mono1; simp)+
  moreover have "2 ^ j * 2 ^ (52 - j) = (2 :: nat) ^ 52" "2 ^ Suc j * 2 ^ (52 - j) = (2 :: nat) ^ 53"
    using assms(4) by (simp_all flip: power_add power_Suc)
  ultimately have "2 ^ 52 \<le> f_frac n * 2 ^ (52 - j)" "f_frac n * 2 ^ (52 - j) < 2 ^ 53" by (simp_all only:)
  then show ?thesis using normalize_denormal(2) [OF assms] le_mod_geq [of "2 ^ 52" "f_frac n * 2 ^ (52 - j)"] by simp
qed

text \<open>
  C32: Denormalized doubles. The shift loops of \<^verbatim>\<open>exponent\<close> and \<^verbatim>\<open>normalize\<close> end for every denormalized argument, after \<open>52 - j\<close> steps when
  bit \<open>j\<close> is the leading one of the fraction, and \<^verbatim>\<open>exponent\<close> is then \<open>j - 1075\<close>, one below the true exponent. \<^verbatim>\<open>normalize\<close>
  delivers the normal number an underflow exception would: the sign is kept, the significand with its implicit bit is the
  fraction shifted by as many places, and the exponent is in range and lies 1536 above the true one. \<^verbatim>\<open>mantissa\<close> adds the
  implicit bit, which such a number does not have.
\<close>

theorem denormal_arithmetic:
  assumes "denormalized n"
  shows "(\<exists>j < 52. 2 ^ j \<le> f_frac n \<and> f_frac n < 2 ^ Suc j \<and>
      shift_loop (n AND (push_bit 52 1 - 1)) 0 = Some (push_bit (52 - j) (n AND (push_bit 52 1 - 1)), - int (52 - j)) \<and>
      exponent n = (int j - 1074) - 1 \<and> 2 ^ 52 + f_frac (normalize n) = f_frac n * 2 ^ (52 - j)) \<and>
    negative (normalize n) = negative n \<and> 0 < f_exp (normalize n) \<and> f_exp (normalize n) < 2047 \<and>
    exponent (normalize n) = exponent n + 1 + 1536 \<and> unat (mantissa n) = 2 ^ 52 + f_frac n"
proof -
  obtain j where j: "2 ^ j \<le> f_frac n" "f_frac n < 2 ^ Suc j" "j < 52"
    using assms by (rule denormal_leading_bit)
  have "shift_loop (n AND (push_bit 52 1 - 1)) 0 = Some (push_bit (52 - j) (n AND (push_bit 52 1 - 1)), 0 - int (52 - j))"
    by (rule shift_loop_returns) (use j in \<open>simp_all only: unat_frac_field less_imp_le\<close>)
  with j exponent_denormal [OF assms j] normalize_significand [OF assms j] have "\<exists>j < 52. 2 ^ j \<le> f_frac n \<and> f_frac n < 2 ^ Suc j \<and>
      shift_loop (n AND (push_bit 52 1 - 1)) 0 = Some (push_bit (52 - j) (n AND (push_bit 52 1 - 1)), - int (52 - j)) \<and>
      exponent n = (int j - 1074) - 1 \<and> 2 ^ 52 + f_frac (normalize n) = f_frac n * 2 ^ (52 - j)"
    by auto
  moreover note N = normalize_denormal [OF assms j]
  then have "negative (normalize n) = negative n \<and> 0 < f_exp (normalize n) \<and> f_exp (normalize n) < 2047 \<and>
      exponent (normalize n) = exponent n + 1 + 1536"
    using j exponent_normal [of "normalize n"] exponent_denormal [OF assms j] by simp
  moreover have "unat (mantissa n) = 2 ^ 52 + f_frac n" using assms mantissa_hidden_bit [of n] by simp
  ultimately show ?thesis by blast
qed

theorem denormal_arithmetic_witness:
  "exponent 0x0008000000000000 = -1024 \<and> exponent (normalize 0x0008000000000000) = 513"
proof -
  have d: "denormalized 0x0008000000000000" by (simp add: denormalized_def)
  obtain j where "j < 52" "2 ^ j \<le> f_frac 0x0008000000000000" "f_frac 0x0008000000000000 < 2 ^ Suc j"
    "exponent 0x0008000000000000 = (int j - 1074) - 1"
    "exponent (normalize 0x0008000000000000) = exponent 0x0008000000000000 + 1 + 1536"
    using denormal_arithmetic [OF d] by blast
  moreover from this have "(2::nat) ^ j < 2 ^ 52" "(2::nat) ^ 51 < 2 ^ Suc j" by (simp_all add: f_frac_def)
  then have "51 < Suc j" by (simp only: power_strict_increasing_iff)
  ultimately show ?thesis by simp
qed

end
