(* ===== verification/PPC_Reginfo.thy ===== *)
theory PPC_Reginfo
  imports Risu_Types C_Strtol PPC_Float
begin

text \<open>
  The PowerPC back end (\<^verbatim>\<open>src/risu_ppc64.c\<close>, \<^verbatim>\<open>src/risu_reginfo_ppc64.h\<close> and the state-keeping part of
  \<^verbatim>\<open>src/risu_reginfo_ppc64.c\<close>): the register image that is compared and sent, the machine context it is
  taken from and written back to, and the options that steer the comparison. The build modelled is
  the 32-bit one (\<^verbatim>\<open>reg_t\<close> is \<^verbatim>\<open>uint32_t\<close>) without \<^verbatim>\<open>VRREGS\<close> and \<^verbatim>\<open>SAVESTACK\<close>, for DingusPPC, Mac OS 9 and
  Mac OS X. The remaining branch of the preprocessor conditions is for Linux; it does not compile, because the
  indices \<^verbatim>\<open>MSR\<close>, \<^verbatim>\<open>CTR\<close>, \<^verbatim>\<open>CR\<close> and so on that it uses are not declared (the header has them with the prefix \<^verbatim>\<open>risu_\<close>).
\<close>

section \<open>Platforms, options, state\<close>

datatype platform = RISU_DPPC | RISU_MACOS9 | APPLE

text \<open>
  What is fixed during a run: the platform, the byte order of the host, where the image was loaded
  and how long it is. \<open>mapped\<close> stands for the DingusPPC memory controller, which is not part of this
  repository: it tells for which addresses \<^verbatim>\<open>find_range\<close> finds an entry.
\<close>

record ppc_env =
  platform :: platform
  host_big_endian :: bool
  image_start_address :: u32
  image_size :: nat
  mapped :: "u32 \<Rightarrow> bool"

record ppc_opts =
  gregs_mask :: u32
  ccr_mask :: u32
  xer_mask :: u32
  mq_mask :: u32
  fpscr_mask :: u32
  fpregs_mask :: u32
  vrregs_mask :: u32
  fp_opts :: u32
  cpu_opts :: u32

definition default_opts :: "platform \<Rightarrow> ppc_opts" where
  "default_opts p =
     \<lparr>gregs_mask =
        (if p \<noteq> RISU_DPPC \<and> p \<noteq> APPLE then NOT (push_bit (31 - 1) 1 OR push_bit (31 - 13) 1)
         else NOT (push_bit (31 - 1) 1)),
      ccr_mask = 0xFFFFFFFF, xer_mask = 0xFFFFFFFF, mq_mask = 0xFFFFFFFF, fpscr_mask = 0xFFFFFFFF,
      fpregs_mask = 0xFFFFFFFF, vrregs_mask = 0xFFFFFFFF, fp_opts = 0, cpu_opts = 0\<rparr>"

text \<open>Bits of \<^verbatim>\<open>fp_opts\<close> and \<^verbatim>\<open>cpu_opts\<close>.\<close>

definition fp_opt_ignore_QNaN_signs :: u32 where "fp_opt_ignore_QNaN_signs = 0x00000001"
definition fp_opt_ignore_QNaN_values :: u32 where "fp_opt_ignore_QNaN_values = 0x00000002"
definition fp_opt_ignore_QNaN_diffs :: u32 where "fp_opt_ignore_QNaN_diffs = 0x00000004"
definition fp_opt_ignore_QNaN_load_float :: u32 where "fp_opt_ignore_QNaN_load_float = 0x00000008"
definition fp_opt_ignore_NaN_operand :: u32 where "fp_opt_ignore_NaN_operand = 0x00000010"
definition fp_opt_ignore_opposite_inf_operands :: u32 where "fp_opt_ignore_opposite_inf_operands = 0x00000020"
definition fp_opt_ignore_inf_x_0_operands :: u32 where "fp_opt_ignore_inf_x_0_operands = 0x00000040"
definition fp_opt_ignore_div_zero :: u32 where "fp_opt_ignore_div_zero = 0x00000080"
definition fp_opt_ignore_underflow :: u32 where "fp_opt_ignore_underflow = 0x00000100"
definition fp_opt_ignore_overflow :: u32 where "fp_opt_ignore_overflow = 0x00000200"
definition fp_opt_ignore_round :: u32 where "fp_opt_ignore_round = 0x00000400"
definition fp_opt_ignore_round_s :: u32 where "fp_opt_ignore_round_s = 0x00000800"
definition fp_opt_ignore_rsqrt_negative :: u32 where "fp_opt_ignore_rsqrt_negative = 0x00001000"
definition fp_opt_ignore_rsqrt_negative_zero :: u32 where "fp_opt_ignore_rsqrt_negative_zero = 0x00002000"
definition fp_opt_ignore_rsqrt_zero :: u32 where "fp_opt_ignore_rsqrt_zero = 0x00004000"
definition fp_opt_ignore_qnan_from_inf :: u32 where "fp_opt_ignore_qnan_from_inf = 0x00008000"
definition fp_opt_ignore_qnan_from_unknown :: u32 where "fp_opt_ignore_qnan_from_unknown = 0x00010000"
definition fp_opt_ignore_inf_from_unknown :: u32 where "fp_opt_ignore_inf_from_unknown = 0x00020000"
definition fp_opt_ignore_zero_signs :: u32 where "fp_opt_ignore_zero_signs = 0x00040000"
definition fp_opt_ignore_inf_div_inf :: u32 where "fp_opt_ignore_inf_div_inf = 0x00080000"
definition fp_opt_ignore_QNaN_SNaN :: u32 where "fp_opt_ignore_QNaN_SNaN = 0x00100000"
definition fp_opt_ignore_NaN_unknown_operands :: u32 where "fp_opt_ignore_NaN_unknown_operands = 0x00200000"
definition cpu_opt_include_601 :: u32 where "cpu_opt_include_601 = 0x00000001"
definition cpu_opt_use_601 :: u32 where "cpu_opt_use_601 = 0x00000002"

text \<open>Indices into the general register array beyond the 32 numbered registers.\<close>

definition risu_NIP :: nat where "risu_NIP = 32"
definition risu_MSR :: nat where "risu_MSR = 33"
definition risu_CTR :: nat where "risu_CTR = 34"
definition risu_LNK :: nat where "risu_LNK = 35"
definition risu_XER :: nat where "risu_XER = 36"
definition risu_CCR :: nat where "risu_CCR = 37"
definition risu_MQ :: nat where "risu_MQ = 38"
definition risu_DAR :: nat where "risu_DAR = 39"
definition risu_DSISR :: nat where "risu_DSISR = 40"
definition risu_NGREG :: nat where "risu_NGREG = 41"

lemmas risu_reg_index = risu_NIP_def risu_MSR_def risu_CTR_def risu_LNK_def risu_XER_def risu_CCR_def
  risu_MQ_def risu_DAR_def risu_DSISR_def risu_NGREG_def

record reginfo =
  second_prev_insn :: u32
  prev_insn :: u32
  faulting_insn :: u32
  next_insn :: u32
  nip :: u32
  gregs :: "u32 list"
  fpregs :: "u64 list"
  fpscr :: u32

text \<open>The interrupted context: \<^verbatim>\<open>ucontext_t\<close>, \<^verbatim>\<open>ExceptionInformation\<close> or \<^verbatim>\<open>ppc_state\<close>, and memory.\<close>

record ppc_ctx =
  uc_gpr :: "u32 list"
  uc_pc :: u32
  uc_msr :: u32
  uc_ctr :: u32
  uc_lnk :: u32
  uc_xer :: u32
  uc_ccr :: u32
  uc_mq :: u32
  uc_dar :: u32
  uc_dsisr :: u32
  uc_fpr :: "u64 list"
  uc_fpscr :: u32
  uc_mem :: "u32 \<Rightarrow> byte"

definition wf_reginfo :: "reginfo \<Rightarrow> bool" where
  "wf_reginfo ri = (length (gregs ri) = risu_NGREG \<and> length (fpregs ri) = 32)"

definition wf_ctx :: "ppc_ctx \<Rightarrow> bool" where
  "wf_ctx uc = (length (uc_gpr uc) = 32 \<and> length (uc_fpr uc) = 32)"

section \<open>Context access\<close>

definition advance_pc :: "ppc_env \<Rightarrow> ppc_ctx \<Rightarrow> ppc_ctx" where
  "advance_pc env uc =
     (case platform env of
        RISU_DPPC \<Rightarrow> uc
      | RISU_MACOS9 \<Rightarrow> uc\<lparr>uc_pc := uc_pc uc + 4\<rparr>
      | APPLE \<Rightarrow> uc\<lparr>uc_pc := uc_pc uc + 4\<rparr>)"

definition get_uc_pc :: "ppc_ctx \<Rightarrow> u32 \<Rightarrow> arch_ptr" where
  "get_uc_pc uc siaddr = uc_pc uc"

definition set_ucontext_paramreg :: "ppc_ctx \<Rightarrow> arch_ptr \<Rightarrow> ppc_ctx" where
  "set_ucontext_paramreg uc val = uc\<lparr>uc_gpr := (uc_gpr uc)[0 := val]\<rparr>"

definition get_reginfo_paramreg :: "reginfo \<Rightarrow> arch_ptr" where
  "get_reginfo_paramreg ri = gregs ri ! 0"

definition get_risuop :: "reginfo \<Rightarrow> RisuOp" where
  "get_risuop ri =
     (let insn = faulting_insn ri;
          op = insn AND 0xf;
          key = insn AND NOT 0xf;
          risukey = 0x00005af0
      in if key \<noteq> risukey then OP_SIGILL else op_of_int (uint op))"

definition get_pc :: "ppc_env \<Rightarrow> ppc_ctx \<Rightarrow> reginfo \<Rightarrow> arch_ptr" where
  "get_pc env uc ri = (if platform env = RISU_DPPC then uc_pc uc else nip ri)"

definition get_arch_big_endian :: "ppc_env \<Rightarrow> bool" where
  "get_arch_big_endian env = (platform env = RISU_DPPC \<or> host_big_endian env)"

definition arch_to_host_32 :: "ppc_env \<Rightarrow> u32 \<Rightarrow> u32" where
  "arch_to_host_32 env val =
     (if (platform env = RISU_DPPC \<or> host_big_endian env) = host_big_endian env then val
      else BYTESWAP_32 val)"

definition get_arch_start_address :: "ppc_env \<Rightarrow> arch_ptr" where
  "get_arch_start_address env =
     (if platform env = RISU_DPPC then 0xf0000000 else image_start_address env)"

text \<open>A pointer into emulated or real memory is named by the address it gives access to.\<close>

definition get_arch_memory :: "ppc_env \<Rightarrow> arch_ptr \<Rightarrow> u32 option" where
  "get_arch_memory env a =
     (if platform env = RISU_DPPC then (if mapped env a then Some a else None) else Some a)"

definition read_mem :: "ppc_ctx \<Rightarrow> u32 \<Rightarrow> nat \<Rightarrow> byte list" where
  "read_mem uc a n = map (\<lambda>i. uc_mem uc (a + of_nat i)) [0..<n]"

section \<open>Taking and restoring a register image\<close>

definition reginfo_size :: "reginfo \<Rightarrow> int" where
  "reginfo_size ri = 444"

definition insn_in_image :: "ppc_env \<Rightarrow> u32 \<Rightarrow> bool" where
  "insn_in_image env a =
     (get_arch_start_address env \<le> a \<and> a < get_arch_start_address env + of_nat (image_size env))"

definition fetch_insn :: "ppc_env \<Rightarrow> ppc_ctx \<Rightarrow> u32 \<Rightarrow> u32" where
  "fetch_insn env uc a =
     arch_to_host_32 env
       (if insn_in_image env a then of_mem_bytes (host_big_endian env) (read_mem uc a 4) else 0)"

definition reginfo_init :: "ppc_env \<Rightarrow> ppc_ctx \<Rightarrow> u32 \<Rightarrow> fault + reginfo" where
  "reginfo_init env uc siaddr =
     (let pc = get_uc_pc uc siaddr;
          pc_ptr = get_arch_memory env pc
      in if pc_ptr = None \<and>
            (insn_in_image env (pc - 8) \<or> insn_in_image env (pc - 4) \<or> insn_in_image env pc \<or>
             insn_in_image env (pc + 4))
         then Inl Out_Of_Bounds
         else
           Inr \<lparr>second_prev_insn = fetch_insn env uc (pc - 8),
                prev_insn = fetch_insn env uc (pc - 4),
                faulting_insn = fetch_insn env uc (pc + 0),
                next_insn = fetch_insn env uc (pc + 4),
                nip = pc - get_arch_start_address env,
                gregs = map (\<lambda>i. uc_gpr uc ! i) [0..<32] @
                  [pc, uc_msr uc, uc_ctr uc, uc_lnk uc, uc_xer uc, uc_ccr uc, uc_mq uc, uc_dar uc, uc_dsisr uc],
                fpregs = take 32 (uc_fpr uc),
                fpscr = uc_fpscr uc\<rparr>)"

definition masked_out :: "u32 \<Rightarrow> nat \<Rightarrow> bool" where
  "masked_out msk i = ((push_bit (31 - i) 1 AND NOT msk) \<noteq> 0)"

fun update_gprs :: "u32 \<Rightarrow> u32 list \<Rightarrow> nat list \<Rightarrow> u32 list \<Rightarrow> u32 list" where
  "update_gprs msk src [] dst = dst"
| "update_gprs msk src (i # is) dst =
     update_gprs msk src is (if masked_out msk i then dst else dst[i := src ! i])"

definition reginfo_update :: "ppc_opts \<Rightarrow> reginfo \<Rightarrow> ppc_ctx \<Rightarrow> ppc_ctx" where
  "reginfo_update opts ri uc =
     uc\<lparr>uc_ccr := gregs ri ! risu_CCR,
        uc_xer := gregs ri ! risu_XER,
        uc_mq := gregs ri ! risu_MQ,
        uc_gpr := update_gprs (gregs_mask opts) (gregs ri) [0..<32] (uc_gpr uc),
        uc_fpr := fpregs ri,
        uc_fpscr := fpscr ri\<rparr>"

section \<open>The bytes of a register image\<close>

definition reginfo_bytes :: "bool \<Rightarrow> reginfo \<Rightarrow> byte list" where
  "reginfo_bytes big ri =
     enc_words big 4 [second_prev_insn ri, prev_insn ri, faulting_insn ri, next_insn ri, nip ri] @
     enc_words big 4 (gregs ri) @ enc_words big 8 (fpregs ri) @ mem_bytes big 4 (fpscr ri)"

definition reginfo_of_bytes :: "bool \<Rightarrow> byte list \<Rightarrow> reginfo" where
  "reginfo_of_bytes big bs =
     (let ws = dec_words big 4 5 bs
      in \<lparr>second_prev_insn = ws ! 0, prev_insn = ws ! 1, faulting_insn = ws ! 2, next_insn = ws ! 3,
          nip = ws ! 4,
          gregs = dec_words big 4 41 (drop 20 bs),
          fpregs = dec_words big 8 32 (drop 184 bs),
          fpscr = of_mem_bytes big (take 4 (drop 440 bs))\<rparr>)"

definition reginfo_swap :: "reginfo \<Rightarrow> reginfo" where
  "reginfo_swap ri =
     ri\<lparr>second_prev_insn := BYTESWAP_32 (second_prev_insn ri),
        prev_insn := BYTESWAP_32 (prev_insn ri),
        faulting_insn := BYTESWAP_32 (faulting_insn ri),
        next_insn := BYTESWAP_32 (next_insn ri),
        nip := BYTESWAP_32 (nip ri),
        gregs := map BYTESWAP_32 (gregs ri),
        fpregs := map BYTESWAP_64 (fpregs ri),
        fpscr := BYTESWAP_32 (fpscr ri)\<rparr>"

definition reginfo_host_to_arch :: "ppc_env \<Rightarrow> reginfo \<Rightarrow> reginfo" where
  "reginfo_host_to_arch env ri = (if platform env = RISU_DPPC then reginfo_swap ri else ri)"

definition reginfo_arch_to_host :: "ppc_env \<Rightarrow> reginfo \<Rightarrow> reginfo" where
  "reginfo_arch_to_host env ri = (if platform env = RISU_DPPC then reginfo_swap ri else ri)"

section \<open>Option parsing\<close>

text \<open>The option table: names and the codes \<^verbatim>\<open>getopt_long\<close> returns for them.\<close>

definition extra_opts :: "(string \<times> int) list" where
  "extra_opts =
     [(''ccr_mask'', FIRST_ARCH_OPT + 0), (''fpscr_mask'', FIRST_ARCH_OPT + 1),
      (''fpregs_mask'', FIRST_ARCH_OPT + 2), (''vrregs_mask'', FIRST_ARCH_OPT + 3),
      (''fp_opts'', FIRST_ARCH_OPT + 4), (''gregs_mask'', FIRST_ARCH_OPT + 5),
      (''xer_mask'', FIRST_ARCH_OPT + 6), (''mq_mask'', FIRST_ARCH_OPT + 7),
      (''cpu_opts'', FIRST_ARCH_OPT + 8)]"

definition process_arch_opt :: "nat \<Rightarrow> int \<Rightarrow> string \<Rightarrow> ppc_opts \<Rightarrow> fault + ppc_opts" where
  "process_arch_opt bits opt arg opts =
     (if \<not> (FIRST_ARCH_OPT \<le> opt \<and> opt \<le> FIRST_ARCH_OPT + 8) then Inl Abort
      else
        (let val = (of_nat (strtoul_16 bits arg) :: u32); k = opt - FIRST_ARCH_OPT
         in Inr (if k = 0 then opts\<lparr>ccr_mask := val\<rparr>
                 else if k = 1 then opts\<lparr>fpscr_mask := val\<rparr>
                 else if k = 2 then opts\<lparr>fpregs_mask := val\<rparr>
                 else if k = 3 then opts\<lparr>vrregs_mask := val\<rparr>
                 else if k = 4 then opts\<lparr>fp_opts := val\<rparr>
                 else if k = 5 then opts\<lparr>gregs_mask := val\<rparr>
                 else if k = 6 then opts\<lparr>xer_mask := val\<rparr>
                 else if k = 7 then opts\<lparr>mq_mask := val\<rparr>
                 else if k = 8 then opts\<lparr>cpu_opts := val\<rparr>
                 else opts)))"

section \<open>Masks and register copies\<close>

lemma masked_out_iff: "i < 32 \<Longrightarrow> masked_out msk i \<longleftrightarrow> \<not> bit msk (31 - i)"
proof -
  assume "i < 32"
  have "push_bit (31 - i) 1 AND NOT msk = (if bit msk (31 - i) then 0 else push_bit (31 - i) (1::u32))"
    using \<open>i < 32\<close> by (intro bit_word_eqI) (auto simp: bit_simps)
  moreover have "push_bit (31 - i) (1::u32) \<noteq> 0"
  proof
    assume "push_bit (31 - i) (1::u32) = 0"
    then have "\<not> bit (push_bit (31 - i) (1::u32)) (31 - i)" by (simp only: bit_0_eq) simp
    with \<open>i < 32\<close> show False by (simp add: bit_simps)
  qed
  ultimately show ?thesis by (simp add: masked_out_def)
qed

lemma masked_out_all [simp]: "i < 32 \<Longrightarrow> \<not> masked_out 0xFFFFFFFF i"
proof -
  assume "i < 32"
  moreover have "(0xFFFFFFFF::u32) = -1" by simp
  ultimately show ?thesis by (simp only: masked_out_iff bit_minus_1_iff) simp
qed

lemma length_update_gprs [simp]: "length (update_gprs msk src is dst) = length dst"
  by (induction msk src "is" dst rule: update_gprs.induct) simp_all

lemma nth_update_gprs:
  "i < length dst \<Longrightarrow> update_gprs msk src is dst ! i =
     (if i \<in> set is \<and> \<not> masked_out msk i then src ! i else dst ! i)"
proof (induction "is" arbitrary: dst)
  case Nil
  show ?case by simp
next
  case (Cons j js)
  then show ?case by (cases "j = i") (auto simp: nth_list_update)
qed

lemma update_gprs_same:
  assumes "length dst = 32" and "\<And>i. i < 32 \<Longrightarrow> src ! i = dst ! i"
  shows "update_gprs msk src [0..<32] dst = dst"
  by (rule nth_equalityI) (use assms in \<open>simp_all add: nth_update_gprs\<close>)

section \<open>Taking an image and putting it back\<close>

lemma reginfo_init_cases:
  assumes "reginfo_init env uc siaddr = Inr ri" and "wf_ctx uc"
  shows "gregs ri = uc_gpr uc @ [uc_pc uc, uc_msr uc, uc_ctr uc, uc_lnk uc, uc_xer uc, uc_ccr uc, uc_mq uc, uc_dar uc, uc_dsisr uc]"
    and "fpregs ri = uc_fpr uc" and "fpscr ri = uc_fpscr uc" and "wf_reginfo ri"
    and "faulting_insn ri = fetch_insn env uc (uc_pc uc)" and "nip ri = uc_pc uc - get_arch_start_address env"
proof -
  have "map (\<lambda>i. uc_gpr uc ! i) [0..<32] = uc_gpr uc"
    using assms(2) by (metis map_nth wf_ctx_def)
  with assms show "gregs ri = uc_gpr uc @ [uc_pc uc, uc_msr uc, uc_ctr uc, uc_lnk uc, uc_xer uc, uc_ccr uc, uc_mq uc, uc_dar uc, uc_dsisr uc]"
    and "fpregs ri = uc_fpr uc" and "fpscr ri = uc_fpscr uc" and "wf_reginfo ri"
    and "faulting_insn ri = fetch_insn env uc (uc_pc uc)" and "nip ri = uc_pc uc - get_arch_start_address env"
    by (auto simp: reginfo_init_def get_uc_pc_def wf_ctx_def wf_reginfo_def risu_reg_index Let_def split: if_splits)
qed

lemma reginfo_update_init:
  assumes "reginfo_init env uc siaddr = Inr ri" and "wf_ctx uc"
  shows "reginfo_update opts ri uc = uc"
proof -
  note I = reginfo_init_cases [OF assms]
  have l: "length (uc_gpr uc) = 32" using assms(2) by (simp add: wf_ctx_def)
  have "update_gprs (gregs_mask opts) (gregs ri) [0..<32] (uc_gpr uc) = uc_gpr uc"
    by (rule update_gprs_same) (simp_all add: I(1) l nth_append)
  then show ?thesis
    using I(2,3) l by (simp add: reginfo_update_def I(1) risu_reg_index nth_append)
qed

lemma wf_ctx_updates [simp]:
  "wf_ctx (advance_pc env uc) = wf_ctx uc" "wf_ctx (set_ucontext_paramreg uc v) = wf_ctx uc"
  "wf_reginfo ri \<Longrightarrow> wf_ctx uc \<Longrightarrow> wf_ctx (reginfo_update opts ri uc)"
  by (simp_all add: wf_ctx_def advance_pc_def set_ucontext_paramreg_def reginfo_update_def wf_reginfo_def split: platform.splits)

section \<open>Layout and byte order\<close>

lemma length_reginfo_bytes: "wf_reginfo ri \<Longrightarrow> length (reginfo_bytes big ri) = 444"
  by (simp add: reginfo_bytes_def wf_reginfo_def risu_NGREG_def)

lemma reginfo_of_bytes_bytes: "wf_reginfo ri \<Longrightarrow> reginfo_of_bytes big (reginfo_bytes big ri) = ri"
  by (simp add: reginfo_of_bytes_def reginfo_bytes_def wf_reginfo_def risu_NGREG_def Let_def del: enc_words_simps)

interpretation ppc_layout: struct_layout "reginfo_bytes big" "reginfo_of_bytes big" 444 wf_reginfo
  by unfold_locales (simp_all add: length_reginfo_bytes reginfo_of_bytes_bytes)

lemma wf_reginfo_of_bytes [simp]: "wf_reginfo (reginfo_of_bytes big bs)"
  by (simp add: wf_reginfo_def reginfo_of_bytes_def risu_NGREG_def Let_def)

lemma wf_reginfo_swap [simp]: "wf_reginfo (reginfo_swap ri) = wf_reginfo ri"
  by (simp add: wf_reginfo_def reginfo_swap_def)

lemma reginfo_swap_swap [simp]: "reginfo_swap (reginfo_swap ri) = ri"
  by (simp add: reginfo_swap_def o_def)

lemma reginfo_bytes_swap: "reginfo_bytes big (reginfo_swap ri) = reginfo_bytes (\<not> big) ri"
  by (simp add: reginfo_bytes_def reginfo_swap_def enc_words_map_swap)

section \<open>Properties\<close>

text \<open>
  What an option of a given name is meant to do: set the option of that name, and no other.
\<close>

definition set_named_opt :: "string \<Rightarrow> u32 \<Rightarrow> ppc_opts \<Rightarrow> ppc_opts" where
  "set_named_opt name v opts =
     (if name = ''gregs_mask'' then opts\<lparr>gregs_mask := v\<rparr>
      else if name = ''ccr_mask'' then opts\<lparr>ccr_mask := v\<rparr>
      else if name = ''xer_mask'' then opts\<lparr>xer_mask := v\<rparr>
      else if name = ''mq_mask'' then opts\<lparr>mq_mask := v\<rparr>
      else if name = ''fpscr_mask'' then opts\<lparr>fpscr_mask := v\<rparr>
      else if name = ''fpregs_mask'' then opts\<lparr>fpregs_mask := v\<rparr>
      else if name = ''vrregs_mask'' then opts\<lparr>vrregs_mask := v\<rparr>
      else if name = ''fp_opts'' then opts\<lparr>fp_opts := v\<rparr>
      else if name = ''cpu_opts'' then opts\<lparr>cpu_opts := v\<rparr>
      else opts)"

text \<open>
  The option table and the option handler agree: for every entry of \<^verbatim>\<open>extra_opts\<close> the handler sets
  the variable the option is named after to the parsed value and changes nothing else; every code
  outside of the table fails the assertion.
\<close>

theorem process_arch_opt_by_name:
  "(\<forall>(name, code) \<in> set extra_opts.
      process_arch_opt bits code arg opts = Inr (set_named_opt name (of_nat (strtoul_16 bits arg)) opts)) \<and>
   (code \<notin> snd ` set extra_opts \<longrightarrow> process_arch_opt bits code arg opts = Inl Abort)"
proof
  show "\<forall>(name, code) \<in> set extra_opts.
      process_arch_opt bits code arg opts = Inr (set_named_opt name (of_nat (strtoul_16 bits arg)) opts)"
    by (simp add: extra_opts_def process_arch_opt_def set_named_opt_def Let_def)
  have "code \<in> snd ` set extra_opts" if "FIRST_ARCH_OPT \<le> code" "code \<le> FIRST_ARCH_OPT + 8"
  proof -
    define k where "k = nat (code - FIRST_ARCH_OPT)"
    have "k < 9" and c: "code = FIRST_ARCH_OPT + int k" using that by (simp_all add: k_def nat_less_iff)
    from this(1) have "k \<in> set [0..<9]" by simp
    then show ?thesis unfolding c extra_opts_def by (auto simp: upt_rec)
  qed
  then show "code \<notin> snd ` set extra_opts \<longrightarrow> process_arch_opt bits code arg opts = Inl Abort"
    by (auto simp: process_arch_opt_def)
qed

theorem process_arch_opt_by_name_witness:
  "process_arch_opt 64 (FIRST_ARCH_OPT + 6) ''0x1F'' (default_opts APPLE) = Inr ((default_opts APPLE)\<lparr>xer_mask := 31\<rparr>)"
proof -
  have "process_arch_opt 64 (FIRST_ARCH_OPT + 6) ''0x1F'' (default_opts APPLE) =
      Inr (set_named_opt ''xer_mask'' (of_nat (strtoul_16 64 ''0x1F'')) (default_opts APPLE))"
    using process_arch_opt_by_name [of 64 "''0x1F''" "default_opts APPLE" 0] by (simp add: extra_opts_def)
  moreover have "strtoul_16 64 ''0x1F'' = 31"
    by (simp add: strtoul_16_def is_space_def strip_0x_def Let_def)
  ultimately show ?thesis by (simp add: set_named_opt_def)
qed

text \<open>
  The designated undefined instruction is recognised exactly: \<^verbatim>\<open>get_risuop\<close> returns an operation
  other than \<^verbatim>\<open>OP_SIGILL\<close> just for the sixteen words \<open>0x5af0\<close> to \<open>0x5aff\<close>, and then the operation whose
  number is in the last four bits.
\<close>

lemma get_risuop_exact:
  "get_risuop ri = op \<and> op \<noteq> OP_SIGILL \<longleftrightarrow>
     (\<exists>k < 16. faulting_insn ri = 0x5af0 OR of_nat k \<and> op = op_of_int (int k))"
proof -
  let ?i = "faulting_insn ri"
  have split: "?i = (?i AND NOT 0xf) OR (?i AND 0xf)"
    by (rule bit_word_eqI) (auto simp: bit_simps)
  have lt: "unat (?i AND 0xf) < 16"
  proof -
    have "?i AND 0xf \<le> 0xf" by (rule word_and_le1)
    then show ?thesis by (simp add: word_le_nat_alt)
  qed
  have small: "((0x5af0 OR of_nat k) AND NOT 0xf :: u32) = 0x5af0 \<and> ((0x5af0 OR of_nat k) AND 0xf :: u32) = of_nat k"
    if "k < 16" for k
  proof -
    have k: "of_nat k = take_bit 4 (of_nat k :: u32)"
      using that by (simp add: word_unat_eq_iff unsigned_take_bit_eq unat_of_nat take_bit_nat_eq_self)
    have m: "(0xf :: u32) = mask 4" "(0x5af0 :: u32) = push_bit 4 0x5af" by (simp_all add: mask_eq_exp_minus_1)
    have "(push_bit 4 a OR take_bit 4 b) AND NOT (mask 4) = push_bit 4 a" for a b :: u32
      by (rule bit_word_eqI) (auto simp: bit_push_bit_iff bit_or_iff bit_and_iff bit_not_iff bit_mask_iff bit_take_bit_iff)
    moreover have "(push_bit 4 a OR take_bit 4 b) AND mask 4 = take_bit 4 b" for a b :: u32
      by (rule bit_word_eqI) (auto simp: bit_push_bit_iff bit_or_iff bit_and_iff bit_not_iff bit_mask_iff bit_take_bit_iff)
    ultimately show ?thesis unfolding m using k by metis
  qed
  have sig: "op_of_int (int k) \<noteq> OP_SIGILL" for k
    by (simp add: op_of_int_def)
  show ?thesis
  proof
    assume "get_risuop ri = op \<and> op \<noteq> OP_SIGILL"
    then have "?i AND NOT 0xf = 0x5af0" "op = op_of_int (int (unat (?i AND 0xf)))"
      unfolding get_risuop_def Let_def uint_nat by (auto split: if_splits)
    moreover from this(1) split have "?i = 0x5af0 OR of_nat (unat (?i AND 0xf))" by (metis of_nat_unat ucast_id)
    ultimately show "\<exists>k < 16. ?i = 0x5af0 OR of_nat k \<and> op = op_of_int (int k)"
      using lt by blast
  next
    assume "\<exists>k < 16. ?i = 0x5af0 OR of_nat k \<and> op = op_of_int (int k)"
    then obtain k where k: "k < 16" "?i = 0x5af0 OR of_nat k" "op = op_of_int (int k)" by blast
    have "unat (of_nat k :: u32) = k" using k(1) by (simp add: unat_of_nat)
    then show "get_risuop ri = op \<and> op \<noteq> OP_SIGILL"
      using k small [OF k(1)] sig unfolding get_risuop_def Let_def uint_nat by simp
  qed
qed

definition sample_ctx :: ppc_ctx where
  "sample_ctx = \<lparr>uc_gpr = replicate 32 5, uc_pc = 0x1000, uc_msr = 1, uc_ctr = 2, uc_lnk = 3, uc_xer = 4, uc_ccr = 5,
     uc_mq = 6, uc_dar = 7, uc_dsisr = 8, uc_fpr = replicate 32 9, uc_fpscr = 10, uc_mem = (\<lambda>_. 0)\<rparr>"

definition sample_env :: ppc_env where
  "sample_env = \<lparr>platform = APPLE, host_big_endian = True, image_start_address = 0x1000, image_size = 64, mapped = (\<lambda>_. True)\<rparr>"

lemma wf_sample_ctx: "wf_ctx sample_ctx"
  by (simp add: wf_ctx_def sample_ctx_def)

lemma sample_init: "\<exists>ri. reginfo_init sample_env sample_ctx a = Inr ri"
  by (simp add: reginfo_init_def get_arch_memory_def sample_env_def Let_def)

text \<open>
  C27: The register image survives the wire: its 444 bytes determine it, in either byte order, and
  swapping every field is the same as storing the image in the other byte order.
\<close>

theorem reginfo_bytes_round_trip:
  assumes "wf_reginfo ri"
  shows "length (reginfo_bytes big ri) = nat (reginfo_size ri) \<and>
    reginfo_of_bytes big (reginfo_bytes big ri) = ri \<and>
    reginfo_bytes big (reginfo_swap ri) = reginfo_bytes (\<not> big) ri \<and>
    reginfo_swap (reginfo_of_bytes (\<not> big) (reginfo_bytes big ri)) = ri"
proof -
  have "reginfo_of_bytes (\<not> big) (reginfo_bytes (\<not> big) (reginfo_swap ri)) = reginfo_swap ri"
    using assms by (intro ppc_layout.dec_enc) simp
  then show ?thesis
    using assms ppc_layout.length_enc ppc_layout.dec_enc
    by (simp add: reginfo_size_def reginfo_bytes_swap)
qed

theorem reginfo_bytes_round_trip_witness:
  "\<exists>ri. wf_reginfo ri \<and> length (reginfo_bytes True ri) = 444 \<and> reginfo_swap (reginfo_of_bytes False (reginfo_bytes True ri)) = ri"
proof -
  obtain ri where "reginfo_init sample_env sample_ctx 0 = Inr ri" using sample_init by blast
  then have "wf_reginfo ri" using wf_sample_ctx by (rule reginfo_init_cases(4))
  with reginfo_bytes_round_trip [OF this, of True] show ?thesis by (auto simp: reginfo_size_def)
qed

end
