(* ===== verification/PPC_FpRules.thy ===== *)
theory PPC_FpRules
  imports PPC_Reginfo
begin

text \<open>
  The conditions under which \<^verbatim>\<open>reginfo_is_eq\<close> (\<^verbatim>\<open>src/risu_reginfo_ppc64.c\<close>, lines 697 to 1643) accepts two
  floating point registers that differ. The source writes one disjunction; here each option, or family
  of options, of \<^verbatim>\<open>fp_opts\<close> has its own definition, in the order of the source, and \<open>fpreg_excused\<close> is
  the whole disjunction. \<^verbatim>\<open>ABS\<close> is undefined for one argument, so the rules that call it are values of
  \<^typ>\<open>fault + bool\<close>, and the disjunction is evaluated from left to right as in C. The parameters \<open>rt\<close>,
  \<open>ra\<close>, \<open>rb\<close>, \<open>rc\<close> are the local variables of the function and \<open>i\<close> is the loop counter. Signed comparisons with \<^verbatim>\<open>ABS\<close> read the machine word as a signed number.
\<close>

type_synonym cond = "fault + bool"

text \<open>The operators \<^verbatim>\<open>||\<close> and \<^verbatim>\<open>&&\<close> (with a condition that is always defined on the left), and a test of an absolute value.\<close>

definition orElse :: "cond \<Rightarrow> cond \<Rightarrow> cond" where
  "orElse p q = andThen p (\<lambda>b. if b then Inr True else q)"

definition provided :: "bool \<Rightarrow> cond \<Rightarrow> cond" where
  "provided b p = (if b then p else Inr False)"

definition abs_test :: "u64 \<Rightarrow> (u64 \<Rightarrow> bool) \<Rightarrow> cond" where
  "abs_test x P = andThen (ABS x) (\<lambda>d. Inr (P d))"

type_synonym fp_rule =
  "ppc_opts \<Rightarrow> reginfo \<Rightarrow> reginfo \<Rightarrow> nat \<Rightarrow> nat \<Rightarrow> nat \<Rightarrow> nat \<Rightarrow> nat \<Rightarrow> bool"

type_synonym fp_case = "reginfo \<Rightarrow> reginfo \<Rightarrow> nat \<Rightarrow> nat \<Rightarrow> nat \<Rightarrow> nat \<Rightarrow> nat \<Rightarrow> bool"

text \<open>The same with calls of \<^verbatim>\<open>ABS\<close>.\<close>

type_synonym fp_rule_abs =
  "ppc_opts \<Rightarrow> reginfo \<Rightarrow> reginfo \<Rightarrow> nat \<Rightarrow> nat \<Rightarrow> nat \<Rightarrow> nat \<Rightarrow> nat \<Rightarrow> cond"

type_synonym fp_case_abs = "reginfo \<Rightarrow> reginfo \<Rightarrow> nat \<Rightarrow> nat \<Rightarrow> nat \<Rightarrow> nat \<Rightarrow> nat \<Rightarrow> cond"

text \<open>An instruction word matches an opcode under a mask; the target register of an instruction.\<close>

definition insn_is :: "u32 \<Rightarrow> u32 \<Rightarrow> u32 \<Rightarrow> bool" where
  "insn_is w msk v = (w AND msk = v)"

definition insn_rt :: "u32 \<Rightarrow> nat" where
  "insn_rt w = unat (drop_bit 21 w AND 31)"

definition fp_opt :: "ppc_opts \<Rightarrow> u32 \<Rightarrow> bool" where
  "fp_opt opts bits = (fp_opts opts AND bits \<noteq> 0)"

section \<open>The rules\<close>

definition fp_rule_QNaN :: fp_rule where
  "fp_rule_QNaN opts m a rt ra rb rc i =
     ((fp_opt opts fp_opt_ignore_QNaN_signs \<and>
       anyqnan (fpregs a ! i) \<and>
       anyqnan (fpregs m ! i) \<and>
       (fpregs a ! i AND NOT (push_bit 63 1)) = (fpregs m ! i AND NOT (push_bit 63 1))) \<or>
      (fp_opt opts fp_opt_ignore_QNaN_values \<and>
       neganyqnan (fpregs a ! i) \<and>
       neganyqnan (fpregs m ! i)) \<or>
      (fp_opt opts fp_opt_ignore_QNaN_diffs \<and>
       anyqnan (fpregs a ! i) \<and>
       anyqnan (fpregs m ! i)) \<or>
      (fp_opt opts fp_opt_ignore_QNaN_load_float \<and>
       (insn_is (second_prev_insn m) 0xfc0007fe 0x7c00046e \<or> \<comment> \<open>lfsux\<close>
        insn_is (second_prev_insn m) 0xfc000000 0xc4000000 \<or> \<comment> \<open>lfsu\<close>
        insn_is (second_prev_insn m) 0xfc0007ff 0x7c00042e \<or> \<comment> \<open>lfsx\<close>
        insn_is (second_prev_insn m) 0xfc000000 0xc0000000 \<comment> \<open>lfs\<close>) \<and>
       insn_rt (second_prev_insn m) = i \<and>
       (fpregs m ! i AND 0xfff7ffffffffffff) = (fpregs a ! i AND 0xfff7ffffffffffff) \<and>
       (fpregs m ! i AND 0x0008000000000000) = 0))"

definition fp_rule_NaN_operand :: fp_rule where
  "fp_rule_NaN_operand opts m a rt ra rb rc i =
     ((fp_opt opts fp_opt_ignore_NaN_operand \<and>
       (insn_is (prev_insn m) 0xfc0007fe 0xfc00002a \<or> \<comment> \<open>fadd\<close>
        insn_is (prev_insn m) 0xfc0007fe 0xec00002a \<or> \<comment> \<open>fadds\<close>
        insn_is (prev_insn m) 0xfc0007fe 0xfc000024 \<or> \<comment> \<open>fdiv\<close>
        insn_is (prev_insn m) 0xfc0007fe 0xec000024 \<or> \<comment> \<open>fdivs\<close>
        insn_is (prev_insn m) 0xfc0007fe 0xfc000028 \<or> \<comment> \<open>fsub\<close>
        insn_is (prev_insn m) 0xfc0007fe 0xec000028 \<comment> \<open>fsubs\<close>) \<and>
       rt = i \<and>
       ra \<noteq> i \<and>
       rb \<noteq> i \<and>
       (is_nan (fpregs m ! ra) \<or>
        is_nan (fpregs m ! rb))) \<or>
      (fp_opt opts fp_opt_ignore_NaN_operand \<and>
       (insn_is (prev_insn m) 0xfc1f07fe 0xfc000034 \<or> \<comment> \<open>frsqrte\<close>
        insn_is (prev_insn m) 0xfc1f07fe 0xfc000018 \<comment> \<open>frsp\<close>) \<and>
       rt = i \<and>
       rb \<noteq> i \<and>
       is_nan (fpregs m ! rb)) \<or>
      (fp_opt opts fp_opt_ignore_NaN_operand \<and>
       (insn_is (prev_insn m) 0xfc00f83e 0xfc000032 \<or> \<comment> \<open>fmul\<close>
        insn_is (prev_insn m) 0xfc00f83e 0xec000032 \<comment> \<open>fmuls\<close>) \<and>
       rt = i \<and>
       ra \<noteq> i \<and>
       rc \<noteq> i \<and>
       (is_nan (fpregs m ! ra) \<or>
        is_nan (fpregs m ! rc))) \<or>
      (fp_opt opts fp_opt_ignore_NaN_operand \<and>
       (insn_is (prev_insn m) 0xfc00003e 0xfc00003a \<or> \<comment> \<open>fmadd\<close>
        insn_is (prev_insn m) 0xfc00003e 0xfc000038 \<or> \<comment> \<open>fmsub\<close>
        insn_is (prev_insn m) 0xfc00003e 0xfc00003e \<or> \<comment> \<open>fnmadd\<close>
        insn_is (prev_insn m) 0xfc00003e 0xfc00003c \<or> \<comment> \<open>fnmsub\<close>
        insn_is (prev_insn m) 0xfc00003e 0xec00003a \<or> \<comment> \<open>fmadds\<close>
        insn_is (prev_insn m) 0xfc00003e 0xec000038 \<or> \<comment> \<open>fmsubs\<close>
        insn_is (prev_insn m) 0xfc00003e 0xec00003e \<or> \<comment> \<open>fnmadds\<close>
        insn_is (prev_insn m) 0xfc00003e 0xec00003c \<comment> \<open>fnmsubs\<close>) \<and>
       rt = i \<and>
       ra \<noteq> i \<and>
       rb \<noteq> i \<and>
       rc \<noteq> i \<and>
       (is_nan (fpregs m ! ra) \<or>
        is_nan (fpregs m ! rb) \<or>
        is_nan (fpregs m ! rc))))"

definition fp_rule_opposite_inf_operands :: fp_rule where
  "fp_rule_opposite_inf_operands opts m a rt ra rb rc i =
     ((fp_opt opts fp_opt_ignore_opposite_inf_operands \<and>
       (insn_is (prev_insn m) 0xfc0007fe 0xfc00002a \<or> \<comment> \<open>fadd\<close>
        insn_is (prev_insn m) 0xfc0007fe 0xec00002a \<comment> \<open>fadds\<close>) \<and>
       rt = i \<and>
       ra \<noteq> i \<and>
       rb \<noteq> i \<and>
       infinite_fp (fpregs m ! ra) \<and>
       infinite_fp (fpregs m ! rb) \<and>
       (negative (fpregs m ! ra) \<noteq> negative (fpregs m ! rb))) \<or>
      (fp_opt opts fp_opt_ignore_opposite_inf_operands \<and>
       (insn_is (prev_insn m) 0xfc0007fe 0xfc000028 \<or> \<comment> \<open>fsub\<close>
        insn_is (prev_insn m) 0xfc0007fe 0xec000028 \<comment> \<open>fsubs\<close>) \<and>
       rt = i \<and>
       ra \<noteq> i \<and>
       rb \<noteq> i \<and>
       infinite_fp (fpregs m ! ra) \<and>
       infinite_fp (fpregs m ! rb) \<and>
       (negative (fpregs m ! ra) = negative (fpregs m ! rb))) \<or>
      (fp_opt opts fp_opt_ignore_opposite_inf_operands \<and>
       rt = i \<and>
       ra \<noteq> i \<and>
       rb \<noteq> i \<and>
       rc \<noteq> i \<and>
       exponent (fpregs m ! ra) + exponent (fpregs m ! rc) \<ge> 2048 \<and>
       infinite_fp (fpregs m ! rb) \<and>
       (((insn_is (prev_insn m) 0xfc00003e 0xfc000038 \<or> \<comment> \<open>fmsub\<close>
          insn_is (prev_insn m) 0xfc00003e 0xec000038 \<or> \<comment> \<open>fmsubs\<close>
          insn_is (prev_insn m) 0xfc00003e 0xfc00003c \<or> \<comment> \<open>fnmsub\<close>
          insn_is (prev_insn m) 0xfc00003e 0xec00003c \<comment> \<open>fnmsubs\<close>) \<and>
         ((negative (fpregs m ! ra) \<noteq> negative (fpregs m ! rc)) = negative (fpregs m ! rb))) \<or>
        ((insn_is (prev_insn m) 0xfc00003e 0xfc00003a \<or> \<comment> \<open>fmadd\<close>
          insn_is (prev_insn m) 0xfc00003e 0xfc00003e \<or> \<comment> \<open>fnmadd\<close>
          insn_is (prev_insn m) 0xfc00003e 0xec00003a \<or> \<comment> \<open>fmadds\<close>
          insn_is (prev_insn m) 0xfc00003e 0xec00003e \<comment> \<open>fnmadds\<close>) \<and>
         ((negative (fpregs m ! ra) \<noteq> negative (fpregs m ! rc)) \<noteq> negative (fpregs m ! rb))))))"

definition fp_rule_inf_x_0_operands :: fp_rule where
  "fp_rule_inf_x_0_operands opts m a rt ra rb rc i =
     (fp_opt opts fp_opt_ignore_inf_x_0_operands \<and>
      (insn_is (prev_insn m) 0xfc00f83e 0xfc000032 \<or> \<comment> \<open>fmul\<close>
       insn_is (prev_insn m) 0xfc00003e 0xfc00003a \<or> \<comment> \<open>fmadd\<close>
       insn_is (prev_insn m) 0xfc00003e 0xfc000038 \<or> \<comment> \<open>fmsub\<close>
       insn_is (prev_insn m) 0xfc00003e 0xfc00003e \<or> \<comment> \<open>fnmadd\<close>
       insn_is (prev_insn m) 0xfc00003e 0xfc00003c \<or> \<comment> \<open>fnmsub\<close>
       insn_is (prev_insn m) 0xfc00f83e 0xec000032 \<or> \<comment> \<open>fmuls\<close>
       insn_is (prev_insn m) 0xfc00003e 0xec00003a \<or> \<comment> \<open>fmadds\<close>
       insn_is (prev_insn m) 0xfc00003e 0xec000038 \<or> \<comment> \<open>fmsubs\<close>
       insn_is (prev_insn m) 0xfc00003e 0xec00003e \<or> \<comment> \<open>fnmadds\<close>
       insn_is (prev_insn m) 0xfc00003e 0xec00003c \<comment> \<open>fnmsubs\<close>) \<and>
      rt = i \<and>
      ra \<noteq> i \<and>
      rc \<noteq> i \<and>
      ((infinite_fp (fpregs m ! ra) \<and>
        zero (fpregs m ! rc)) \<or>
       (zero (fpregs m ! ra) \<and>
        infinite_fp (fpregs m ! rc))))"

definition fp_rule_div_zero :: fp_rule where
  "fp_rule_div_zero opts m a rt ra rb rc i =
     (fp_opt opts fp_opt_ignore_div_zero \<and>
      (insn_is (prev_insn m) 0xfc0007fe 0xec000024 \<or> \<comment> \<open>fdivs\<close>
       insn_is (prev_insn m) 0xfc0007fe 0xfc000024 \<or> \<comment> \<open>fdiv\<close>
       insn_is (prev_insn m) 0xfc1f07fe 0xec000030 \<comment> \<open>fres\<close>) \<and>
      rt = i \<and>
      rb \<noteq> i \<and>
      zero (fpregs m ! rb))"

definition fp_underflow_single :: fp_case where
  "fp_underflow_single m a rt ra rb rc i =
     (((insn_is (prev_insn m) 0xfc1f07fe 0xfc000018 \<or> \<comment> \<open>frsp\<close>
        insn_is (prev_insn m) 0xfc00f83e 0xec000032 \<or> \<comment> \<open>fmuls\<close>
        insn_is (prev_insn m) 0xfc00003e 0xec00003c \<or> \<comment> \<open>fnmsubs\<close>
        insn_is (prev_insn m) 0xfc00003e 0xec00003a \<or> \<comment> \<open>fmadds\<close>
        insn_is (prev_insn m) 0xfc0007fe 0xec000024 \<or> \<comment> \<open>fdivs\<close>
        insn_is (prev_insn m) 0xfc00003e 0xec000038 \<or> \<comment> \<open>fmsubs\<close>
        insn_is (prev_insn m) 0xfc00003e 0xec00003e \<or> \<comment> \<open>fnmadds\<close>
        insn_is (prev_insn m) 0xfc0007fe 0xec00002a \<or> \<comment> \<open>fadds\<close>
        insn_is (prev_insn m) 0xfc0007fe 0xec000028 \<or> \<comment> \<open>fsubs\<close>
        insn_is (prev_insn m) 0xfc1f07fe 0xec000030 \<comment> \<open>fres\<close>) \<and>
       rt = i \<and>
       fabs_less_FLT_MIN (fpregs m ! i) \<and>
       (negative (fpregs a ! i) = negative (fpregs m ! i)) \<and>
       exponent (fpregs a ! i) < - 126) \<or>
      ((insn_is (prev_insn m) 0xfc00003e 0xec000038 \<or> \<comment> \<open>fmsubs\<close>
        insn_is (prev_insn m) 0xfc00003e 0xec00003e \<or> \<comment> \<open>fnmadds\<close>
        insn_is (prev_insn m) 0xfc00003e 0xec00003c \<or> \<comment> \<open>fnmsubs\<close>
        insn_is (prev_insn m) 0xfc00f83e 0xec000032 \<or> \<comment> \<open>fmuls\<close>
        insn_is (prev_insn m) 0xfc00003e 0xec00003a \<comment> \<open>fmadds\<close>) \<and>
       rt = i \<and>
       (negative (fpregs a ! i) = negative (fpregs m ! i)) \<and>
       exponent (fpregs a ! i) < - 126 \<and>
       ((ra \<noteq> i \<and>
         rc \<noteq> i \<and>
         exponent (fpregs m ! ra) + exponent (fpregs m ! rc) < - 126) \<or>
        ra = i \<or>
        rc = i)) \<or>
      (insn_is (prev_insn m) 0xfc0007fe 0xec000024 \<and>
       rt = i \<and>
       (negative (fpregs a ! i) = negative (fpregs m ! i)) \<and>
       exponent (fpregs a ! i) < - 126 \<and>
       ((ra \<noteq> i \<and>
         rb \<noteq> i \<and>
         exponent (fpregs m ! ra) - exponent (fpregs m ! rb) \<le> - 126) \<or>
        ra = i \<or>
        rb = i)) \<or>
      (insn_is (prev_insn m) 0xfc1f07fe 0xfc000018 \<and>
       rt = i \<and>
       rb \<noteq> i \<and>
       (negative (fpregs a ! i) = negative (fpregs m ! i)) \<and>
       exponent (fpregs a ! i) < - 126 \<and>
       exponent (fpregs m ! rb) < - 126) \<or>
      (insn_is (prev_insn m) 0xfc1f07fe 0xfc000018 \<and>
       rt = i \<and>
       rb = i \<and>
       (negative (fpregs a ! i) = negative (fpregs m ! i)) \<and>
       exponent (fpregs a ! i) < - 126 \<and>
       exponent (fpregs m ! i) < - 126 + 192))"

definition fp_underflow_sum_product :: fp_case_abs where
  "fp_underflow_sum_product m a rt ra rb rc i =
     orElse (Inr
      (((insn_is (prev_insn m) 0xfc00003e 0xfc00003a \<or> \<comment> \<open>fmadd\<close>
        insn_is (prev_insn m) 0xfc00003e 0xfc00003e \<or> \<comment> \<open>fnmadd\<close>
        insn_is (prev_insn m) 0xfc00003e 0xfc00003c \<or> \<comment> \<open>fnmsub\<close>
        insn_is (prev_insn m) 0xfc0007fe 0xfc000028 \<or> \<comment> \<open>fsub\<close>
        insn_is (prev_insn m) 0xfc0007fe 0xfc00002a \<comment> \<open>fadd\<close>) \<and>
       rt = i \<and>
       fpregs m ! i = signz (fpregs a ! i) \<and>
       exponent (fpregs a ! i) < - 1022) \<or>
      ((insn_is (prev_insn m) 0xfc0007fe 0xec00002a \<or> \<comment> \<open>fadds\<close>
        insn_is (prev_insn m) 0xfc0007fe 0xec000028 \<comment> \<open>fsubs\<close>) \<and>
       rt = i \<and>
       fpregs m ! i = signz (fpregs a ! i) \<and>
       exponent (fpregs a ! i) < - 126) \<or>
      ((insn_is (prev_insn m) 0xfc0007fe 0xec00002a \<or> \<comment> \<open>fadds\<close>
        insn_is (prev_insn m) 0xfc0007fe 0xec000028 \<comment> \<open>fsubs\<close>) \<and>
       rt = i \<and>
       (negative (fpregs a ! i) = negative (fpregs m ! i)) \<and>
       exponent (fpregs a ! i) < - 126 \<and>
       (ra = i \<or>
        exponent (fpregs m ! ra) < - 126) \<and>
       (rb = i \<or>
        exponent (fpregs m ! rb) < - 126)))) (orElse (provided
      ((insn_is (prev_insn m) 0xfc0007fe 0xec00002a \<or> \<comment> \<open>fadds\<close>
        insn_is (prev_insn m) 0xfc0007fe 0xec000028 \<comment> \<open>fsubs\<close>) \<and>
       rt = i \<and>
       (negative (fpregs a ! i) = negative (fpregs m ! i)) \<and>
       exponent (fpregs a ! i) < - 126)
       (abs_test (word_of_int (exponent (fpregs m ! i) - exponent (fpregs a ! i) - 192)) (\<lambda>d. sint d \<le> 1))) (Inr
      (((insn_is (prev_insn m) 0xfc00f83e 0xfc000032 \<or> \<comment> \<open>fmul\<close>
        insn_is (prev_insn m) 0xfc00003e 0xfc00003a \<or> \<comment> \<open>fmadd\<close>
        insn_is (prev_insn m) 0xfc00003e 0xfc000038 \<or> \<comment> \<open>fmsub\<close>
        insn_is (prev_insn m) 0xfc00003e 0xfc00003e \<or> \<comment> \<open>fnmadd\<close>
        insn_is (prev_insn m) 0xfc00003e 0xfc00003c \<comment> \<open>fnmsub\<close>) \<and>
       rt = i \<and>
       ra \<noteq> i \<and>
       rc \<noteq> i \<and>
       exponent (fpregs a ! i) < - 126 \<and>
       exponent (fpregs m ! ra) + exponent (fpregs m ! rc) < - 1022) \<or>
      ((insn_is (prev_insn m) 0xfc00f83e 0xfc000032 \<or> \<comment> \<open>fmul\<close>
        insn_is (prev_insn m) 0xfc00003e 0xfc00003a \<or> \<comment> \<open>fmadd\<close>
        insn_is (prev_insn m) 0xfc00003e 0xfc000038 \<or> \<comment> \<open>fmsub\<close>
        insn_is (prev_insn m) 0xfc00003e 0xfc00003e \<or> \<comment> \<open>fnmadd\<close>
        insn_is (prev_insn m) 0xfc00003e 0xfc00003c \<comment> \<open>fnmsub\<close>) \<and>
       rt = i \<and>
       ra \<noteq> i \<and>
       rc \<noteq> i \<and>
       fpregs m ! i = signz (fpregs a ! i) \<and>
       denormalized (fpregs a ! i) \<and>
       exponent (fpregs m ! ra) + exponent (fpregs m ! rc) < - 1022) \<or>
      (insn_is (prev_insn m) 0xfc00f83e 0xfc000032 \<and> \<comment> \<open>fmul\<close>
       rt = i \<and>
       (ra = i \<or>
        rc = i) \<and>
       exponent (fpregs a ! i) < - 126 \<and>
       exponent (fpregs m ! ra) < 0x200))))"

definition fp_underflow_div :: fp_case where
  "fp_underflow_div m a rt ra rb rc i =
     ((insn_is (prev_insn m) 0xfc0007fe 0xfc000024 \<and> \<comment> \<open>fdiv\<close>
       rt = i \<and>
       ra \<noteq> i \<and>
       rb \<noteq> i \<and>
       (negative (fpregs a ! i) = negative (fpregs m ! i)) \<and>
       denormalized (fpregs a ! i) \<and>
       exponent (fpregs m ! ra) - exponent (fpregs m ! rb) < - 1022) \<or>
      (insn_is (prev_insn m) 0xfc0007fe 0xfc000024 \<and> \<comment> \<open>fdiv\<close>
       rt = i \<and>
       ra \<noteq> i \<and>
       rb \<noteq> i \<and>
       fpregs a ! i = signz (fpregs m ! i) \<and>
       exponent (fpregs m ! ra) - exponent (fpregs m ! rb) < - 1022) \<or>
      (insn_is (prev_insn m) 0xfc0007fe 0xfc000024 \<and> \<comment> \<open>fdiv\<close>
       rt = i \<and>
       ra \<noteq> i \<and>
       rb = i \<and>
       fpregs a ! i = signz (fpregs m ! i) \<and>
       exponent (fpregs a ! ra) < - 126) \<or>
      (insn_is (prev_insn m) 0xfc0007fe 0xfc000024 \<and> \<comment> \<open>fdiv\<close>
       rt = i \<and>
       ra = i \<and>
       rb \<noteq> i \<and>
       fpregs a ! i = signz (fpregs m ! i)) \<or>
      (insn_is (prev_insn m) 0xfc0007fe 0xfc000024 \<and> \<comment> \<open>fdiv\<close>
       rt = i \<and>
       (ra = i \<or>
        rb = i) \<and>
       exponent (fpregs a ! i) < - 1022 \<and>
       exponent (fpregs m ! i) < - 1022 + 1536) \<or>
      (insn_is (prev_insn m) 0xfc0007fe 0xec000024 \<and> \<comment> \<open>fdivs\<close>
       rt = i \<and>
       ra \<noteq> i \<and>
       rb \<noteq> i \<and>
       fpregs a ! i = signz (fpregs m ! i) \<and>
       exponent (fpregs m ! ra) - exponent (fpregs m ! rb) < - 126) \<or>
      (insn_is (prev_insn m) 0xfc0007fe 0xec000024 \<and> \<comment> \<open>fdivs\<close>
       rt = i \<and>
       ra \<noteq> i \<and>
       rb \<noteq> i \<and>
       fpregs m ! i = signz (fpregs a ! i) \<and>
       exponent (fpregs m ! ra) - exponent (fpregs m ! rb) < - 126) \<or>
      (insn_is (prev_insn m) 0xfc0007fe 0xec000024 \<and> \<comment> \<open>fdivs\<close>
       rt = i \<and>
       ra \<noteq> i \<and>
       rb = i \<and>
       fpregs a ! i = signz (fpregs m ! i) \<and>
       denormalized (fpregs a ! ra)) \<or>
      (insn_is (prev_insn m) 0xfc0007fe 0xec000024 \<and> \<comment> \<open>fdivs\<close>
       rt = i \<and>
       rb \<noteq> i \<and>
       ra = i \<and>
       fpregs a ! i = signz (fpregs m ! i)))"

definition fp_underflow_other :: fp_case_abs where
  "fp_underflow_other m a rt ra rb rc i =
     orElse (Inr
      ((insn_is (prev_insn m) 0xfc1f07fe 0xec000030 \<and> \<comment> \<open>fres\<close>
       rt = i \<and>
       exponent (fpregs a ! i) < - 126 \<and>
       (rb = i \<or>
        exponent (fpregs m ! rb) \<ge> 126)) \<or>
      (insn_is (prev_insn m) 0xfc1f07fe 0xec000030 \<and> \<comment> \<open>fres\<close>
       rt = i \<and>
       rb = i \<and>
       exponent (fpregs a ! i) < - 126 \<and>
       exponent (fpregs m ! i) = exponent (fpregs a ! i) + 192))) (orElse (provided
      ((insn_is (prev_insn m) 0xfc0007fe 0xfc000028 \<or> \<comment> \<open>fsub\<close>
        insn_is (prev_insn m) 0xfc00003e 0xfc000038 \<or> \<comment> \<open>fmsub\<close>
        insn_is (prev_insn m) 0xfc00003e 0xfc00003e \<or> \<comment> \<open>fnmadd\<close>
        insn_is (prev_insn m) 0xfc00003e 0xfc00003c \<or> \<comment> \<open>fnmsub\<close>
        insn_is (prev_insn m) 0xfc00003e 0xfc00003a \<or> \<comment> \<open>fmadd\<close>
        insn_is (prev_insn m) 0xfc00f83e 0xfc000032 \<or> \<comment> \<open>fmul\<close>
        insn_is (prev_insn m) 0xfc0007fe 0xfc00002a \<or> \<comment> \<open>fadd\<close>
        insn_is (prev_insn m) 0xfc0007fe 0xfc000024 \<comment> \<open>fdiv\<close>) \<and>
       rt = i \<and>
       (negative (fpregs a ! i) = negative (fpregs m ! i)) \<and>
       denormalized (fpregs a ! i))
       (abs_test (normalize (fpregs a ! i) - fpregs m ! i) (\<lambda>d. sint d \<le> 0x20000))) (orElse (Inr
      ((insn_is (prev_insn m) 0xfc00003e 0xfc000038 \<and>
       rt = i \<and>
       fpregs m ! i = signz (fpregs a ! i) \<and>
       denormalized (fpregs a ! i)) \<or>
      (insn_is (prev_insn m) 0xfc0007fe 0xfc00002a \<and> \<comment> \<open>fadd\<close>
       rt = i \<and>
       (ra = i \<or>
        rb = i) \<and>
       fpregs m ! i = signz (fpregs a ! i) \<and>
       denormalized (fpregs a ! i)))) (orElse (provided
      ((insn_is (prev_insn m) 0xfc00003e 0xec00003c \<or> \<comment> \<open>fnmsubs\<close>
        insn_is (prev_insn m) 0xfc0007fe 0xec000028 \<or> \<comment> \<open>fsubs\<close>
        insn_is (prev_insn m) 0xfc0007fe 0xec00002a \<comment> \<open>fadds\<close>) \<and>
       rt = i \<and>
       exponent (fpregs a ! i) < - 126 \<and>
       exponent (fpregs m ! i) = exponent (fpregs a ! i) + 192)
       (abs_test (mantissa (fpregs a ! i) - mantissa (fpregs m ! i)) (\<lambda>d. sint d \<le> 0x20000000))) (Inr
      ((insn_is (prev_insn m) 0xfc00003e 0xec00003a \<and>
       rt = i \<and>
       ra \<noteq> i \<and>
       rc \<noteq> i \<and>
       rb \<noteq> i \<and>
       ((zero (fpregs m ! ra) \<and>
         denormalized (fpregs m ! rc)) \<or>
        (zero (fpregs m ! rc) \<and>
         denormalized (fpregs m ! ra))) \<and>
       zero (fpregs m ! i) \<and>
       fpregs a ! i = fpregs m ! rb) \<or>
      ((insn_is (prev_insn m) 0xfc00003e 0xec00003c \<or> \<comment> \<open>fnmsubs\<close>
        insn_is (prev_insn m) 0xfc00003e 0xec00003a \<or> \<comment> \<open>fmadds\<close>
        insn_is (prev_insn m) 0xfc00003e 0xec000038 \<or> \<comment> \<open>fmsubs\<close>
        insn_is (prev_insn m) 0xfc00003e 0xec00003e \<comment> \<open>fnmadds\<close>) \<and>
       rt = i \<and>
       (ra = i \<or>
        exponent (fpregs a ! ra) < - 126) \<and>
       (rb = i \<or>
        exponent (fpregs a ! rb) < - 126) \<and>
       (rc = i \<or>
        exponent (fpregs a ! rc) < - 126)))))))"

definition fp_rule_underflow :: fp_rule_abs where
  "fp_rule_underflow opts m a rt ra rb rc i =
     provided (fp_opt opts fp_opt_ignore_underflow)
      (orElse (Inr (fp_underflow_single m a rt ra rb rc i))
      (orElse (fp_underflow_sum_product m a rt ra rb rc i)
      (orElse (Inr (fp_underflow_div m a rt ra rb rc i))
       (fp_underflow_other m a rt ra rb rc i))))"

definition fp_overflow_single :: fp_case_abs where
  "fp_overflow_single m a rt ra rb rc i =
     orElse (Inr
      (((insn_is (prev_insn m) 0xfc00003e 0xec00003a \<or> \<comment> \<open>fmadds\<close>
        insn_is (prev_insn m) 0xfc00003e 0xec000038 \<or> \<comment> \<open>fmsubs\<close>
        insn_is (prev_insn m) 0xfc00003e 0xec00003e \<or> \<comment> \<open>fnmadds\<close>
        insn_is (prev_insn m) 0xfc00003e 0xec00003c \<or> \<comment> \<open>fnmsubs\<close>
        insn_is (prev_insn m) 0xfc00003e 0xfc00003a \<or> \<comment> \<open>fmadd\<close>
        insn_is (prev_insn m) 0xfc00003e 0xfc000038 \<or> \<comment> \<open>fmsub\<close>
        insn_is (prev_insn m) 0xfc00003e 0xfc00003e \<or> \<comment> \<open>fnmadd\<close>
        insn_is (prev_insn m) 0xfc00003e 0xfc00003c \<comment> \<open>fnmsub\<close>) \<and>
       rt = i \<and>
       infinite_fp (fpregs m ! i) \<and>
       isqnan (fpregs a ! i) \<and>
       (ra = i \<or>
        rb = i \<or>
        rc = i)) \<or>
      ((insn_is (prev_insn m) 0xfc00003e 0xec00003e \<or> \<comment> \<open>fnmadds\<close>
        insn_is (prev_insn m) 0xfc00003e 0xec00003c \<or> \<comment> \<open>fnmsubs\<close>
        insn_is (prev_insn m) 0xfc00003e 0xec000038 \<or> \<comment> \<open>fmsubs\<close>
        insn_is (prev_insn m) 0xfc00003e 0xec00003a \<or> \<comment> \<open>fmadds\<close>
        insn_is (prev_insn m) 0xfc0007fe 0xec000024 \<or> \<comment> \<open>fdivs\<close>
        insn_is (prev_insn m) 0xfc0007fe 0xec00002a \<or> \<comment> \<open>fadds\<close>
        insn_is (prev_insn m) 0xfc00f83e 0xec000032 \<or> \<comment> \<open>fmuls\<close>
        insn_is (prev_insn m) 0xfc1f07fe 0xec000030 \<or> \<comment> \<open>fres\<close>
        insn_is (prev_insn m) 0xfc0007fe 0xec000028 \<comment> \<open>fsubs\<close>) \<and>
       rt = i \<and>
       (infinite_fp (fpregs m ! i) \<or>
        fabs_ge_FLT_MAX (fpregs m ! i)) \<and>
       exponent (fpregs a ! i) > 126))) (orElse (provided
      ((insn_is (prev_insn m) 0xfc0007fe 0xec000028 \<or> \<comment> \<open>fsubs\<close>
        insn_is (prev_insn m) 0xfc0007fe 0xec00002a \<or> \<comment> \<open>fadds\<close>
        insn_is (prev_insn m) 0xfc00f83e 0xec000032 \<or> \<comment> \<open>fmuls\<close>
        insn_is (prev_insn m) 0xfc00003e 0xec00003a \<or> \<comment> \<open>fmadds\<close>
        insn_is (prev_insn m) 0xfc00003e 0xec000038 \<or> \<comment> \<open>fmsubs\<close>
        insn_is (prev_insn m) 0xfc00003e 0xec00003e \<or> \<comment> \<open>fnmadds\<close>
        insn_is (prev_insn m) 0xfc00003e 0xec00003c \<comment> \<open>fnmsubs\<close>) \<and>
       rt = i \<and>
       fpregs a ! i = signinf (fpregs m ! i))
       (orElse (provided
        (ra \<noteq> i \<and>
         rb \<noteq> i \<and>
         denormalized (fpregs a ! rb) \<and>
         exponent (fpregs m ! ra) > 126 \<and>
         exponent (fpregs m ! i) = exponent (fpregs a ! ra) - 192)
         (abs_test (mantissa (fpregs a ! ra) - mantissa (fpregs m ! i)) (\<lambda>d. sint d \<le> 0x20000000))) (Inr
        (((ra \<noteq> i \<and>
          exponent (fpregs m ! ra) > 126) \<or>
         (rb \<noteq> i \<and>
          exponent (fpregs m ! rb) > 126)) \<or>
        (infinite_fp (fpregs a ! i) \<and>
         (ra = i \<or>
          rb = i)))))) (Inr
      ((insn_is (prev_insn m) 0xfc00f83e 0xec000032 \<or> \<comment> \<open>fmuls\<close>
        insn_is (prev_insn m) 0xfc00003e 0xec00003a \<or> \<comment> \<open>fmadds\<close>
        insn_is (prev_insn m) 0xfc00003e 0xec000038 \<or> \<comment> \<open>fmsubs\<close>
        insn_is (prev_insn m) 0xfc00003e 0xec00003e \<or> \<comment> \<open>fnmadds\<close>
        insn_is (prev_insn m) 0xfc00003e 0xec00003c \<comment> \<open>fnmsubs\<close>) \<and>
       rt = i \<and>
       ra \<noteq> i \<and>
       rc \<noteq> i \<and>
       fpregs a ! i = signinf (fpregs m ! i) \<and>
       exponent (fpregs m ! ra) + exponent (fpregs m ! rc) \<ge> 126)))"

definition fp_overflow_double :: fp_case where
  "fp_overflow_double m a rt ra rb rc i =
     (((insn_is (prev_insn m) 0xfc00003e 0xec00003a \<or> \<comment> \<open>fmadds\<close>
        insn_is (prev_insn m) 0xfc00003e 0xec000038 \<or> \<comment> \<open>fmsubs\<close>
        insn_is (prev_insn m) 0xfc00003e 0xec00003e \<or> \<comment> \<open>fnmadds\<close>
        insn_is (prev_insn m) 0xfc00003e 0xec00003c \<comment> \<open>fnmsubs\<close>) \<and>
       rt = i \<and>
       rb \<noteq> i \<and>
       (negative (fpregs a ! i) = negative (fpregs m ! i)) \<and>
       exponent (fpregs a ! i) \<ge> 126 \<and>
       exponent (fpregs m ! rb) \<ge> 126) \<or>
      ((insn_is (prev_insn m) 0xfc00f83e 0xfc000032 \<or> \<comment> \<open>fmul\<close>
        insn_is (prev_insn m) 0xfc00003e 0xfc00003a \<or> \<comment> \<open>fmadd\<close>
        insn_is (prev_insn m) 0xfc00003e 0xfc000038 \<or> \<comment> \<open>fmsub\<close>
        insn_is (prev_insn m) 0xfc00003e 0xfc00003e \<or> \<comment> \<open>fnmadd\<close>
        insn_is (prev_insn m) 0xfc00003e 0xfc00003c \<comment> \<open>fnmsub\<close>) \<and>
       rt = i \<and>
       ra \<noteq> i \<and>
       rc \<noteq> i \<and>
       fpregs a ! i = signinf (fpregs m ! i) \<and>
       exponent (fpregs m ! ra) + exponent (fpregs m ! rc) \<ge> 1023) \<or>
      ((insn_is (prev_insn m) 0xfc00003e 0xfc00003a \<or> \<comment> \<open>fmadd\<close>
        insn_is (prev_insn m) 0xfc00003e 0xfc000038 \<or> \<comment> \<open>fmsub\<close>
        insn_is (prev_insn m) 0xfc00003e 0xfc00003e \<or> \<comment> \<open>fnmadd\<close>
        insn_is (prev_insn m) 0xfc00003e 0xfc00003c \<comment> \<open>fnmsub\<close>) \<and>
       fpregs a ! i = signinf (fpregs m ! i) \<and>
       rt = i \<and>
       (rb = i \<or>
        ra = i)) \<or>
      (insn_is (prev_insn m) 0xfc00003e 0xfc00003e \<and>
       rt = i \<and>
       ra \<noteq> i \<and>
       rc = i \<and>
       fpregs a ! i = signinf (fpregs m ! i) \<and>
       exponent (fpregs m ! ra) > 0) \<or>
      (insn_is (prev_insn m) 0xfc0007fe 0xfc000024 \<and> \<comment> \<open>fdiv\<close>
       rt = i \<and>
       ra \<noteq> i \<and>
       rb \<noteq> i \<and>
       fpregs a ! i = signinf (fpregs m ! i) \<and>
       exponent (fpregs m ! ra) - exponent (fpregs m ! rb) \<ge> 1023) \<or>
      (insn_is (prev_insn m) 0xfc0007fe 0xfc000024 \<and> \<comment> \<open>fdiv\<close>
       rt = i \<and>
       (rb = i \<or>
        ra = i) \<and>
       fpregs a ! i = signinf (fpregs m ! i)) \<or>
      (insn_is (prev_insn m) 0xfc0007fe 0xec000024 \<and> \<comment> \<open>fdivs\<close>
       rt = i \<and>
       ra \<noteq> i \<and>
       rb \<noteq> i \<and>
       fpregs a ! i = signinf (fpregs m ! i) \<and>
       exponent (fpregs m ! ra) - exponent (fpregs m ! rb) \<ge> 126) \<or>
      (insn_is (prev_insn m) 0xfc1f07fe 0xec000030 \<and> \<comment> \<open>fres\<close>
       rt = i \<and>
       fpregs a ! i = signinf (fpregs m ! i) \<and>
       (rb = i \<or>
        - exponent (fpregs m ! rb) \<ge> 126)) \<or>
      (insn_is (prev_insn m) 0xfc1f07fe 0xfc000018 \<and> \<comment> \<open>frsp\<close>
       rt = i \<and>
       rb \<noteq> i \<and>
       fpregs a ! i = signinf (fpregs m ! i) \<and>
       exponent (fpregs m ! rb) \<ge> 126) \<or>
      (insn_is (prev_insn m) 0xfc1f07fe 0xfc000018 \<and> \<comment> \<open>frsp\<close>
       rt = i \<and>
       rb = i \<and>
       fpregs a ! i = signinf (fpregs m ! i) \<and>
       infinite_fp (fpregs a ! i)))"

definition fp_rule_overflow :: fp_rule_abs where
  "fp_rule_overflow opts m a rt ra rb rc i =
     provided (fp_opt opts fp_opt_ignore_overflow)
      (orElse (fp_overflow_single m a rt ra rb rc i)
       (Inr (fp_overflow_double m a rt ra rb rc i)))"

definition fp_rule_round :: fp_rule_abs where
  "fp_rule_round opts m a rt ra rb rc i =
     orElse (provided
      (fp_opt opts fp_opt_ignore_round \<and>
       (insn_is (prev_insn m) 0xfc00003e 0xfc00003e \<or> \<comment> \<open>fnmadd\<close>
        insn_is (prev_insn m) 0xfc00003e 0xfc00003a \<or> \<comment> \<open>fmadd\<close>
        insn_is (prev_insn m) 0xfc0007fe 0xfc000028 \<or> \<comment> \<open>fsub\<close>
        insn_is (prev_insn m) 0xfc00f83e 0xfc000032 \<or> \<comment> \<open>fmul\<close>
        insn_is (prev_insn m) 0xfc00003e 0xfc00003c \<or> \<comment> \<open>fnmsub\<close>
        insn_is (prev_insn m) 0xfc00003e 0xfc000038 \<or> \<comment> \<open>fmsub\<close>
        insn_is (prev_insn m) 0xfc0007fe 0xfc000024 \<or> \<comment> \<open>fdiv\<close>
        insn_is (prev_insn m) 0xfc0007fe 0xfc00002a \<comment> \<open>fadd\<close>) \<and>
       rt = i \<and>
       \<not> anyqnan (fpregs a ! i) \<and>
       \<not> anyqnan (fpregs m ! i))
       (abs_test (fpregs a ! i - fpregs m ! i) (\<lambda>d. sint d \<le> 1))) (provided
      (fp_opt opts fp_opt_ignore_round \<and>
       (insn_is (prev_insn m) 0xfc1f07fe 0xfc000034 \<or> \<comment> \<open>frsqrte\<close>
        insn_is (prev_insn m) 0xfc1f07fe 0xec000030 \<comment> \<open>fres\<close>) \<and>
       rt = i \<and>
       \<not> anyqnan (fpregs a ! i) \<and>
       \<not> anyqnan (fpregs m ! i))
       (abs_test (fpregs a ! i - fpregs m ! i) (\<lambda>d. sint d \<le> 2 ^ 47)))"

definition fp_rule_round_s :: fp_rule_abs where
  "fp_rule_round_s opts m a rt ra rb rc i =
     orElse (provided
      (fp_opt opts fp_opt_ignore_round_s \<and>
       (insn_is (prev_insn m) 0xfc00f83e 0xec000032 \<or> \<comment> \<open>fmuls\<close>
        insn_is (prev_insn m) 0xfc00003e 0xec00003c \<or> \<comment> \<open>fnmsubs\<close>
        insn_is (prev_insn m) 0xfc0007fe 0xec000024 \<or> \<comment> \<open>fdivs\<close>
        insn_is (prev_insn m) 0xfc00003e 0xec00003a \<or> \<comment> \<open>fmadds\<close>
        insn_is (prev_insn m) 0xfc0007fe 0xec00002a \<or> \<comment> \<open>fadds\<close>
        insn_is (prev_insn m) 0xfc00003e 0xec00003e \<or> \<comment> \<open>fnmadds\<close>
        insn_is (prev_insn m) 0xfc1f07fe 0xfc000018 \<or> \<comment> \<open>frsp\<close>
        insn_is (prev_insn m) 0xfc00003e 0xec000038 \<or> \<comment> \<open>fmsubs\<close>
        insn_is (prev_insn m) 0xfc0007fe 0xec000028 \<comment> \<open>fsubs\<close>) \<and>
       rt = i \<and>
       \<not> anyqnan (fpregs a ! i) \<and>
       \<not> anyqnan (fpregs m ! i))
       (abs_test (fpregs a ! i - fpregs m ! i) (\<lambda>d. d \<le> 0x800000000))) (orElse (provided
      (fp_opt opts fp_opt_ignore_round_s \<and>
       (insn_is (prev_insn m) 0xfc00f83e 0xec000032 \<or> \<comment> \<open>fmuls\<close>
        insn_is (prev_insn m) 0xfc00003e 0xec00003c \<or> \<comment> \<open>fnmsubs\<close>
        insn_is (prev_insn m) 0xfc0007fe 0xec000024 \<or> \<comment> \<open>fdivs\<close>
        insn_is (prev_insn m) 0xfc00003e 0xec00003a \<or> \<comment> \<open>fmadds\<close>
        insn_is (prev_insn m) 0xfc0007fe 0xec00002a \<or> \<comment> \<open>fadds\<close>
        insn_is (prev_insn m) 0xfc00003e 0xec00003e \<or> \<comment> \<open>fnmadds\<close>
        insn_is (prev_insn m) 0xfc1f07fe 0xfc000018 \<or> \<comment> \<open>frsp\<close>
        insn_is (prev_insn m) 0xfc00003e 0xec000038 \<or> \<comment> \<open>fmsubs\<close>
        insn_is (prev_insn m) 0xfc0007fe 0xec000028 \<comment> \<open>fsubs\<close>) \<and>
       rt = i \<and>
       \<not> anyqnan (fpregs a ! i) \<and>
       \<not> anyqnan (fpregs m ! i) \<and>
       exponent (fpregs a ! i) < - 126 \<and>
       exponent (fpregs m ! i) < - 126)
       (abs_test (fpregs a ! i - fpregs m ! i) (\<lambda>d. d \<le> 0x800000000000))) (Inr
      (fp_opt opts fp_opt_ignore_round_s \<and>
       (insn_is (prev_insn m) 0xfc0007fe 0xec00002a \<or> \<comment> \<open>fadds\<close>
        insn_is (prev_insn m) 0xfc0007fe 0xec000028 \<comment> \<open>fsubs\<close>) \<and>
       rt = i \<and>
       ra \<noteq> i \<and>
       rb \<noteq> i \<and>
       \<not> anyqnan (fpregs a ! i) \<and>
       \<not> anyqnan (fpregs m ! i) \<and>
       exponent (fpregs m ! i) < - 126 \<and>
       exponent (fpregs a ! i) < - 126 \<and>
       exponent (fpregs a ! ra) < - 126 \<and>
       exponent (fpregs m ! rb) < - 126)))"

definition fp_rule_rsqrt :: fp_rule where
  "fp_rule_rsqrt opts m a rt ra rb rc i =
     ((fp_opt opts fp_opt_ignore_rsqrt_negative \<and>
       insn_is (prev_insn m) 0xfc1f07fe 0xfc000034 \<and>
       rt = i \<and>
       isqnan (fpregs a ! i) \<and>
       (rb = i \<or>
        negative (fpregs m ! rb))) \<or>
      (fp_opt opts fp_opt_ignore_rsqrt_negative_zero \<and>
       insn_is (prev_insn m) 0xfc1f07fe 0xfc000034 \<and>
       rt = i \<and>
       rb \<noteq> i \<and>
       fpregs m ! rb = 0x8000000000000000 \<and>
       fpregs a ! i = 0xfff0000000000000) \<or>
      (fp_opt opts fp_opt_ignore_rsqrt_zero \<and>
       insn_is (prev_insn m) 0xfc1f07fe 0xfc000034 \<and>
       rt = i \<and>
       rb \<noteq> i \<and>
       fpregs m ! rb = 0 \<and>
       fpregs a ! i = 0x7ff0000000000000))"

definition fp_rule_qnan_from :: fp_rule where
  "fp_rule_qnan_from opts m a rt ra rb rc i =
     ((fp_opt opts fp_opt_ignore_qnan_from_inf \<and>
       (insn_is (prev_insn m) 0xfc00f83e 0xfc000032 \<or> \<comment> \<open>fmul\<close>
        insn_is (prev_insn m) 0xfc00003e 0xfc00003a \<or> \<comment> \<open>fmadd\<close>
        insn_is (prev_insn m) 0xfc00003e 0xfc000038 \<or> \<comment> \<open>fmsub\<close>
        insn_is (prev_insn m) 0xfc00003e 0xfc00003e \<or> \<comment> \<open>fnmadd\<close>
        insn_is (prev_insn m) 0xfc00003e 0xfc00003c \<or> \<comment> \<open>fnmsub\<close>
        insn_is (prev_insn m) 0xfc00003e 0xec00003e \<comment> \<open>fnmadds\<close>) \<and>
       rt = i \<and>
       isqnan (fpregs a ! i) \<and>
       ((ra \<noteq> i \<and>
         infinite_fp (fpregs a ! ra)) \<or>
        (rc \<noteq> i \<and>
         infinite_fp (fpregs a ! rc)))) \<or>
      (fp_opt opts fp_opt_ignore_qnan_from_unknown \<and>
       insn_is (prev_insn m) 0xfc0007fe 0xfc000024 \<and>
       rt = i \<and>
       isqnan (fpregs a ! i) \<and>
       (ra = i \<or>
        rb = i)))"

definition fp_rule_inf_from_unknown :: fp_rule where
  "fp_rule_inf_from_unknown opts m a rt ra rb rc i =
     ((fp_opt opts fp_opt_ignore_inf_from_unknown \<and>
       (insn_is (prev_insn m) 0xfc1f07fe 0xfc000034 \<or> \<comment> \<open>frsqrte\<close>
        insn_is (prev_insn m) 0xfc1f07fe 0xec000030 \<comment> \<open>fres\<close>) \<and>
       rt = i \<and>
       infinite_fp (fpregs a ! i) \<and>
       rb = i) \<or>
      (fp_opt opts fp_opt_ignore_inf_from_unknown \<and>
       insn_is (prev_insn m) 0xfc0007fe 0xec000024 \<and>
       rt = i \<and>
       infinite_fp (fpregs a ! i) \<and>
       (ra = i \<or>
        rb = i)) \<or>
      (fp_opt opts fp_opt_ignore_inf_from_unknown \<and>
       (insn_is (prev_insn m) 0xfc00f83e 0xfc000032 \<or> \<comment> \<open>fmul\<close>
        insn_is (prev_insn m) 0xfc00003e 0xfc00003a \<or> \<comment> \<open>fmadd\<close>
        insn_is (prev_insn m) 0xfc00003e 0xfc000038 \<or> \<comment> \<open>fmsub\<close>
        insn_is (prev_insn m) 0xfc00003e 0xfc00003e \<or> \<comment> \<open>fnmadd\<close>
        insn_is (prev_insn m) 0xfc00003e 0xfc00003c \<or> \<comment> \<open>fnmsub\<close>
        insn_is (prev_insn m) 0xfc00f83e 0xec000032 \<or> \<comment> \<open>fmuls\<close>
        insn_is (prev_insn m) 0xfc00003e 0xec00003a \<or> \<comment> \<open>fmadds\<close>
        insn_is (prev_insn m) 0xfc00003e 0xec000038 \<or> \<comment> \<open>fmsubs\<close>
        insn_is (prev_insn m) 0xfc00003e 0xec00003e \<or> \<comment> \<open>fnmadds\<close>
        insn_is (prev_insn m) 0xfc00003e 0xec00003c \<comment> \<open>fnmsubs\<close>) \<and>
       rt = i \<and>
       infinite_fp (fpregs a ! i) \<and>
       (ra = i \<or>
        rc = i)))"

definition fp_rule_zero_signs :: fp_rule where
  "fp_rule_zero_signs opts m a rt ra rb rc i =
     (fp_opt opts fp_opt_ignore_zero_signs \<and>
      zero (fpregs a ! i) \<and>
      zero (fpregs m ! i) \<and>
      (fpregs a ! i AND NOT (push_bit 63 1)) = (fpregs m ! i AND NOT (push_bit 63 1)))"

definition fp_rule_inf_div_inf :: fp_rule where
  "fp_rule_inf_div_inf opts m a rt ra rb rc i =
     (fp_opt opts fp_opt_ignore_inf_div_inf \<and>
      (insn_is (prev_insn m) 0xfc0007fe 0xfc000024 \<or> \<comment> \<open>fdiv\<close>
       insn_is (prev_insn m) 0xfc0007fe 0xec000024 \<comment> \<open>fdivs\<close>) \<and>
      rt = i \<and>
      infinite_fp (fpregs a ! ra) \<and>
      infinite_fp (fpregs a ! rb))"

definition fp_rule_QNaN_SNaN :: fp_rule where
  "fp_rule_QNaN_SNaN opts m a rt ra rb rc i =
     (fp_opt opts fp_opt_ignore_QNaN_SNaN \<and>
      insn_is (prev_insn m) 0xfc0007fe 0xfc000024 \<and>
      rt = i \<and>
      is_nan (fpregs a ! i) \<and>
      is_nan (fpregs m ! i))"

definition fp_rule_NaN_unknown_operands :: fp_rule where
  "fp_rule_NaN_unknown_operands opts m a rt ra rb rc i =
     (fp_opt opts fp_opt_ignore_NaN_unknown_operands \<and>
      (insn_is (prev_insn m) 0xfc00003e 0xfc00003a \<or> \<comment> \<open>fmadd\<close>
       insn_is (prev_insn m) 0xfc00003e 0xfc000038 \<or> \<comment> \<open>fmsub\<close>
       insn_is (prev_insn m) 0xfc00003e 0xfc00003e \<or> \<comment> \<open>fnmadd\<close>
       insn_is (prev_insn m) 0xfc00003e 0xfc00003c \<or> \<comment> \<open>fnmsub\<close>
       insn_is (prev_insn m) 0xfc00003e 0xec00003a \<or> \<comment> \<open>fmadds\<close>
       insn_is (prev_insn m) 0xfc00003e 0xec000038 \<or> \<comment> \<open>fmsubs\<close>
       insn_is (prev_insn m) 0xfc00003e 0xec00003e \<or> \<comment> \<open>fnmadds\<close>
       insn_is (prev_insn m) 0xfc00003e 0xec00003c \<comment> \<open>fnmsubs\<close>) \<and>
      rt = i \<and>
      is_nan (fpregs a ! i) \<and>
      (ra = i \<or>
       rb = i \<or>
       rc = i))"

definition fpreg_excused :: fp_rule_abs where
  "fpreg_excused opts m a rt ra rb rc i =
     orElse
      (Inr (masked_out (fpregs_mask opts) i \<or>
       fp_rule_QNaN opts m a rt ra rb rc i \<or>
       fp_rule_NaN_operand opts m a rt ra rb rc i \<or>
       fp_rule_opposite_inf_operands opts m a rt ra rb rc i \<or>
       fp_rule_inf_x_0_operands opts m a rt ra rb rc i \<or>
       fp_rule_div_zero opts m a rt ra rb rc i))
     (orElse (fp_rule_underflow opts m a rt ra rb rc i)
     (orElse (fp_rule_overflow opts m a rt ra rb rc i)
     (orElse (fp_rule_round opts m a rt ra rb rc i)
     (orElse (fp_rule_round_s opts m a rt ra rb rc i)
      (Inr (fp_rule_rsqrt opts m a rt ra rb rc i \<or>
       fp_rule_qnan_from opts m a rt ra rb rc i \<or>
       fp_rule_inf_from_unknown opts m a rt ra rb rc i \<or>
       fp_rule_zero_signs opts m a rt ra rb rc i \<or>
       fp_rule_inf_div_inf opts m a rt ra rb rc i \<or>
       fp_rule_QNaN_SNaN opts m a rt ra rb rc i \<or>
       fp_rule_NaN_unknown_operands opts m a rt ra rb rc i))))))"

section \<open>What the rules have in common\<close>

lemma orElse_simps [simp]:
  "orElse (Inr True) q = Inr True"
  "orElse (Inr False) q = q"
  "orElse (Inl e) q = Inl e"
  by (simp_all add: orElse_def)

lemma orElse_eq_Inl: "orElse p q = Inl e \<longleftrightarrow> p = Inl e \<or> p = Inr False \<and> q = Inl e"
  by (cases p) (auto simp: orElse_def)

lemma orElse_Inr [simp]: "orElse p (Inr False) = p" "orElse (Inr b) (Inr c) = Inr (b \<or> c)"
  by (cases p) (auto simp: orElse_def)

lemma provided_simps [simp]: "provided True p = p" "provided False p = Inr False"
  by (simp_all add: provided_def)

lemma provided_eq_Inl: "provided b p = Inl e \<longleftrightarrow> b \<and> p = Inl e"
  by (simp add: provided_def)

lemma abs_test_eq_Inl: "abs_test x P = Inl e \<longleftrightarrow> e = Signed_Overflow \<and> x = push_bit 63 1"
  unfolding abs_test_def andThen_eq_Inl ABS_Inl by blast

lemmas fp_rule_other_defs = fp_rule_QNaN_def fp_rule_NaN_operand_def fp_rule_opposite_inf_operands_def
  fp_rule_inf_x_0_operands_def fp_rule_div_zero_def fp_rule_underflow_def fp_rule_overflow_def
  fp_rule_rsqrt_def fp_rule_qnan_from_def fp_rule_inf_from_unknown_def fp_rule_zero_signs_def
  fp_rule_inf_div_inf_def fp_rule_QNaN_SNaN_def fp_rule_NaN_unknown_operands_def

lemmas fp_rule_defs = fp_rule_other_defs fp_rule_round_def fp_rule_round_s_def

lemmas fp_opt_values = fp_opt_ignore_QNaN_signs_def fp_opt_ignore_QNaN_values_def fp_opt_ignore_QNaN_diffs_def
  fp_opt_ignore_QNaN_load_float_def fp_opt_ignore_NaN_operand_def fp_opt_ignore_opposite_inf_operands_def
  fp_opt_ignore_inf_x_0_operands_def fp_opt_ignore_div_zero_def fp_opt_ignore_underflow_def
  fp_opt_ignore_overflow_def fp_opt_ignore_round_def fp_opt_ignore_round_s_def
  fp_opt_ignore_rsqrt_negative_def fp_opt_ignore_rsqrt_negative_zero_def fp_opt_ignore_rsqrt_zero_def
  fp_opt_ignore_qnan_from_inf_def fp_opt_ignore_qnan_from_unknown_def fp_opt_ignore_inf_from_unknown_def
  fp_opt_ignore_zero_signs_def fp_opt_ignore_inf_div_inf_def fp_opt_ignore_QNaN_SNaN_def
  fp_opt_ignore_NaN_unknown_operands_def

lemma fp_opt_none [simp]: "fp_opts opts = 0 \<Longrightarrow> \<not> fp_opt opts x"
  by (simp add: fp_opt_def)

lemma fpreg_excused_none:
  "fp_opts opts = 0 \<Longrightarrow> fpreg_excused opts m a rt ra rb rc i = Inr (masked_out (fpregs_mask opts) i)"
  by (cases "masked_out (fpregs_mask opts) i") (simp_all add: fpreg_excused_def fp_rule_defs)

text \<open>With one of the rounding options alone, its rule is the only one.\<close>

lemma fpreg_excused_round:
  assumes "fp_opts opts = fp_opt_ignore_round"
  shows "fpreg_excused opts m a rt ra rb rc i =
    orElse (Inr (masked_out (fpregs_mask opts) i)) (fp_rule_round opts m a rt ra rb rc i)"
  by (simp add: fpreg_excused_def fp_rule_other_defs fp_rule_round_s_def fp_opt_def assms fp_opt_values)

lemma fpreg_excused_round_s:
  assumes "fp_opts opts = fp_opt_ignore_round_s"
  shows "fpreg_excused opts m a rt ra rb rc i =
    orElse (Inr (masked_out (fpregs_mask opts) i)) (fp_rule_round_s opts m a rt ra rb rc i)"
  by (simp add: fpreg_excused_def fp_rule_other_defs fp_rule_round_def fp_opt_def assms fp_opt_values)

text \<open>
  Every rule asks for its options positively, so more options excuse more differences: what some options
  excuse is never a difference under more options (the test of another rule may come first and be undefined).
\<close>

definition fp_opts_le :: "ppc_opts \<Rightarrow> ppc_opts \<Rightarrow> bool" where
  "fp_opts_le o1 o2 = (fpregs_mask o1 = fpregs_mask o2 \<and> fp_opts o1 AND NOT (fp_opts o2) = 0)"

lemma fp_opt_iff: "fp_opt opts x \<longleftrightarrow> (\<exists>n. bit (fp_opts opts) n \<and> bit x n)"
  by (auto simp: fp_opt_def bit_eq_iff bit_simps) (use bit_imp_le_length in force)

lemma fp_opts_le_iff:
  "fp_opts_le o1 o2 \<longleftrightarrow>
     fpregs_mask o1 = fpregs_mask o2 \<and> (\<forall>n. bit (fp_opts o1) n \<longrightarrow> bit (fp_opts o2) n)"
  unfolding fp_opts_le_def bit_eq_iff [of "_ AND _"] by (auto simp: bit_simps) (use bit_imp_le_length in force)

lemma fp_opt_mono: "fp_opts_le o1 o2 \<Longrightarrow> fp_opt o1 x \<longrightarrow> fp_opt o2 x"
  by (auto simp: fp_opts_le_iff fp_opt_iff)

definition relaxes :: "cond \<Rightarrow> cond \<Rightarrow> bool" where
  "relaxes p q = (p = Inr True \<longrightarrow> q \<noteq> Inr False)"

lemma relaxes_intros:
  "relaxes p p"
  "b \<longrightarrow> c \<Longrightarrow> relaxes (Inr b) (Inr c)"
  "b \<longrightarrow> c \<Longrightarrow> relaxes p q \<Longrightarrow> relaxes (provided b p) (provided c q)"
  "relaxes p1 q1 \<Longrightarrow> relaxes p2 q2 \<Longrightarrow> relaxes (orElse p1 p2) (orElse q1 q2)"
  by (auto simp: relaxes_def provided_def orElse_def andThen_def split: sum.splits if_splits)

lemma fpreg_excused_mono:
  assumes le: "fp_opts_le o1 o2"
  shows "relaxes (fpreg_excused o1 m a rt ra rb rc i) (fpreg_excused o2 m a rt ra rb rc i)"
proof -
  have mask: "masked_out (fpregs_mask o1) i \<longrightarrow> masked_out (fpregs_mask o2) i"
    using le by (simp add: fp_opts_le_def)
  show ?thesis
    unfolding fpreg_excused_def fp_rule_defs
    by (rule mask imp_refl fp_opt_mono [OF le] conj_mono disj_mono relaxes_intros)+
qed

text \<open>
  Most rules speak of the target register of the previous instruction only: any other register is
  excused by its mask, by the rules on quiet NaNs and single-precision loads, or as a signed zero.
\<close>

lemma fp_rule_target:
  assumes "i \<noteq> rt"
  shows "\<not> fp_rule_NaN_operand opts m a rt ra rb rc i" "\<not> fp_rule_opposite_inf_operands opts m a rt ra rb rc i"
    "\<not> fp_rule_inf_x_0_operands opts m a rt ra rb rc i" "\<not> fp_rule_div_zero opts m a rt ra rb rc i"
    "fp_rule_underflow opts m a rt ra rb rc i = Inr False" "fp_rule_overflow opts m a rt ra rb rc i = Inr False"
    "fp_rule_round opts m a rt ra rb rc i = Inr False" "fp_rule_round_s opts m a rt ra rb rc i = Inr False"
    "\<not> fp_rule_rsqrt opts m a rt ra rb rc i" "\<not> fp_rule_qnan_from opts m a rt ra rb rc i"
    "\<not> fp_rule_inf_from_unknown opts m a rt ra rb rc i" "\<not> fp_rule_inf_div_inf opts m a rt ra rb rc i"
    "\<not> fp_rule_QNaN_SNaN opts m a rt ra rb rc i" "\<not> fp_rule_NaN_unknown_operands opts m a rt ra rb rc i"
  using assms
  by (simp_all add: fp_rule_defs fp_underflow_single_def fp_underflow_sum_product_def
      fp_underflow_div_def fp_underflow_other_def fp_overflow_single_def fp_overflow_double_def provided_def)

lemma fpreg_excused_untouched:
  "i \<noteq> rt \<Longrightarrow> fpreg_excused opts m a rt ra rb rc i =
     Inr (masked_out (fpregs_mask opts) i \<or> fp_rule_QNaN opts m a rt ra rb rc i \<or>
       fp_rule_zero_signs opts m a rt ra rb rc i)"
  by (cases "masked_out (fpregs_mask opts) i \<or> fp_rule_QNaN opts m a rt ra rb rc i")
    (auto simp: fpreg_excused_def fp_rule_target)

section \<open>Where the rules are undefined\<close>

text \<open>
  The rules on underflow and overflow apply \<^verbatim>\<open>ABS\<close> to differences that are small; those on rounding
  apply it to the difference of two registers, which is the least number if just their signs differ.
\<close>

lemma total_intros:
  "Inr b \<noteq> (Inl e :: cond)"
  "p \<noteq> Inl e \<Longrightarrow> q \<noteq> Inl e \<Longrightarrow> orElse p q \<noteq> Inl e"
  "(b \<Longrightarrow> p \<noteq> Inl e) \<Longrightarrow> provided b p \<noteq> Inl e"
  "abs_test (word_of_int (exponent x - exponent y - 192)) P \<noteq> Inl e"
  "abs_test (mantissa x - mantissa y) P \<noteq> Inl e"
  unfolding orElse_eq_Inl provided_eq_Inl abs_test_eq_Inl using exponents_apart significands_apart by blast+

lemma normalized_test:
  "denormalized x \<Longrightarrow> negative x = negative y \<Longrightarrow> abs_test (normalize x - y) P \<noteq> Inl e"
  unfolding abs_test_eq_Inl using same_sign_apart normalize_negative by blast

lemma fp_rule_underflow_total: "fp_rule_underflow opts m a rt ra rb rc i \<noteq> Inl e"
  unfolding fp_rule_underflow_def fp_underflow_sum_product_def fp_underflow_other_def
  by (intro total_intros normalized_test) blast+

lemma fp_rule_overflow_total: "fp_rule_overflow opts m a rt ra rb rc i \<noteq> Inl e"
  unfolding fp_rule_overflow_def fp_overflow_single_def by (intro total_intros)

lemma fp_rule_round_Inl:
  "fp_rule_round opts m a rt ra rb rc i = Inl e \<Longrightarrow> e = Signed_Overflow \<and> fp_opt opts fp_opt_ignore_round \<and>
     i = rt \<and> \<not> anyqnan (fpregs m ! i) \<and> fpregs a ! i = fpregs m ! i XOR push_bit 63 1"
  "fp_rule_round_s opts m a rt ra rb rc i = Inl e \<Longrightarrow> e = Signed_Overflow \<and> fp_opt opts fp_opt_ignore_round_s \<and>
     i = rt \<and> \<not> anyqnan (fpregs m ! i) \<and> fpregs a ! i = fpregs m ! i XOR push_bit 63 1"
  unfolding fp_rule_round_def fp_rule_round_s_def orElse_eq_Inl provided_eq_Inl abs_test_eq_Inl minus_sign_bit
  by blast+

lemma fpreg_excused_Inl:
  assumes "fpreg_excused opts m a rt ra rb rc i = Inl e"
  shows "e = Signed_Overflow \<and> (fp_opt opts fp_opt_ignore_round \<or> fp_opt opts fp_opt_ignore_round_s) \<and>
    i = rt \<and> \<not> anyqnan (fpregs m ! i) \<and> fpregs a ! i = fpregs m ! i XOR push_bit 63 1"
  using assms fp_rule_round_Inl
  unfolding fpreg_excused_def orElse_eq_Inl by (metis fp_rule_underflow_total fp_rule_overflow_total Inr_Inl_False)

end
