(* ===== verification/PPC_Compare.thy ===== *)
theory PPC_Compare
  imports PPC_FpRules "HOL-Library.Signed_Division"
begin

text \<open>
  \<^verbatim>\<open>reginfo_is_eq\<close> of \<^verbatim>\<open>src/risu_reginfo_ppc64.c\<close>: the comparison of the register image of the master with
  the one of the apprentice. The function returns a flag and writes to the apprentice's image, where
  every accepted difference is overwritten by the master's value; both are results here. A division by
  zero, \<^verbatim>\<open>INT64_MIN / -1\<close> and \<^verbatim>\<open>ABS(INT64_MIN)\<close> are undefined, so conditions are values of
  \<^typ>\<open>fault + bool\<close> evaluated left to right.
\<close>

type_synonym outcome = "fault + bool \<times> reginfo"

text \<open>Leave the function on a mismatch, go on with the updated image otherwise.\<close>

definition whenEq :: "outcome \<Rightarrow> (reginfo \<Rightarrow> outcome) \<Rightarrow> outcome" where
  "whenEq r f = andThen r (\<lambda>(eq, a). if eq then f a else Inr (False, a))"

section \<open>General registers\<close>

definition local_gregs_mask :: "ppc_opts \<Rightarrow> reginfo \<Rightarrow> u32" where
  "local_gregs_mask opts a =
     (if get_risuop a = OP_SIGILL \<and>
         (insn_is (next_insn a) 0xfc000000 0x38000000 \<or> \<comment> \<open>addi or li\<close>
          insn_is (next_insn a) 0xfc0007ff 0x7c000050 \<comment> \<open>subf\<close>)
      then gregs_mask opts AND NOT (push_bit (31 - insn_rt (next_insn a)) 1)
      else gregs_mask opts)"

definition field5 :: "u32 \<Rightarrow> nat \<Rightarrow> nat" where
  "field5 w k = unat (drop_bit k w AND 31)"

definition quotient_test :: "int \<Rightarrow> bool" where
  "quotient_test q = (((q div 2 ^ 31) + 1) AND NOT 1 \<noteq> 0)"

text \<open>The operator \<^verbatim>\<open>/\<close> of \<^verbatim>\<open>int64_t\<close>, which truncates towards zero where it is defined.\<close>

definition c_div64 :: "int \<Rightarrow> int \<Rightarrow> fault + int" where
  "c_div64 n d =
     (if d = 0 then Inl Division_By_Zero
      else if n = - (2 ^ 63) \<and> d = - 1 then Inl Division_Overflow
      else Inr (n sdiv d))"

definition div_unpredictable :: "reginfo \<Rightarrow> nat \<Rightarrow> nat \<Rightarrow> nat \<Rightarrow> cond" where
  "div_unpredictable m rt ra rb =
     (if ra = rt \<or> rb = rt \<or> gregs m ! rb = 0 then Inr True
      else
        andThen
          (c_div64
            (sint (push_bit 32 (ucast (gregs m ! ra)) OR ucast (gregs m ! risu_MQ) :: u64))
            (sint (gregs m ! rb)))
          (\<lambda>q. Inr (quotient_test q)))"

definition divs_unpredictable :: "reginfo \<Rightarrow> nat \<Rightarrow> nat \<Rightarrow> nat \<Rightarrow> cond" where
  "divs_unpredictable m rt ra rb =
     (if ra = rt \<or> rb = rt \<or> gregs m ! rb = 0 then Inr True
      else
        andThen (c_div64 (sint (gregs m ! ra)) (sint (gregs m ! rb)))
          (\<lambda>q. Inr (quotient_test q)))"

definition lscbx_tail :: "reginfo \<Rightarrow> reginfo \<Rightarrow> nat \<Rightarrow> bool" where
  "lscbx_tail m a i =
     (let xer = gregs m ! risu_XER
      in insn_is (second_prev_insn m) 0xfc0007fe 0x7c00022a \<and>
         xer AND 3 \<noteq> 0 \<and>
         of_nat i = (drop_bit 21 (second_prev_insn m) + ((xer AND 0x7F) - 1) div 4) AND 31 \<and>
         drop_bit (32 - 8 * unat (xer AND 3)) (gregs m ! i XOR gregs a ! i) = 0)"

definition gpr_excused :: "reginfo \<Rightarrow> reginfo \<Rightarrow> nat \<Rightarrow> nat \<Rightarrow> nat \<Rightarrow> nat \<Rightarrow> cond" where
  "gpr_excused m a rt ra rb i =
     orElse
       (Inr (insn_is (prev_insn m) 0xfc1fffff 0x7c0802a6 \<and> \<comment> \<open>mflr\<close>
             rt = i \<and>
             gregs m ! i - gregs m ! risu_NIP = gregs a ! i - gregs a ! risu_NIP))
    (orElse
       (if insn_is (prev_insn m) 0xfc0003fe 0x7c000296 \<and> rt = i \<comment> \<open>div\<close>
        then div_unpredictable m rt ra rb else Inr False)
    (orElse
       (if insn_is (prev_insn m) 0xfc0003fe 0x7c0002d6 \<and> rt = i \<comment> \<open>divs\<close>
        then divs_unpredictable m rt ra rb else Inr False)
       (Inr (lscbx_tail m a i))))"

fun compare_gprs :: "u32 \<Rightarrow> reginfo \<Rightarrow> nat \<Rightarrow> nat \<Rightarrow> nat \<Rightarrow> nat list \<Rightarrow> reginfo \<Rightarrow> outcome" where
  "compare_gprs msk m rt ra rb [] a = Inr (True, a)"
| "compare_gprs msk m rt ra rb (i # is) a =
     (if gregs m ! i = gregs a ! i \<or> masked_out msk i then compare_gprs msk m rt ra rb is a
      else andThen (gpr_excused m a rt ra rb i) (\<lambda>ok.
        if ok then compare_gprs msk m rt ra rb is (a\<lparr>gregs := (gregs a)[i := gregs m ! i]\<rparr>)
        else Inr (False, a)))"

section \<open>Special registers\<close>

definition compare_xer :: "ppc_opts \<Rightarrow> reginfo \<Rightarrow> reginfo \<Rightarrow> outcome" where
  "compare_xer opts m a =
     (if gregs m ! risu_XER \<noteq> gregs a ! risu_XER then
        if gregs m ! risu_XER AND xer_mask opts = gregs a ! risu_XER AND xer_mask opts
        then Inr (True, a\<lparr>gregs := (gregs a)[risu_XER := gregs m ! risu_XER]\<rparr>)
        else Inr (False, a)
      else Inr (True, a))"

definition compare_lnk :: "reginfo \<Rightarrow> reginfo \<Rightarrow> outcome" where
  "compare_lnk m a =
     Inr (gregs m ! risu_LNK - gregs m ! risu_NIP = gregs a ! risu_LNK - gregs a ! risu_NIP, a)"

definition compare_ctr :: "reginfo \<Rightarrow> reginfo \<Rightarrow> outcome" where
  "compare_ctr m a = Inr (gregs m ! risu_CTR = gregs a ! risu_CTR, a)"

text \<open>Copy four bits of \<open>src\<close>, at condition field \<open>f\<close> (a multiple of four), to field \<open>t\<close> of \<open>msk\<close>.\<close>

definition copy_field :: "u32 \<Rightarrow> u32 \<Rightarrow> nat \<Rightarrow> nat \<Rightarrow> u32" where
  "copy_field msk src f t =
     (msk AND NOT (push_bit (28 - t) 15)) OR push_bit (28 - t) (drop_bit (28 - f) src AND 15)"

definition ccr_effective_mask :: "ppc_opts \<Rightarrow> reginfo \<Rightarrow> nat \<Rightarrow> nat \<Rightarrow> nat \<Rightarrow> fault + u32" where
  "ccr_effective_mask opts m rt ra rb =
     (if insn_is (prev_insn m) 0xfc6007bf 0xfc000000 then \<comment> \<open>fcmpo or fcmpu\<close>
        (let crf = unat (drop_bit 21 (prev_insn m) AND 0x1c); cr1 = 4
         in Inr (copy_field (ccr_mask opts) (ccr_mask opts) cr1 crf AND ccr_mask opts))
      else if insn_is (prev_insn m) 0xfc63ffff 0xfc000080 then \<comment> \<open>mcrfs\<close>
        (let bf = unat (drop_bit 21 (prev_insn m) AND 0x1c);
             bfa = unat (drop_bit 16 (prev_insn m) AND 0x1c)
         in Inr (copy_field (ccr_mask opts) (fpscr_mask opts) bfa bf AND ccr_mask opts))
      else
        andThen
          (if insn_is (prev_insn m) 0xfc0003ff 0x7c000297 \<comment> \<open>div.\<close>
           then div_unpredictable m rt ra rb else Inr False)
          (\<lambda>u. Inr (if u then 0x1fffffff AND ccr_mask opts else ccr_mask opts)))"

definition compare_ccr :: "ppc_opts \<Rightarrow> reginfo \<Rightarrow> nat \<Rightarrow> nat \<Rightarrow> nat \<Rightarrow> reginfo \<Rightarrow> outcome" where
  "compare_ccr opts m rt ra rb a =
     (if gregs m ! risu_CCR \<noteq> gregs a ! risu_CCR then
        andThen (ccr_effective_mask opts m rt ra rb) (\<lambda>msk.
          if gregs m ! risu_CCR AND msk = gregs a ! risu_CCR AND msk
          then Inr (True, a\<lparr>gregs := (gregs a)[risu_CCR := gregs m ! risu_CCR]\<rparr>)
          else Inr (False, a))
      else Inr (True, a))"

definition mq_excused :: "ppc_opts \<Rightarrow> nat \<Rightarrow> reginfo \<Rightarrow> nat \<Rightarrow> nat \<Rightarrow> nat \<Rightarrow> reginfo \<Rightarrow> cond" where
  "mq_excused opts signal_count m rt ra rb a =
     orElse (Inr (gregs m ! risu_MQ AND mq_mask opts = gregs a ! risu_MQ AND mq_mask opts))
    (orElse
       (if insn_is (prev_insn m) 0xfc0003fe 0x7c000296 \<comment> \<open>div\<close>
        then div_unpredictable m rt ra rb else Inr False)
       (Inr (cpu_opts opts AND cpu_opt_use_601 \<noteq> 0 \<and>
             (insn_is (prev_insn m) 0xfc000000 0x1c000000 \<or> \<comment> \<open>mulli\<close>
              insn_is (prev_insn m) 0xfc0003fe 0x7c0001d6 \<or> \<comment> \<open>mullw\<close>
              insn_is (prev_insn m) 0xfc0007fe 0x7c000096 \<or> \<comment> \<open>mulhw\<close>
              insn_is (prev_insn m) 0xfc0007fe 0x7c000016 \<or> \<comment> \<open>mulhwu\<close>
              insn_is (prev_insn m) 0xfc0003fe 0x7c0003d6 \<or> \<comment> \<open>divw\<close>
              insn_is (prev_insn m) 0xfc0003fe 0x7c000396 \<comment> \<open>divwu\<close>) \<or>
             signal_count \<le> 1)))"

definition compare_mq :: "ppc_opts \<Rightarrow> nat \<Rightarrow> reginfo \<Rightarrow> nat \<Rightarrow> nat \<Rightarrow> nat \<Rightarrow> reginfo \<Rightarrow> outcome" where
  "compare_mq opts signal_count m rt ra rb a =
     (if gregs m ! risu_MQ \<noteq> gregs a ! risu_MQ then
        andThen (mq_excused opts signal_count m rt ra rb a) (\<lambda>ok.
          if ok then Inr (True, a\<lparr>gregs := (gregs a)[risu_MQ := gregs m ! risu_MQ]\<rparr>)
          else Inr (False, a))
      else Inr (True, a))"

definition compare_fpscr :: "ppc_opts \<Rightarrow> reginfo \<Rightarrow> reginfo \<Rightarrow> outcome" where
  "compare_fpscr opts m a =
     (if fpscr m \<noteq> fpscr a then
        if fpscr m AND fpscr_mask opts = fpscr a AND fpscr_mask opts
        then Inr (True, a\<lparr>fpscr := fpscr m\<rparr>)
        else Inr (False, a)
      else Inr (True, a))"

section \<open>Floating point registers, and the whole comparison\<close>

fun compare_fpregs ::
  "ppc_opts \<Rightarrow> reginfo \<Rightarrow> nat \<Rightarrow> nat \<Rightarrow> nat \<Rightarrow> nat \<Rightarrow> nat list \<Rightarrow> reginfo \<Rightarrow> outcome" where
  "compare_fpregs opts m rt ra rb rc [] a = Inr (True, a)"
| "compare_fpregs opts m rt ra rb rc (i # is) a =
     (if fpregs m ! i \<noteq> fpregs a ! i then
        andThen (fpreg_excused opts m a rt ra rb rc i) (\<lambda>ok.
          if ok then compare_fpregs opts m rt ra rb rc is (a\<lparr>fpregs := (fpregs a)[i := fpregs m ! i]\<rparr>)
          else Inr (False, a))
      else compare_fpregs opts m rt ra rb rc is a)"

definition reginfo_is_eq :: "ppc_opts \<Rightarrow> nat \<Rightarrow> reginfo \<Rightarrow> reginfo \<Rightarrow> outcome" where
  "reginfo_is_eq opts signal_count m a =
     (let msk = local_gregs_mask opts a;
          rt = field5 (prev_insn m) 21;
          ra = field5 (prev_insn m) 16;
          rb = field5 (prev_insn m) 11;
          rc = field5 (prev_insn m) 6
      in whenEq (compare_gprs msk m rt ra rb [0..<32] a)
        (\<lambda>a. whenEq (compare_xer opts m a)
        (\<lambda>a. whenEq (compare_lnk m a)
        (\<lambda>a. whenEq (compare_ctr m a)
        (\<lambda>a. whenEq (compare_ccr opts m rt ra rb a)
        (\<lambda>a. whenEq (compare_mq opts signal_count m rt ra rb a)
        (\<lambda>a. whenEq (compare_fpscr opts m a)
        (\<lambda>a. compare_fpregs opts m rt ra rb rc [0..<32] a))))))))"

section \<open>Each stage: what an accepted image looks like\<close>

lemma field5_less: "field5 w k < 32"
  using word_and_le1 [of "drop_bit k w" "31 :: u32"] by (simp add: field5_def word_le_nat_alt)

lemma whenEq_simps [simp]:
  "whenEq (Inr (True, a)) f = f a"
  "whenEq (Inr (False, a)) f = Inr (False, a)"
  "whenEq (Inl e) f = Inl e"
  by (simp_all add: whenEq_def)

lemma whenEq_True [simp]: "whenEq r f = Inr (True, b) \<longleftrightarrow> (\<exists>a. r = Inr (True, a) \<and> f a = Inr (True, b))"
  by (cases r) (auto simp: whenEq_def split: if_splits)

lemma whenEq_Inl: "whenEq r f = Inl e \<longleftrightarrow> r = Inl e \<or> (\<exists>a. r = Inr (True, a) \<and> f a = Inl e)"
  by (cases r) (auto simp: whenEq_def split: if_splits)

lemma compare_gprs_result:
  assumes "compare_gprs msk m rt ra rb is a = Inr (True, a')" "\<forall>i\<in>set is. i < length (gregs a)"
  shows "\<exists>g. a' = a\<lparr>gregs := g\<rparr> \<and> length g = length (gregs a) \<and>
           (\<forall>j. g ! j = (if j \<in> set is \<and> \<not> masked_out msk j then gregs m ! j else gregs a ! j))"
  using assms
proof (induction "is" arbitrary: a)
  case Nil
  then show ?case by (intro exI [of _ "gregs a"]) auto
next
  case (Cons i "is")
  show ?case
  proof (cases "gregs m ! i = gregs a ! i \<or> masked_out msk i")
    case True
    with Cons.prems have "compare_gprs msk m rt ra rb is a = Inr (True, a')" by auto
    from Cons.IH [OF this] Cons.prems(2) True show ?thesis by fastforce
  next
    case False
    let ?b = "a\<lparr>gregs := (gregs a)[i := gregs m ! i]\<rparr>"
    from False Cons.prems have "compare_gprs msk m rt ra rb is ?b = Inr (True, a')"
      by (auto split: if_splits)
    from Cons.IH [OF this] Cons.prems(2) obtain g where
      g: "a' = ?b\<lparr>gregs := g\<rparr>" "length g = length (gregs a)"
        "\<forall>j. g ! j = (if j \<in> set is \<and> \<not> masked_out msk j then gregs m ! j else gregs ?b ! j)"
      by auto
    with False Cons.prems(2) show ?thesis
      by (intro exI [of _ g]) (auto simp: nth_list_update)
  qed
qed

lemma compare_fpregs_result:
  assumes "compare_fpregs opts m rt ra rb rc is a = Inr (True, a')" "\<forall>i\<in>set is. i < length (fpregs a)"
  shows "\<exists>f. a' = a\<lparr>fpregs := f\<rparr> \<and> length f = length (fpregs a) \<and>
           (\<forall>j. f ! j = (if j \<in> set is then fpregs m ! j else fpregs a ! j))"
  using assms
proof (induction "is" arbitrary: a)
  case Nil
  then show ?case by (intro exI [of _ "fpregs a"]) auto
next
  case (Cons i "is")
  show ?case
  proof (cases "fpregs m ! i = fpregs a ! i")
    case True
    with Cons.prems have "compare_fpregs opts m rt ra rb rc is a = Inr (True, a')" by auto
    from Cons.IH [OF this] Cons.prems(2) True show ?thesis by fastforce
  next
    case False
    let ?b = "a\<lparr>fpregs := (fpregs a)[i := fpregs m ! i]\<rparr>"
    from False Cons.prems have "compare_fpregs opts m rt ra rb rc is ?b = Inr (True, a')"
      by (auto split: if_splits)
    from Cons.IH [OF this] Cons.prems(2) obtain f where
      f: "a' = ?b\<lparr>fpregs := f\<rparr>" "length f = length (fpregs a)"
        "\<forall>j. f ! j = (if j \<in> set is then fpregs m ! j else fpregs ?b ! j)"
      by auto
    with False Cons.prems(2) show ?thesis
      by (intro exI [of _ f]) (auto simp: nth_list_update)
  qed
qed

lemma special_result:
  "compare_xer opts m a = Inr (True, b) \<Longrightarrow> risu_XER < length (gregs a) \<Longrightarrow>
     b = a\<lparr>gregs := (gregs a)[risu_XER := gregs m ! risu_XER]\<rparr>"
  "compare_lnk m a = Inr (True, b) \<Longrightarrow>
     b = a \<and> gregs m ! risu_LNK - gregs m ! risu_NIP = gregs a ! risu_LNK - gregs a ! risu_NIP"
  "compare_ctr m a = Inr (True, b) \<Longrightarrow> b = a \<and> gregs m ! risu_CTR = gregs a ! risu_CTR"
  "compare_ccr opts m rt ra rb a = Inr (True, b) \<Longrightarrow> risu_CCR < length (gregs a) \<Longrightarrow>
     b = a\<lparr>gregs := (gregs a)[risu_CCR := gregs m ! risu_CCR]\<rparr>"
  "compare_mq opts n m rt ra rb a = Inr (True, b) \<Longrightarrow> risu_MQ < length (gregs a) \<Longrightarrow>
     b = a\<lparr>gregs := (gregs a)[risu_MQ := gregs m ! risu_MQ]\<rparr>"
  "compare_fpscr opts m a = Inr (True, b) \<Longrightarrow> b = a\<lparr>fpscr := fpscr m\<rparr>"
  by (auto simp: compare_xer_def compare_lnk_def compare_ctr_def compare_ccr_def compare_mq_def
      compare_fpscr_def split: if_splits)

section \<open>The image after an accepted comparison\<close>

text \<open>
  What the apprentice's image becomes: the master's value in every general register that is not masked
  out, in XER, CTR, CCR and MQ, and in all of the floating point state.
\<close>

definition taken_over :: "u32 \<Rightarrow> nat \<Rightarrow> bool" where
  "taken_over msk j =
     (j < 32 \<and> \<not> masked_out msk j \<or> j = risu_XER \<or> j = risu_CTR \<or> j = risu_CCR \<or> j = risu_MQ)"

definition accepted :: "ppc_opts \<Rightarrow> reginfo \<Rightarrow> reginfo \<Rightarrow> reginfo" where
  "accepted opts m a =
     a\<lparr>gregs := map (\<lambda>j. if taken_over (local_gregs_mask opts a) j then gregs m ! j else gregs a ! j) [0..<risu_NGREG],
       fpregs := fpregs m, fpscr := fpscr m\<rparr>"

definition regs_agree :: "ppc_opts \<Rightarrow> reginfo \<Rightarrow> reginfo \<Rightarrow> bool" where
  "regs_agree opts m a =
     ((\<forall>j\<in>set [0..<risu_NGREG]. taken_over (local_gregs_mask opts a) j \<longrightarrow> gregs m ! j = gregs a ! j) \<and>
      gregs m ! risu_LNK - gregs m ! risu_NIP = gregs a ! risu_LNK - gregs a ! risu_NIP \<and>
      fpscr m = fpscr a \<and> fpregs m = fpregs a)"

lemma reginfo_is_eq_stages:
  assumes "reginfo_is_eq opts n m a = Inr (True, a')"
  obtains a1 a2 a3 a4 a5 a6 a7 where
    "compare_gprs (local_gregs_mask opts a) m (field5 (prev_insn m) 21) (field5 (prev_insn m) 16)
       (field5 (prev_insn m) 11) [0..<32] a = Inr (True, a1)"
    "compare_xer opts m a1 = Inr (True, a2)" "compare_lnk m a2 = Inr (True, a3)" "compare_ctr m a3 = Inr (True, a4)"
    "compare_ccr opts m (field5 (prev_insn m) 21) (field5 (prev_insn m) 16) (field5 (prev_insn m) 11) a4 = Inr (True, a5)"
    "compare_mq opts n m (field5 (prev_insn m) 21) (field5 (prev_insn m) 16) (field5 (prev_insn m) 11) a5 = Inr (True, a6)"
    "compare_fpscr opts m a6 = Inr (True, a7)"
    "compare_fpregs opts m (field5 (prev_insn m) 21) (field5 (prev_insn m) 16) (field5 (prev_insn m) 11)
       (field5 (prev_insn m) 6) [0..<32] a7 = Inr (True, a')"
  using assms by (auto simp: reginfo_is_eq_def Let_def)

lemma reginfo_is_eq_accepts:
  assumes "reginfo_is_eq opts n m a = Inr (True, a')" "wf_reginfo m" "wf_reginfo a"
  shows "a' = accepted opts m a"
    and "gregs m ! risu_LNK - gregs m ! risu_NIP = gregs a ! risu_LNK - gregs a ! risu_NIP"
    and "gregs m ! risu_CTR = gregs a ! risu_CTR"
proof -
  let ?msk = "local_gregs_mask opts a"
  from assms(1) obtain a1 a2 a3 a4 a5 a6 a7 rt ra rb rc where
    1: "compare_gprs ?msk m rt ra rb [0..<32] a = Inr (True, a1)" and
    2: "compare_xer opts m a1 = Inr (True, a2)" and 3: "compare_lnk m a2 = Inr (True, a3)" and
    4: "compare_ctr m a3 = Inr (True, a4)" and 5: "compare_ccr opts m rt ra rb a4 = Inr (True, a5)" and
    6: "compare_mq opts n m rt ra rb a5 = Inr (True, a6)" and 7: "compare_fpscr opts m a6 = Inr (True, a7)" and
    8: "compare_fpregs opts m rt ra rb rc [0..<32] a7 = Inr (True, a')"
    by (rule reginfo_is_eq_stages)
  have la: "length (gregs a) = 41" "length (fpregs a) = 32" "length (fpregs m) = 32"
    using assms(2,3) by (simp_all add: wf_reginfo_def risu_reg_index)
  obtain g where g: "a1 = a\<lparr>gregs := g\<rparr>" "length g = 41"
    "\<And>j. g ! j = (if j < 32 \<and> \<not> masked_out ?msk j then gregs m ! j else gregs a ! j)"
    using compare_gprs_result [OF 1] la by auto
  have a2: "a2 = a\<lparr>gregs := g[risu_XER := gregs m ! risu_XER]\<rparr>"
    using special_result(1) [OF 2] g(1,2) by (simp add: risu_reg_index)
  have a3: "a3 = a2" and lnk: "gregs m ! risu_LNK - gregs m ! risu_NIP = gregs a2 ! risu_LNK - gregs a2 ! risu_NIP"
    using special_result(2) [OF 3] by auto
  have a4: "a4 = a2" and ctr: "gregs m ! risu_CTR = gregs a2 ! risu_CTR"
    using special_result(3) [OF 4] a3 by auto
  show "gregs m ! risu_LNK - gregs m ! risu_NIP = gregs a ! risu_LNK - gregs a ! risu_NIP"
    and ctr': "gregs m ! risu_CTR = gregs a ! risu_CTR"
    using lnk ctr g(3) by (simp_all add: a2 risu_reg_index)
  let ?h = "g[risu_XER := gregs m ! risu_XER, risu_CCR := gregs m ! risu_CCR, risu_MQ := gregs m ! risu_MQ]"
  have a5: "a5 = a\<lparr>gregs := g[risu_XER := gregs m ! risu_XER, risu_CCR := gregs m ! risu_CCR]\<rparr>"
    using special_result(4) [OF 5] g(2) by (simp add: a4 a2 risu_reg_index)
  have a6: "a6 = a\<lparr>gregs := ?h\<rparr>"
    using special_result(5) [OF 6] g(2) by (simp add: a5 risu_reg_index)
  have a7: "a7 = a\<lparr>gregs := ?h, fpscr := fpscr m\<rparr>"
    using special_result(6) [OF 7] by (simp add: a6)
  obtain f where f: "a' = a7\<lparr>fpregs := f\<rparr>" "length f = 32" "\<And>j. j < 32 \<Longrightarrow> f ! j = fpregs m ! j"
    using compare_fpregs_result [OF 8] la by (auto simp: a7)
  have fm: "f = fpregs m" using f la by (intro nth_equalityI) auto
  have "?h = map (\<lambda>j. if taken_over ?msk j then gregs m ! j else gregs a ! j) [0..<risu_NGREG]"
    using g(2,3) ctr'
    by (intro nth_equalityI) (auto simp: taken_over_def nth_list_update risu_reg_index)
  with f(1) fm show "a' = accepted opts m a" by (simp add: a7 accepted_def)
qed

lemma local_gregs_mask_cong:
  "next_insn a = next_insn b \<Longrightarrow> faulting_insn a = faulting_insn b \<Longrightarrow>
     local_gregs_mask opts a = local_gregs_mask opts b"
  by (simp only: local_gregs_mask_def get_risuop_def)

lemma compare_gprs_agree:
  "\<forall>i\<in>set is. \<not> masked_out msk i \<longrightarrow> gregs m ! i = gregs a ! i \<Longrightarrow>
     compare_gprs msk m rt ra rb is a = Inr (True, a)"
  by (induction "is") auto

lemma compare_fpregs_agree:
  "\<forall>i\<in>set is. fpregs m ! i = fpregs a ! i \<Longrightarrow> compare_fpregs opts m rt ra rb rc is a = Inr (True, a)"
  by (induction "is") auto

text \<open>If all but the floating point registers agree, their comparison is what is left.\<close>

lemma reginfo_is_eq_fp_only:
  assumes "regs_agree opts m (a\<lparr>fpregs := fpregs m\<rparr>)"
  shows "reginfo_is_eq opts n m a =
    compare_fpregs opts m (field5 (prev_insn m) 21) (field5 (prev_insn m) 16) (field5 (prev_insn m) 11)
      (field5 (prev_insn m) 6) [0..<32] a"
proof -
  have "local_gregs_mask opts (a\<lparr>fpregs := fpregs m\<rparr>) = local_gregs_mask opts a"
    by (rule local_gregs_mask_cong) simp_all
  then have g: "\<And>j. j < risu_NGREG \<Longrightarrow> taken_over (local_gregs_mask opts a) j \<Longrightarrow> gregs m ! j = gregs a ! j"
    using assms by (auto simp: regs_agree_def)
  have sp: "gregs m ! risu_XER = gregs a ! risu_XER" "gregs m ! risu_CTR = gregs a ! risu_CTR"
    "gregs m ! risu_CCR = gregs a ! risu_CCR" "gregs m ! risu_MQ = gregs a ! risu_MQ"
    by (rule g; simp add: taken_over_def risu_reg_index)+
  have "compare_gprs (local_gregs_mask opts a) m rt ra rb [0..<32] a = Inr (True, a)" for rt ra rb
    using g by (intro compare_gprs_agree) (auto simp: taken_over_def risu_reg_index)
  moreover have "gregs m ! risu_LNK - gregs m ! risu_NIP = gregs a ! risu_LNK - gregs a ! risu_NIP"
    "fpscr m = fpscr a" using assms by (simp_all add: regs_agree_def)
  ultimately show ?thesis
    using sp by (simp add: reginfo_is_eq_def Let_def compare_xer_def compare_lnk_def compare_ctr_def
        compare_ccr_def compare_mq_def compare_fpscr_def)
qed

lemma reginfo_is_eq_agree:
  assumes "regs_agree opts m a"
  shows "reginfo_is_eq opts n m a = Inr (True, a)"
proof -
  have f: "fpregs m = fpregs a" using assms by (simp add: regs_agree_def)
  then have "regs_agree opts m (a\<lparr>fpregs := fpregs m\<rparr>)" using assms by simp
  from reginfo_is_eq_fp_only [OF this] show ?thesis using f by (simp add: compare_fpregs_agree)
qed

lemma regs_agree_accepted:
  assumes "gregs m ! risu_LNK - gregs m ! risu_NIP = gregs a ! risu_LNK - gregs a ! risu_NIP"
  shows "regs_agree opts m (accepted opts m a)"
proof -
  have "local_gregs_mask opts (accepted opts m a) = local_gregs_mask opts a"
    by (rule local_gregs_mask_cong) (simp_all add: accepted_def)
  with assms show ?thesis
    by (auto simp: regs_agree_def accepted_def taken_over_def risu_reg_index)
qed

text \<open>
  Writing back: the image after an accepted comparison, put into the context, is the image of that context.
\<close>

lemma local_mask_smaller:
  "i < 32 \<Longrightarrow> masked_out (gregs_mask opts) i \<Longrightarrow> masked_out (local_gregs_mask opts a) i"
  by (auto simp: masked_out_iff local_gregs_mask_def bit_simps)

lemma reginfo_init_accepted:
  assumes "reginfo_init env uc siaddr = Inr a" "wf_ctx uc" "wf_reginfo m"
    "gregs m ! risu_CTR = gregs a ! risu_CTR"
  shows "reginfo_init env (reginfo_update opts (accepted opts m a) uc) siaddr = Inr (accepted opts m a)"
proof -
  let ?a = "accepted opts m a"
  let ?u = "reginfo_update opts ?a uc"
  note I = reginfo_init_cases [OF assms(1,2)]
  have len: "length (uc_gpr uc) = 32" "length (fpregs m) = 32" using assms(2,3) by (simp_all add: wf_ctx_def wf_reginfo_def)
  have A: "gregs ?a ! j = (if taken_over (local_gregs_mask opts a) j then gregs m ! j else gregs a ! j)" if "j < 41" for j
    using that by (simp add: accepted_def risu_reg_index)
  have g: "update_gprs (gregs_mask opts) (gregs ?a) [0..<32] (uc_gpr uc) ! j = gregs ?a ! j" if "j < 32" for j
    using that A [of j] local_mask_smaller [of j opts a] len
    by (auto simp: nth_update_gprs taken_over_def risu_reg_index I(1) nth_append)
  have f: "fetch_insn env ?u x = fetch_insn env uc x" for x
    by (simp add: fetch_insn_def read_mem_def reginfo_update_def)
  have u: "uc_pc ?u = uc_pc uc" "uc_msr ?u = uc_msr uc" "uc_ctr ?u = uc_ctr uc" "uc_lnk ?u = uc_lnk uc"
    "uc_dar ?u = uc_dar uc" "uc_dsisr ?u = uc_dsisr uc" "get_uc_pc ?u siaddr = get_uc_pc uc siaddr"
    "uc_fpr ?u = fpregs m" "uc_fpscr ?u = fpscr m"
    by (simp_all add: reginfo_update_def get_uc_pc_def accepted_def)
  have upt: "[0..<41] = [0..<32] @ [32, 33, 34, 35, 36, 37, 38, 39, 40]" by (simp add: upt_rec)
  have "gregs ?a = map (\<lambda>j. gregs ?a ! j) [0..<41]" by (subst map_nth [symmetric]) (simp add: accepted_def risu_reg_index)
  also have "\<dots> = map (\<lambda>i. uc_gpr ?u ! i) [0..<32] @
      [uc_pc uc, uc_msr uc, uc_ctr uc, uc_lnk uc, uc_xer ?u, uc_ccr ?u, uc_mq ?u, uc_dar uc, uc_dsisr uc]"
    using assms(4) len(1) unfolding upt map_append
    by (simp add: reginfo_update_def g A taken_over_def risu_reg_index I(1) nth_append)
  finally have "gregs ?a = map (\<lambda>i. uc_gpr ?u ! i) [0..<32] @
      [uc_pc uc, uc_msr uc, uc_ctr uc, uc_lnk uc, uc_xer ?u, uc_ccr ?u, uc_mq ?u, uc_dar uc, uc_dsisr uc]" .
  then show ?thesis
    using assms(1) len(2) unfolding reginfo_init_def Let_def f u
    by (auto simp: get_uc_pc_def accepted_def split: if_splits)
qed

lemma regs_agree_refl [simp]: "regs_agree opts m m"
  by (simp add: regs_agree_def)

section \<open>Strict comparison\<close>

text \<open>Options and instructions for which no difference is excused.\<close>

definition strict_opts :: "ppc_opts \<Rightarrow> bool" where
  "strict_opts opts =
     (ccr_mask opts = - 1 \<and> xer_mask opts = - 1 \<and> mq_mask opts = - 1 \<and> fpscr_mask opts = - 1 \<and>
      fpregs_mask opts = - 1 \<and> fp_opts opts = 0 \<and> cpu_opts opts AND cpu_opt_use_601 = 0)"

definition plain_insn :: "reginfo \<Rightarrow> bool" where
  "plain_insn m =
     (\<not> insn_is (prev_insn m) 0xfc1fffff 0x7c0802a6 \<and> \<not> insn_is (prev_insn m) 0xfc0003fe 0x7c000296 \<and>
      \<not> insn_is (prev_insn m) 0xfc0003fe 0x7c0002d6 \<and> \<not> insn_is (prev_insn m) 0xfc0003ff 0x7c000297 \<and>
      \<not> insn_is (second_prev_insn m) 0xfc0007fe 0x7c00022a)"

lemma gpr_excused_plain [simp]: "plain_insn m \<Longrightarrow> gpr_excused m a rt ra rb i = Inr False"
  by (simp add: gpr_excused_def plain_insn_def lscbx_tail_def Let_def)

lemma compare_gprs_plain:
  "plain_insn m \<Longrightarrow>
     compare_gprs msk m rt ra rb is a =
       Inr (\<forall>i\<in>set is. \<not> masked_out msk i \<longrightarrow> gregs m ! i = gregs a ! i, a)"
  by (induction "is") auto

lemma masked_out_full [simp]: "\<not> masked_out (- 1) i"
  by (simp add: masked_out_def)

lemma compare_fpregs_strict:
  "strict_opts opts \<Longrightarrow>
     compare_fpregs opts m rt ra rb rc is a = Inr (\<forall>i\<in>set is. fpregs m ! i = fpregs a ! i, a)"
  by (induction "is") (auto simp: fpreg_excused_none strict_opts_def)

lemma copy_field_full:
  "f \<le> 28 \<Longrightarrow> t \<le> 28 \<Longrightarrow> copy_field (- 1) (- 1) f t = - 1"
proof -
  assume ft: "f \<le> 28" "t \<le> 28"
  have m4: "(15 :: u32) = mask 4" by (simp add: mask_eq_exp_minus_1)
  show ?thesis
    unfolding copy_field_def m4 using ft by (intro bit_word_eqI) (auto simp: bit_simps)
qed

lemma and_1c: "unat (w AND 0x1c :: u32) \<le> 28"
  using word_and_le1 [of w "0x1c :: u32"] by (simp add: word_le_nat_alt)

lemma compare_ccr_plain:
  assumes "strict_opts opts" "plain_insn m"
  shows "compare_ccr opts m rt ra rb a = Inr (gregs m ! risu_CCR = gregs a ! risu_CCR, a)"
proof -
  have "ccr_effective_mask opts m rt ra rb = Inr (- 1)"
    using assms and_1c
    by (simp add: ccr_effective_mask_def strict_opts_def plain_insn_def copy_field_full Let_def)
  then show ?thesis by (simp add: compare_ccr_def)
qed

lemma compare_specials_strict:
  assumes "strict_opts opts"
  shows "compare_xer opts m a = Inr (gregs m ! risu_XER = gregs a ! risu_XER, a)"
    and "compare_fpscr opts m a = Inr (fpscr m = fpscr a, a)"
  using assms by (simp_all add: compare_xer_def compare_fpscr_def strict_opts_def)

lemma compare_mq_strict:
  "strict_opts opts \<Longrightarrow> plain_insn m \<Longrightarrow> 1 < n \<Longrightarrow>
     compare_mq opts n m rt ra rb a = Inr (gregs m ! risu_MQ = gregs a ! risu_MQ, a)"
  by (simp add: compare_mq_def mq_excused_def strict_opts_def plain_insn_def)

text \<open>At the first checkpoint a difference in MQ is let through, and the master's value taken over.\<close>

definition take_mq :: "reginfo \<Rightarrow> reginfo \<Rightarrow> reginfo" where
  "take_mq m a = a\<lparr>gregs := (gregs a)[risu_MQ := gregs m ! risu_MQ]\<rparr>"

lemma compare_mq_first:
  assumes "strict_opts opts" "plain_insn m" "n \<le> 1"
  shows "compare_mq opts n m rt ra rb a = Inr (True, take_mq m a)"
proof (cases "gregs m ! risu_MQ = gregs a ! risu_MQ")
  case True
  then have "take_mq m a = a" by (simp add: take_mq_def)
  with True show ?thesis by (simp add: compare_mq_def)
next
  case False
  with assms show ?thesis by (simp add: compare_mq_def mq_excused_def strict_opts_def plain_insn_def take_mq_def)
qed

lemma whenEq_pure:
  "whenEq (Inr (p, a)) (\<lambda>b. Inr (q b, b)) = Inr (p \<and> q a, a)"
  by (cases p) simp_all

lemma whenEq_take:
  "whenEq (Inr (p, a)) (\<lambda>b. Inr (q b, if r b then h b else b)) = Inr (p \<and> q a, if p \<and> r a then h a else a)"
  "whenEq (Inr (p, a)) (\<lambda>b. Inr (q b, h b)) = Inr (p \<and> q a, if p then h a else a)"
  by (cases p; simp)+

lemma taken_over_all:
  "(\<forall>j\<in>set [0..<risu_NGREG]. taken_over msk j \<longrightarrow> Q j) \<longleftrightarrow>
     (\<forall>i\<in>set [0..<32]. \<not> masked_out msk i \<longrightarrow> Q i) \<and> Q risu_XER \<and> Q risu_CTR \<and> Q risu_CCR \<and> Q risu_MQ"
  (is "?l = ?r")
proof
  assume ?l
  then have "\<And>j. j < 41 \<Longrightarrow> taken_over msk j \<Longrightarrow> Q j" by (simp add: risu_NGREG_def)
  then show ?r by (simp add: taken_over_def risu_reg_index)
next
  assume ?r
  then show ?l by (auto simp: taken_over_def)
qed

lemma verdict_and_image:
  "r = Inr (q, if p then x else y) \<Longrightarrow> q \<longrightarrow> p \<Longrightarrow> \<exists>z. r = Inr (q, z) \<and> (z = x \<or> z = y \<and> \<not> q)"
  by (cases p) auto

lemma regs_agree_split:
  "regs_agree opts m a =
     ((\<forall>i\<in>set [0..<32]. \<not> masked_out (local_gregs_mask opts a) i \<longrightarrow> gregs m ! i = gregs a ! i) \<and>
      gregs m ! risu_XER = gregs a ! risu_XER \<and>
      gregs m ! risu_LNK - gregs m ! risu_NIP = gregs a ! risu_LNK - gregs a ! risu_NIP \<and>
      gregs m ! risu_CTR = gregs a ! risu_CTR \<and> gregs m ! risu_CCR = gregs a ! risu_CCR \<and>
      gregs m ! risu_MQ = gregs a ! risu_MQ \<and> fpscr m = fpscr a \<and> fpregs m = fpregs a)"
  unfolding regs_agree_def taken_over_all by blast

lemma take_mq_selectors:
  "local_gregs_mask opts (take_mq m a) = local_gregs_mask opts a"
  "fpregs (take_mq m a) = fpregs a" "fpscr (take_mq m a) = fpscr a"
  "j \<noteq> risu_MQ \<Longrightarrow> gregs (take_mq m a) ! j = gregs a ! j"
  "wf_reginfo a \<Longrightarrow> gregs (take_mq m a) ! risu_MQ = gregs m ! risu_MQ"
  by (rule local_gregs_mask_cong) (simp_all add: take_mq_def wf_reginfo_def risu_reg_index)

lemma regs_agree_take_mq:
  assumes "wf_reginfo a"
  shows "regs_agree opts m (take_mq m a) =
     ((\<forall>i\<in>set [0..<32]. \<not> masked_out (local_gregs_mask opts a) i \<longrightarrow> gregs m ! i = gregs a ! i) \<and>
      gregs m ! risu_XER = gregs a ! risu_XER \<and>
      gregs m ! risu_LNK - gregs m ! risu_NIP = gregs a ! risu_LNK - gregs a ! risu_NIP \<and>
      gregs m ! risu_CTR = gregs a ! risu_CTR \<and> gregs m ! risu_CCR = gregs a ! risu_CCR \<and>
      fpscr m = fpscr a \<and> fpregs m = fpregs a)"
proof -
  have "gregs (take_mq m a) ! j = gregs a ! j" if "j \<in> set [0..<32] \<union> {risu_XER, risu_LNK, risu_NIP, risu_CTR, risu_CCR}" for j
    using that by (intro take_mq_selectors) (auto simp: risu_reg_index)
  then show ?thesis
    unfolding regs_agree_split [of opts m "take_mq m a"] using assms by (simp add: take_mq_selectors)
qed

lemma fpregs_all:
  "wf_reginfo m \<Longrightarrow> wf_reginfo a \<Longrightarrow> (\<forall>i\<in>set [0..<32]. fpregs m ! i = fpregs a ! i) = (fpregs m = fpregs a)"
  by (auto simp: wf_reginfo_def intro: nth_equalityI)

lemma reginfo_is_eq_strict:
  assumes "strict_opts opts" "plain_insn m" "1 < n" "wf_reginfo m" "wf_reginfo a"
  shows "reginfo_is_eq opts n m a = Inr (regs_agree opts m a, a)"
  unfolding reginfo_is_eq_def Let_def compare_gprs_plain [OF assms(2)] compare_specials_strict [OF assms(1)]
    compare_lnk_def compare_ctr_def compare_ccr_plain [OF assms(1,2)] compare_mq_strict [OF assms(1-3)]
    compare_fpregs_strict [OF assms(1)] whenEq_pure fpregs_all [OF assms(4,5)] regs_agree_split ..

lemma reginfo_is_eq_strict_first:
  assumes "strict_opts opts" "plain_insn m" "n \<le> 1" "wf_reginfo m" "wf_reginfo a"
  shows "\<exists>a'. reginfo_is_eq opts n m a = Inr (regs_agree opts m (take_mq m a), a') \<and>
    (a' = take_mq m a \<or> a' = a \<and> \<not> regs_agree opts m (take_mq m a))"
proof -
  have "reginfo_is_eq opts n m a = Inr (regs_agree opts m (take_mq m a),
      if (\<forall>i\<in>set [0..<32]. \<not> masked_out (local_gregs_mask opts a) i \<longrightarrow> gregs m ! i = gregs a ! i) \<and>
        gregs m ! risu_XER = gregs a ! risu_XER \<and>
        gregs m ! risu_LNK - gregs m ! risu_NIP = gregs a ! risu_LNK - gregs a ! risu_NIP \<and>
        gregs m ! risu_CTR = gregs a ! risu_CTR \<and> gregs m ! risu_CCR = gregs a ! risu_CCR
      then take_mq m a else a)"
    unfolding reginfo_is_eq_def Let_def compare_gprs_plain [OF assms(2)] compare_specials_strict [OF assms(1)]
      compare_lnk_def compare_ctr_def compare_ccr_plain [OF assms(1,2)] compare_mq_first [OF assms(1-3)]
      compare_fpregs_strict [OF assms(1)] whenEq_pure whenEq_simps(1) take_mq_selectors fpregs_all [OF assms(4,5)]
      whenEq_take regs_agree_take_mq [OF assms(5)] ..
  moreover have "regs_agree opts m (take_mq m a) \<longrightarrow>
      (\<forall>i\<in>set [0..<32]. \<not> masked_out (local_gregs_mask opts a) i \<longrightarrow> gregs m ! i = gregs a ! i) \<and>
        gregs m ! risu_XER = gregs a ! risu_XER \<and>
        gregs m ! risu_LNK - gregs m ! risu_NIP = gregs a ! risu_LNK - gregs a ! risu_NIP \<and>
        gregs m ! risu_CTR = gregs a ! risu_CTR \<and> gregs m ! risu_CCR = gregs a ! risu_CCR"
    unfolding regs_agree_take_mq [OF assms(5)] by blast
  ultimately show ?thesis by (rule verdict_and_image)
qed

section \<open>Division, and the ways not to return\<close>

lemma quotient_test_iff: "quotient_test q \<longleftrightarrow> \<not> (- (2 ^ 31) \<le> q \<and> q < 2 ^ 31)"
proof -
  have "x AND NOT (mask k) = push_bit k (drop_bit k x)" for x :: int and k
    by (rule bit_eqI) (auto simp: bit_simps)
  from this [of _ 1] have "x AND NOT 1 = 0 \<longleftrightarrow> x div 2 = 0" for x :: int
    by (simp add: drop_bit_eq_div push_bit_eq_mult)
  then have "quotient_test q \<longleftrightarrow> (q div 2 ^ 31 + 1) div 2 \<noteq> 0"
    unfolding quotient_test_def by simp
  then show ?thesis by simp linarith
qed

lemma sint_back: "word_of_int (sint x) = (x :: 'a::len word)"
  by simp

lemma div_unpredictable_Inl:
  assumes "div_unpredictable m rt ra rb = Inl e"
  shows "e = Division_Overflow" "gregs m ! ra = 0x80000000" "gregs m ! risu_MQ = 0" "gregs m ! rb = - 1"
proof -
  let ?w = "push_bit 32 (ucast (gregs m ! ra)) OR ucast (gregs m ! risu_MQ) :: u64"
  from assms have e: "e = Division_Overflow" and n: "sint ?w = - (2 ^ 63)" and d: "sint (gregs m ! rb) = - 1"
    unfolding div_unpredictable_def c_div64_def by (auto simp: andThen_eq_Inl signed_eq_0_iff split: if_splits)
  show "e = Division_Overflow" by (rule e)
  have w63: "?w = push_bit 63 1" using sint_back [of ?w] unfolding n by simp
  have w: "bit ?w k \<longleftrightarrow> k = 63" for k
    unfolding w63 by (auto simp only: bit_push_bit_iff bit_1_iff possible_bit_word) simp_all
  show mq: "gregs m ! risu_MQ = 0"
  proof (rule bit_word_eqI)
    fix k :: nat assume "k < LENGTH(32)"
    with w [of k] show "bit (gregs m ! risu_MQ) k = bit 0 k" by (simp add: bit_simps)
  qed
  have "gregs m ! ra = push_bit 31 1"
  proof (rule bit_word_eqI)
    fix k :: nat assume "k < LENGTH(32)"
    with w [of "32 + k"] show "bit (gregs m ! ra) k = bit (push_bit 31 (1 :: u32)) k"
      unfolding bit_push_bit_iff bit_or_iff by (auto simp: bit_simps mq)
  qed
  then show "gregs m ! ra = 0x80000000" by simp
  show "gregs m ! rb = - 1"
    using sint_back [of "gregs m ! rb"] unfolding d by simp
qed

text \<open>The quotient of two 32-bit numbers is always defined.\<close>

lemma divs_unpredictable_total: "divs_unpredictable m rt ra rb \<noteq> Inl e"
proof -
  have "- (2 ^ 31) \<le> sint (gregs m ! ra)" using sint_ge [of "gregs m ! ra"] by simp
  then have "sint (gregs m ! ra) \<noteq> - (2 ^ 63)" by simp
  then show ?thesis unfolding divs_unpredictable_def c_div64_def by (simp add: andThen_eq_Inl signed_eq_0_iff)
qed

lemma gpr_excused_Inl:
  "gpr_excused m a rt ra rb i = Inl e \<Longrightarrow>
     insn_is (prev_insn m) 0xfc0003fe 0x7c000296 \<and> div_unpredictable m rt ra rb = Inl e"
  by (auto simp: gpr_excused_def orElse_eq_Inl divs_unpredictable_total split: if_splits)

lemma compare_gprs_Inl:
  "compare_gprs msk m rt ra rb is a = Inl e \<Longrightarrow>
     insn_is (prev_insn m) 0xfc0003fe 0x7c000296 \<and> div_unpredictable m rt ra rb = Inl e"
  by (induction "is" arbitrary: a) (auto simp: andThen_eq_Inl dest: gpr_excused_Inl split: if_splits)

lemma insn_is_weaken: "insn_is w m1 v1 \<Longrightarrow> m1 AND m2 = m2 \<Longrightarrow> v1 AND m2 = v2 \<Longrightarrow> insn_is w m2 v2"
  unfolding insn_is_def by (metis and.assoc)

lemma compare_special_Inl:
  "compare_ccr opts m rt ra rb a = Inl e \<Longrightarrow>
     insn_is (prev_insn m) 0xfc0003fe 0x7c000296 \<and> div_unpredictable m rt ra rb = Inl e"
  "compare_mq opts n m rt ra rb a = Inl e \<Longrightarrow>
     insn_is (prev_insn m) 0xfc0003fe 0x7c000296 \<and> div_unpredictable m rt ra rb = Inl e"
  by (auto simp: compare_ccr_def ccr_effective_mask_def compare_mq_def mq_excused_def andThen_eq_Inl
      orElse_eq_Inl Let_def elim: insn_is_weaken split: if_splits)

lemma compare_gprs_keeps: "compare_gprs msk m rt ra rb is a = Inr (q, b) \<Longrightarrow> fpregs b = fpregs a"
  by (induction "is" arbitrary: a) (fastforce split: if_splits)+

lemma stages_keep_fpregs:
  "compare_xer opts m a = Inr (q, b) \<Longrightarrow> fpregs b = fpregs a"
  "compare_lnk m a = Inr (q, b) \<Longrightarrow> fpregs b = fpregs a"
  "compare_ctr m a = Inr (q, b) \<Longrightarrow> fpregs b = fpregs a"
  "compare_ccr opts m rt ra rb a = Inr (q, b) \<Longrightarrow> fpregs b = fpregs a"
  "compare_mq opts n m rt ra rb a = Inr (q, b) \<Longrightarrow> fpregs b = fpregs a"
  "compare_fpscr opts m a = Inr (q, b) \<Longrightarrow> fpregs b = fpregs a"
  by (auto simp: compare_xer_def compare_lnk_def compare_ctr_def compare_ccr_def compare_mq_def
      compare_fpscr_def split: if_splits)

lemma flip_neq: "(x :: u64) XOR push_bit 63 1 \<noteq> x"
  using flip_bit [of 63 x] by force

lemma compare_fpregs_Inl:
  "compare_fpregs opts m rt ra rb rc is a = Inl e \<Longrightarrow>
     e = Signed_Overflow \<and> (fp_opt opts fp_opt_ignore_round \<or> fp_opt opts fp_opt_ignore_round_s) \<and>
     \<not> anyqnan (fpregs m ! rt) \<and> fpregs a ! rt = fpregs m ! rt XOR push_bit 63 1"
proof (induction "is" arbitrary: a)
  case (Cons i "is")
  let ?b = "a\<lparr>fpregs := (fpregs a)[i := fpregs m ! i]\<rparr>"
  have b: "fpregs a ! rt = fpregs m ! rt XOR push_bit 63 1" if "fpregs ?b ! rt = fpregs m ! rt XOR push_bit 63 1"
  proof (cases "i = rt \<and> i < length (fpregs a)")
    case True
    then have "fpregs m ! rt = fpregs m ! rt XOR push_bit 63 1" using that by simp
    then show ?thesis using flip_neq [of "fpregs m ! rt"] by metis
  next
    case False
    then have "fpregs ?b ! rt = fpregs a ! rt" by (cases "i = rt") (simp_all add: list_update_beyond)
    then show ?thesis using that by metis
  qed
  consider "compare_fpregs opts m rt ra rb rc is a = Inl e" | "compare_fpregs opts m rt ra rb rc is ?b = Inl e"
    | "fpreg_excused opts m a rt ra rb rc i = Inl e"
    using Cons.prems by (auto simp: andThen_eq_Inl split: if_splits)
  then show ?case
  proof cases
    case 1
    then show ?thesis by (rule Cons.IH)
  next
    case 2
    from Cons.IH [OF this] b show ?thesis by blast
  next
    case 3
    from fpreg_excused_Inl [OF this] show ?thesis by blast
  qed
qed simp

lemma reginfo_is_eq_Inl:
  assumes "reginfo_is_eq opts n m a = Inl e"
  shows "insn_is (prev_insn m) 0xfc0003fe 0x7c000296 \<and>
      div_unpredictable m (field5 (prev_insn m) 21) (field5 (prev_insn m) 16) (field5 (prev_insn m) 11) = Inl e \<or>
    (\<exists>b. fpregs b = fpregs a \<and>
      compare_fpregs opts m (field5 (prev_insn m) 21) (field5 (prev_insn m) 16) (field5 (prev_insn m) 11)
        (field5 (prev_insn m) 6) [0..<32] b = Inl e)"
proof -
  let ?rt = "field5 (prev_insn m) 21" and ?ra = "field5 (prev_insn m) 16" and ?rb = "field5 (prev_insn m) 11"
  have t: "compare_xer opts m b \<noteq> Inl e" "compare_lnk m b \<noteq> Inl e" "compare_ctr m b \<noteq> Inl e"
    "compare_fpscr opts m b \<noteq> Inl e" for b
    by (simp_all add: compare_xer_def compare_lnk_def compare_ctr_def compare_fpscr_def)
  from assms show ?thesis
    unfolding reginfo_is_eq_def Let_def whenEq_Inl
  proof (elim disjE exE conjE)
    fix a1 a2 a3 a4 a5 a6 a7
    assume "compare_fpregs opts m ?rt ?ra ?rb (field5 (prev_insn m) 6) [0..<32] a7 = Inl e"
      and st: "compare_gprs (local_gregs_mask opts a) m ?rt ?ra ?rb [0..<32] a = Inr (True, a1)"
        "compare_xer opts m a1 = Inr (True, a2)" "compare_lnk m a2 = Inr (True, a3)" "compare_ctr m a3 = Inr (True, a4)"
        "compare_ccr opts m ?rt ?ra ?rb a4 = Inr (True, a5)" "compare_mq opts n m ?rt ?ra ?rb a5 = Inr (True, a6)"
        "compare_fpscr opts m a6 = Inr (True, a7)"
    moreover have "fpregs a7 = fpregs a"
      using compare_gprs_keeps [OF st(1)] stages_keep_fpregs(1) [OF st(2)] stages_keep_fpregs(2) [OF st(3)]
        stages_keep_fpregs(3) [OF st(4)] stages_keep_fpregs(4) [OF st(5)] stages_keep_fpregs(5) [OF st(6)]
        stages_keep_fpregs(6) [OF st(7)] by simp
    ultimately show ?thesis by blast
  qed ((erule notE [OF t(1)] notE [OF t(2)] notE [OF t(3)] notE [OF t(4)]
      | rule disjI1, erule compare_gprs_Inl compare_special_Inl)+)
qed

section \<open>Options and untouched registers\<close>

text \<open>With more options, either the same registers are excused, or the test of one is undefined.\<close>

lemma compare_fpregs_mono:
  assumes "fp_opts_le o1 o2"
  shows "compare_fpregs o1 m rt ra rb rc is a = Inr (True, b) \<Longrightarrow>
    compare_fpregs o2 m rt ra rb rc is a = Inr (True, b) \<or> (\<exists>e. compare_fpregs o2 m rt ra rb rc is a = Inl e)"
proof (induction "is" arbitrary: a)
  case (Cons i "is")
  have R: "fpreg_excused o1 m a rt ra rb rc i = Inr True \<Longrightarrow> fpreg_excused o2 m a rt ra rb rc i \<noteq> Inr False"
    using fpreg_excused_mono [OF assms, of m a rt ra rb rc i] by (simp add: relaxes_def)
  show ?case
  proof (cases "fpregs m ! i = fpregs a ! i")
    case True
    then show ?thesis using Cons by simp
  next
    case False
    then have 1: "fpreg_excused o1 m a rt ra rb rc i = Inr True"
      "compare_fpregs o1 m rt ra rb rc is (a\<lparr>fpregs := (fpregs a)[i := fpregs m ! i]\<rparr>) = Inr (True, b)"
      using Cons.prems by (cases "fpreg_excused o1 m a rt ra rb rc i"; simp split: if_splits)+
    from R [OF 1(1)] Cons.IH [OF 1(2)] False show ?thesis
      by (cases "fpreg_excused o2 m a rt ra rb rc i") auto
  qed
qed simp

lemma compare_fpregs_each:
  assumes "compare_fpregs opts m rt ra rb rc is a = Inr (True, b)" "i \<in> set is" "distinct is"
    "fpregs m ! i \<noteq> fpregs a ! i"
  shows "\<exists>c. fpregs c ! i = fpregs a ! i \<and> fpreg_excused opts m c rt ra rb rc i = Inr True"
  using assms
proof (induction "is" arbitrary: a)
  case (Cons k "is")
  show ?case
  proof (cases "i = k")
    case True
    with Cons.prems show ?thesis by (cases "fpreg_excused opts m a rt ra rb rc i") (auto split: if_splits)
  next
    case False
    let ?c = "if fpregs m ! k \<noteq> fpregs a ! k then a\<lparr>fpregs := (fpregs a)[k := fpregs m ! k]\<rparr> else a"
    have "compare_fpregs opts m rt ra rb rc is ?c = Inr (True, b)"
      using Cons.prems(1) by (cases "fpreg_excused opts m a rt ra rb rc k") (auto split: if_splits)
    from Cons.IH [OF this] Cons.prems False show ?thesis by (auto split: if_splits)
  qed
qed simp

text \<open>The converse for a fault: the only register that differs is reached, and its test is evaluated.\<close>

lemma compare_fpregs_faults:
  "k \<in> set is \<Longrightarrow> \<forall>i\<in>set is. i \<noteq> k \<longrightarrow> fpregs m ! i = fpregs a ! i \<Longrightarrow> fpregs m ! k \<noteq> fpregs a ! k \<Longrightarrow>
     fpreg_excused opts m a rt ra rb rc k = Inl e \<Longrightarrow> compare_fpregs opts m rt ra rb rc is a = Inl e"
  by (induction "is") auto

lemma neganyqnan_anyqnan: "neganyqnan n \<Longrightarrow> anyqnan n"
proof -
  assume "neganyqnan n"
  then have lo: "0xfff8000000000000 \<le> unat n" by (simp add: neganyqnan_def word_le_nat_alt)
  have m: "NOT (push_bit 63 1 :: u64) = mask 63" by (simp add: mask_eq_exp_minus_1)
  have "unat (n AND mask 63) = unat n mod 2 ^ 63"
    by (simp add: take_bit_eq_mask [symmetric] unsigned_take_bit_eq take_bit_eq_mod unat_mod_distrib)
  also have "\<dots> = unat n - 2 ^ 63"
    using lo unsigned_less [of n, where ?'a = nat] by (simp add: le_mod_geq)
  finally show ?thesis
    unfolding anyqnan_def m word_le_nat_alt using lo by simp
qed

lemma reginfo_is_eq_same_stages:
  assumes "reginfo_is_eq opts n m a = Inr (True, a')" "local_gregs_mask opts' a = local_gregs_mask opts a"
    "compare_xer opts' = compare_xer opts" "compare_ccr opts' = compare_ccr opts" "compare_mq opts' = compare_mq opts"
    "compare_fpscr opts' = compare_fpscr opts"
  shows "\<exists>b. fpregs b = fpregs a \<and>
    compare_fpregs opts m (field5 (prev_insn m) 21) (field5 (prev_insn m) 16) (field5 (prev_insn m) 11)
      (field5 (prev_insn m) 6) [0..<32] b = Inr (True, a') \<and>
    reginfo_is_eq opts' n m a =
      compare_fpregs opts' m (field5 (prev_insn m) 21) (field5 (prev_insn m) 16) (field5 (prev_insn m) 11)
        (field5 (prev_insn m) 6) [0..<32] b"
proof (rule reginfo_is_eq_stages [OF assms(1)], intro exI conjI)
  fix a1 a2 a3 a4 a5 a6 a7 rt ra rb
  assume st: "compare_gprs (local_gregs_mask opts a) m (field5 (prev_insn m) 21) (field5 (prev_insn m) 16)
       (field5 (prev_insn m) 11) [0..<32] a = Inr (True, a1)"
    "compare_xer opts m a1 = Inr (True, a2)" "compare_lnk m a2 = Inr (True, a3)" "compare_ctr m a3 = Inr (True, a4)"
    "compare_ccr opts m (field5 (prev_insn m) 21) (field5 (prev_insn m) 16) (field5 (prev_insn m) 11) a4 = Inr (True, a5)"
    "compare_mq opts n m (field5 (prev_insn m) 21) (field5 (prev_insn m) 16) (field5 (prev_insn m) 11) a5 = Inr (True, a6)"
    "compare_fpscr opts m a6 = Inr (True, a7)"
  show "fpregs a7 = fpregs a" using compare_gprs_keeps [OF st(1)] stages_keep_fpregs st(2-7) by metis
  show "reginfo_is_eq opts' n m a =
      compare_fpregs opts' m (field5 (prev_insn m) 21) (field5 (prev_insn m) 16) (field5 (prev_insn m) 11)
        (field5 (prev_insn m) 6) [0..<32] a7"
    unfolding reginfo_is_eq_def Let_def assms(2-6) by (simp add: st)
qed

section \<open>Properties\<close>

text \<open>
  C7: when \<^verbatim>\<open>reginfo_is_eq\<close> accepts, the apprentice's image has become the master's one in every
  compared register (and only there), the link registers have the same distance from the program
  counters, and comparing the resulting image again accepts it without any further change.
\<close>

theorem reginfo_is_eq_takes_over:
  assumes "reginfo_is_eq opts n m a = Inr (True, a')" "wf_reginfo m" "wf_reginfo a"
  shows "a' = accepted opts m a \<and>
    gregs m ! risu_LNK - gregs m ! risu_NIP = gregs a ! risu_LNK - gregs a ! risu_NIP \<and>
    reginfo_is_eq opts k m a' = Inr (True, a')"
  using reginfo_is_eq_accepts [OF assms] regs_agree_accepted reginfo_is_eq_agree by auto

definition blank_reginfo :: reginfo where
  "blank_reginfo =
     \<lparr>second_prev_insn = 0, prev_insn = 0, faulting_insn = 0x5af0, next_insn = 0, nip = 0,
      gregs = replicate 41 0, fpregs = replicate 32 0, fpscr = 0\<rparr>"

lemma wf_blank [simp]: "wf_reginfo (blank_reginfo\<lparr>fpscr := w\<rparr>)" "wf_reginfo blank_reginfo"
  by (simp_all add: blank_reginfo_def wf_reginfo_def risu_reg_index)

text \<open>An image with another FPSCR is accepted if the bits that differ are masked out.\<close>

lemma fpscr_differs:
  assumes "w AND fpscr_mask opts = fpscr a AND fpscr_mask opts"
  shows "reginfo_is_eq opts n (a\<lparr>fpscr := w\<rparr>) a = Inr (True, a\<lparr>fpscr := w\<rparr>)"
proof -
  let ?m = "a\<lparr>fpscr := w\<rparr>"
  have "compare_gprs k ?m rt ra rb [0..<32] a = Inr (True, a)" for k rt ra rb
    by (intro compare_gprs_agree) simp
  moreover have "compare_fpregs opts ?m rt ra rb rc [0..<32] b = Inr (True, b)" if "b = a \<or> b = ?m" for b rt ra rb rc
    using that by (intro compare_fpregs_agree) auto
  ultimately show ?thesis
    using assms by (cases "w = fpscr a")
      (simp_all add: reginfo_is_eq_def Let_def compare_xer_def compare_lnk_def compare_ctr_def compare_ccr_def
        compare_mq_def compare_fpscr_def)
qed

lemma blank_fpscr_masked:
  "reginfo_is_eq (default_opts APPLE\<lparr>fpscr_mask := 0xFFFF0000\<rparr>) n blank_reginfo (blank_reginfo\<lparr>fpscr := 7\<rparr>) =
     Inr (True, blank_reginfo)"
proof -
  have "(blank_reginfo\<lparr>fpscr := 7\<rparr>)\<lparr>fpscr := 0\<rparr> = blank_reginfo" by (simp add: blank_reginfo_def)
  then show ?thesis
    using fpscr_differs [of 0 "default_opts APPLE\<lparr>fpscr_mask := 0xFFFF0000\<rparr>" "blank_reginfo\<lparr>fpscr := 7\<rparr>" n] by simp
qed

theorem reginfo_is_eq_takes_over_witness:
  "blank_reginfo = accepted (default_opts APPLE\<lparr>fpscr_mask := 0xFFFF0000\<rparr>) blank_reginfo (blank_reginfo\<lparr>fpscr := 7\<rparr>)"
  using reginfo_is_eq_takes_over [OF blank_fpscr_masked] by simp

text \<open>
  C8: with full masks, no option set and an instruction without a rule of its own, the comparison is
  exact. From the second checkpoint on it accepts if and only if every unmasked general register, XER, CTR,
  CCR, MQ, the floating point registers and FPSCR are equal and the link registers have the same distance
  from the program counters; and it leaves the apprentice's image as it was. At the first checkpoint MQ is
  exempt: the verdict is the one for the image with the master's MQ, which an accepted image takes over.
\<close>

theorem reginfo_is_eq_exact:
  assumes "strict_opts opts" "plain_insn m" "wf_reginfo m" "wf_reginfo a"
  shows "(1 < n \<longrightarrow> reginfo_is_eq opts n m a = Inr (regs_agree opts m a, a)) \<and>
    (n \<le> 1 \<longrightarrow> (\<exists>a'. reginfo_is_eq opts n m a = Inr (regs_agree opts m (take_mq m a), a') \<and>
       (a' = take_mq m a \<or> a' = a \<and> \<not> regs_agree opts m (take_mq m a))))"
  using reginfo_is_eq_strict [OF assms(1,2) _ assms(3,4)] reginfo_is_eq_strict_first [OF assms(1,2) _ assms(3,4)]
  by blast

theorem reginfo_is_eq_exact_witness:
  "reginfo_is_eq (default_opts APPLE) 2 blank_reginfo (blank_reginfo\<lparr>fpscr := 7\<rparr>) =
     Inr (False, blank_reginfo\<lparr>fpscr := 7\<rparr>) \<and>
   reginfo_is_eq (default_opts APPLE) 1 blank_reginfo (blank_reginfo\<lparr>gregs := (replicate 41 0)[risu_MQ := 7]\<rparr>) =
     Inr (True, blank_reginfo)"
proof -
  let ?a = "blank_reginfo\<lparr>fpscr := 7\<rparr>" and ?b = "blank_reginfo\<lparr>gregs := (replicate 41 0)[risu_MQ := 7]\<rparr>"
  have o: "strict_opts (default_opts APPLE)" "plain_insn blank_reginfo"
    by (simp_all add: strict_opts_def default_opts_def plain_insn_def insn_is_def blank_reginfo_def)
  have b: "wf_reginfo ?b" by (simp add: blank_reginfo_def wf_reginfo_def risu_reg_index)
  have "take_mq blank_reginfo ?b = blank_reginfo"
    by (simp add: take_mq_def blank_reginfo_def risu_reg_index list_update_same_conv)
  with reginfo_is_eq_exact [OF o wf_blank(2) b, of 1]
  have "reginfo_is_eq (default_opts APPLE) 1 blank_reginfo ?b = Inr (True, blank_reginfo)" by simp
  moreover have "\<not> regs_agree (default_opts APPLE) blank_reginfo ?a"
    by (simp add: regs_agree_def blank_reginfo_def)
  with reginfo_is_eq_exact [OF o wf_blank(2,1), of 2]
  have "reginfo_is_eq (default_opts APPLE) 2 blank_reginfo ?a = Inr (False, ?a)" by simp
  ultimately show ?thesis by blast
qed

text \<open>
  C28: \<^verbatim>\<open>reginfo_update\<close> puts the apprentice on the course of the master. Writing an image that was just taken back into
  its context changes nothing, whatever the register mask; and after an accepted comparison, an image taken from the updated
  context is the very image the comparison left, which agrees with the master's in every compared register.
\<close>

theorem reginfo_update_resynchronizes:
  assumes "reginfo_init env uc siaddr = Inr a" "wf_ctx uc"
  shows "reginfo_update opts a uc = uc \<and>
    (wf_reginfo m \<and> reginfo_is_eq opts n m a = Inr (True, a') \<longrightarrow>
       reginfo_init env (reginfo_update opts a' uc) siaddr = Inr a' \<and> regs_agree opts m a')"
proof (intro conjI impI)
  show "reginfo_update opts a uc = uc" by (rule reginfo_update_init [OF assms])
next
  assume "wf_reginfo m \<and> reginfo_is_eq opts n m a = Inr (True, a')"
  then have m: "wf_reginfo m" and eq: "reginfo_is_eq opts n m a = Inr (True, a')" by blast+
  note A = reginfo_is_eq_accepts [OF eq m reginfo_init_cases(4) [OF assms]]
  show "reginfo_init env (reginfo_update opts a' uc) siaddr = Inr a'"
    unfolding A(1) by (rule reginfo_init_accepted [OF assms m A(3)])
  show "regs_agree opts m a'" unfolding A(1) by (rule regs_agree_accepted [OF A(2)])
qed

theorem reginfo_update_resynchronizes_witness:
  "\<exists>a. reginfo_init sample_env sample_ctx 0 = Inr a \<and> fpscr a = 10 \<and>
     reginfo_init sample_env (reginfo_update (default_opts APPLE\<lparr>fpscr_mask := 0xFFFF0000\<rparr>) (a\<lparr>fpscr := 7\<rparr>) sample_ctx) 0 =
       Inr (a\<lparr>fpscr := 7\<rparr>)"
proof -
  let ?o = "default_opts APPLE\<lparr>fpscr_mask := 0xFFFF0000\<rparr>"
  obtain a where a: "reginfo_init sample_env sample_ctx 0 = Inr a" using sample_init by blast
  then have f: "fpscr a = 10" "wf_reginfo (a\<lparr>fpscr := 7\<rparr>)"
    using reginfo_init_cases(3,4) [OF a wf_sample_ctx] by (simp_all add: sample_ctx_def wf_reginfo_def)
  then have "reginfo_is_eq ?o 2 (a\<lparr>fpscr := 7\<rparr>) a = Inr (True, a\<lparr>fpscr := 7\<rparr>)" by (intro fpscr_differs) simp
  with reginfo_update_resynchronizes [OF a wf_sample_ctx, of ?o "a\<lparr>fpscr := 7\<rparr>" 2 "a\<lparr>fpscr := 7\<rparr>"] a f show ?thesis by blast
qed

text \<open>
  C13: setting more bits of \<^verbatim>\<open>fp_opts\<close> never turns an accepted pair of images into a mismatch: the images are
  accepted, and the resulting image is the same. The one exception is undefined behaviour: if one of the
  two rounding options is set and the target registers differ in their sign alone, \<^verbatim>\<open>ABS\<close> may be called on
  the least number.
\<close>

theorem fp_opts_only_relax:
  assumes "reginfo_is_eq opts n m a = Inr (True, a')" "fp_opts opts AND NOT bits = 0"
  shows "reginfo_is_eq (opts\<lparr>fp_opts := bits\<rparr>) n m a = Inr (True, a') \<or>
    reginfo_is_eq (opts\<lparr>fp_opts := bits\<rparr>) n m a = Inl Signed_Overflow \<and>
    (bits AND fp_opt_ignore_round \<noteq> 0 \<or> bits AND fp_opt_ignore_round_s \<noteq> 0) \<and>
    fpregs a ! field5 (prev_insn m) 21 = fpregs m ! field5 (prev_insn m) 21 XOR push_bit 63 1 \<and>
    \<not> anyqnan (fpregs m ! field5 (prev_insn m) 21)"
proof -
  let ?o = "opts\<lparr>fp_opts := bits\<rparr>"
  let ?fp = "\<lambda>o'. compare_fpregs o' m (field5 (prev_insn m) 21) (field5 (prev_insn m) 16) (field5 (prev_insn m) 11)
    (field5 (prev_insn m) 6) [0..<32]"
  have le: "fp_opts_le opts (opts\<lparr>fp_opts := bits\<rparr>)" using assms(2) by (simp add: fp_opts_le_def)
  have sel: "xer_mask (opts\<lparr>fp_opts := bits\<rparr>) = xer_mask opts" "ccr_mask (opts\<lparr>fp_opts := bits\<rparr>) = ccr_mask opts"
    "mq_mask (opts\<lparr>fp_opts := bits\<rparr>) = mq_mask opts" "cpu_opts (opts\<lparr>fp_opts := bits\<rparr>) = cpu_opts opts"
    "fpscr_mask (opts\<lparr>fp_opts := bits\<rparr>) = fpscr_mask opts" by simp_all
  have "local_gregs_mask (opts\<lparr>fp_opts := bits\<rparr>) a = local_gregs_mask opts a"
    by (auto simp: local_gregs_mask_def)
  moreover have "compare_xer (opts\<lparr>fp_opts := bits\<rparr>) = compare_xer opts"
    "compare_ccr (opts\<lparr>fp_opts := bits\<rparr>) = compare_ccr opts" "compare_mq (opts\<lparr>fp_opts := bits\<rparr>) = compare_mq opts"
    "compare_fpscr (opts\<lparr>fp_opts := bits\<rparr>) = compare_fpscr opts"
    by (simp_all only: compare_xer_def compare_ccr_def ccr_effective_mask_def compare_mq_def mq_excused_def
        compare_fpscr_def fun_eq_iff sel simp_thms)
  ultimately obtain b where "fpregs b = fpregs a" "?fp opts b = Inr (True, a')" "reginfo_is_eq ?o n m a = ?fp ?o b"
    using reginfo_is_eq_same_stages [OF assms(1)] by metis
  then show ?thesis
    using compare_fpregs_mono [OF le, of m _ _ _ _ _ b a'] compare_fpregs_Inl [of ?o m _ _ _ _ _ b]
    unfolding fp_opt_def by fastforce
qed

theorem fp_opts_only_relax_witness:
  "reginfo_is_eq (default_opts APPLE\<lparr>fpscr_mask := 0xFFFF0000, fp_opts := 0x400\<rparr>) 5 blank_reginfo
     (blank_reginfo\<lparr>fpscr := 7\<rparr>) = Inr (True, blank_reginfo)"
  using fp_opts_only_relax [OF blank_fpscr_masked, of "0x400" 5] flip_neq [of 0]
  by (simp add: default_opts_def blank_reginfo_def field5_def)

text \<open>
  C14: in an accepted comparison, a floating point register that is not the target of the previous
  instruction and not masked out is equal in both images, or one of the options on quiet NaNs is set and
  both hold quiet NaNs; provided that the options on single-precision loads and on the signs of zeros are
  not set.
\<close>

theorem untouched_fpregs_equal:
  assumes "reginfo_is_eq opts n m a = Inr (True, a')" "wf_reginfo a" "i < 32"
    "i \<noteq> field5 (prev_insn m) 21" "bit (fpregs_mask opts) (31 - i)"
    "\<not> fp_opt opts fp_opt_ignore_QNaN_load_float" "\<not> fp_opt opts fp_opt_ignore_zero_signs"
  shows "fpregs a ! i = fpregs m ! i \<or>
    (fp_opt opts fp_opt_ignore_QNaN_signs \<or> fp_opt opts fp_opt_ignore_QNaN_values \<or> fp_opt opts fp_opt_ignore_QNaN_diffs) \<and>
    anyqnan (fpregs a ! i) \<and> anyqnan (fpregs m ! i)"
proof (rule disj_imp [THEN iffD2], rule impI)
  assume ne: "fpregs a ! i \<noteq> fpregs m ! i"
  obtain b rt ra rb rc where rt: "rt = field5 (prev_insn m) 21" and b: "fpregs b = fpregs a"
    "compare_fpregs opts m rt ra rb rc [0..<32] b = Inr (True, a')"
    using reginfo_is_eq_same_stages [OF assms(1) refl refl refl refl refl] by blast
  then obtain c where c: "fpregs c ! i = fpregs a ! i" "fpreg_excused opts m c rt ra rb rc i = Inr True"
    using compare_fpregs_each [OF b(2), of i] ne assms(3) by auto
  with assms(3-7) rt show "(fp_opt opts fp_opt_ignore_QNaN_signs \<or> fp_opt opts fp_opt_ignore_QNaN_values \<or>
      fp_opt opts fp_opt_ignore_QNaN_diffs) \<and> anyqnan (fpregs a ! i) \<and> anyqnan (fpregs m ! i)"
    by (auto simp: fpreg_excused_untouched masked_out_iff fp_rule_QNaN_def fp_rule_zero_signs_def
        dest: neganyqnan_anyqnan)
qed

definition insn_fadd :: u32 where "insn_fadd = 0xfc22182a"  \<comment> \<open>fadd f1,f2,f3\<close>

lemma blank_fadd_regs:
  "field5 insn_fadd 21 = 1" "field5 insn_fadd 16 = 2" "field5 insn_fadd 11 = 3"
  by (simp_all add: field5_def insn_fadd_def)

text \<open>An accepted comparison after \<^verbatim>\<open>fadd f1,f2,f3\<close> whose results differ in the last bit only.\<close>

definition fadd_master :: reginfo where
  "fadd_master = blank_reginfo\<lparr>prev_insn := insn_fadd, fpregs := (replicate 32 0)[1 := 0x3ff0000000000001]\<rparr>"

definition fadd_apprentice :: "u64 \<Rightarrow> reginfo" where
  "fadd_apprentice v = fadd_master\<lparr>fpregs := (replicate 32 0)[1 := v]\<rparr>"

lemma fadd_result:
  assumes "fpreg_excused opts fadd_master (fadd_apprentice v) 1 2 3 (field5 insn_fadd 6) 1 = Inr True"
  shows "reginfo_is_eq opts n fadd_master (fadd_apprentice v) = Inr (True, fadd_master)"
proof -
  have g: "gregs (fadd_apprentice v) = gregs fadd_master" "fpscr (fadd_apprentice v) = fpscr fadd_master"
    by (simp_all add: fadd_apprentice_def)
  have fa: "fpregs (fadd_apprentice v) = (replicate 32 0)[1 := v]"
    and fm: "fpregs fadd_master = (replicate 32 0)[1 := 0x3ff0000000000001]"
    by (simp_all add: fadd_apprentice_def fadd_master_def)
  have upt: "[0..<32] = 0 # 1 # [2..<32]" by (simp add: upt_rec)
  have up: "(fadd_apprentice v)\<lparr>fpregs := (fpregs (fadd_apprentice v))[1 := fpregs fadd_master ! 1]\<rparr> = fadd_master"
    by (simp add: fadd_apprentice_def fadd_master_def)
  have rest: "compare_fpregs opts fadd_master rt ra rb rc [2..<32] c = Inr (True, c)"
    if "c = fadd_master \<or> c = fadd_apprentice v" for c rt ra rb rc
    using that by (intro compare_fpregs_agree) (auto simp: fa fm nth_list_update)
  have "compare_fpregs opts fadd_master 1 2 3 (field5 insn_fadd 6) [0..<32] (fadd_apprentice v) = Inr (True, fadd_master)"
  proof (cases "v = 0x3ff0000000000001")
    case True
    then have "fadd_apprentice v = fadd_master" by (simp add: fadd_apprentice_def fadd_master_def)
    then show ?thesis by (simp add: compare_fpregs_agree)
  next
    case False
    then show ?thesis using assms rest up by (simp add: upt fa fm)
  qed
  moreover have "compare_gprs k fadd_master rt ra rb [0..<32] (fadd_apprentice v) = Inr (True, fadd_apprentice v)" for k rt ra rb
    by (intro compare_gprs_agree) (simp add: g)
  moreover have "prev_insn fadd_master = insn_fadd" by (simp add: fadd_master_def)
  ultimately show ?thesis
    by (simp add: reginfo_is_eq_def Let_def compare_xer_def compare_lnk_def compare_ctr_def compare_ccr_def
        compare_mq_def compare_fpscr_def g blank_fadd_regs)
qed

lemma fadd_excused:
  assumes "abs_test (v - 0x3ff0000000000001) (\<lambda>d. sint d \<le> 1) = Inr True" "\<not> anyqnan v" "fp_opts opts = fp_opt_ignore_round"
  shows "fpreg_excused opts fadd_master (fadd_apprentice v) 1 2 3 rc 1 = Inr True"
proof -
  have "\<not> anyqnan 0x3ff0000000000001" by (simp add: anyqnan_def)
  moreover have "fp_opt opts fp_opt_ignore_round" by (simp add: assms(3) fp_opt_def fp_opt_ignore_round_def)
  ultimately have "fp_rule_round opts fadd_master (fadd_apprentice v) 1 2 3 rc 1 = Inr True"
    using assms(1,2) by (simp add: fp_rule_round_def fadd_master_def fadd_apprentice_def insn_is_def insn_fadd_def blank_reginfo_def)
  then show ?thesis by (simp add: fpreg_excused_round [OF assms(3)])
qed

theorem untouched_fpregs_equal_witness:
  "fpregs (fadd_apprentice 0x3ff0000000000000) ! 5 = fpregs fadd_master ! 5"
proof -
  let ?o = "default_opts APPLE\<lparr>fp_opts := 0x400\<rparr>" and ?a = "fadd_apprentice 0x3ff0000000000000"
  have "reginfo_is_eq ?o 2 fadd_master ?a = Inr (True, fadd_master)"
    by (rule fadd_result, rule fadd_excused) (simp_all add: abs_test_def ABS_def anyqnan_def fp_opt_ignore_round_def)
  then have "fpregs ?a ! 5 = fpregs fadd_master ! 5 \<or>
    (fp_opt ?o fp_opt_ignore_QNaN_signs \<or> fp_opt ?o fp_opt_ignore_QNaN_values \<or> fp_opt ?o fp_opt_ignore_QNaN_diffs) \<and>
    anyqnan (fpregs ?a ! 5) \<and> anyqnan (fpregs fadd_master ! 5)"
  proof (rule untouched_fpregs_equal)
    show "bit (fpregs_mask ?o) (31 - 5)" "\<not> fp_opt ?o fp_opt_ignore_QNaN_load_float" "\<not> fp_opt ?o fp_opt_ignore_zero_signs"
      by (simp_all add: fp_opt_def fp_opt_ignore_QNaN_load_float_def fp_opt_ignore_zero_signs_def default_opts_def)
  qed (simp_all add: fadd_apprentice_def fadd_master_def wf_reginfo_def blank_reginfo_def risu_reg_index insn_fadd_def field5_def)
  then show ?thesis
    by (simp add: fp_opt_def fp_opt_ignore_QNaN_signs_def fp_opt_ignore_QNaN_values_def fp_opt_ignore_QNaN_diffs_def)
qed

text \<open>
  C24: the test on the quotient of \<^verbatim>\<open>div\<close> is exact: with a non-zero divisor and distinct registers, and
  outside of the one undefined division, the results of the instruction are taken to be unpredictable if
  and only if the quotient of the 64-bit dividend does not fit a signed 32-bit register.
\<close>

theorem div_check_exact:
  assumes "ra \<noteq> rt" "rb \<noteq> rt" "gregs m ! rb \<noteq> 0"
    "n = sint (push_bit 32 (ucast (gregs m ! ra)) OR ucast (gregs m ! risu_MQ) :: u64)"
    "d = sint (gregs m ! rb)" "\<not> (n = - (2 ^ 63) \<and> d = - 1)"
  shows "div_unpredictable m rt ra rb = Inr (\<not> (- (2 ^ 31) \<le> n sdiv d \<and> n sdiv d < 2 ^ 31))"
  using assms unfolding div_unpredictable_def c_div64_def quotient_test_iff by (auto simp: signed_eq_0_iff)

definition div_regs :: "u32 \<Rightarrow> reginfo" where
  "div_regs d = blank_reginfo\<lparr>gregs := (replicate 41 0)[2 := 1, 3 := d]\<rparr>"

lemma div_regs_simps:
  "gregs (div_regs d) ! 2 = 1" "gregs (div_regs d) ! 3 = d" "gregs (div_regs d) ! risu_MQ = 0"
  by (simp_all add: div_regs_def risu_reg_index)

theorem div_check_exact_witness:
  "div_unpredictable (div_regs 2) 1 2 3 = Inr True \<and> div_unpredictable (div_regs 4) 1 2 3 = Inr False"
proof -
  have n: "2 ^ 32 = sint (push_bit 32 (ucast (gregs (div_regs d) ! 2)) OR ucast (gregs (div_regs d) ! risu_MQ) :: u64)" for d
    by (simp add: div_regs_simps)
  have "div_unpredictable (div_regs 2) 1 2 3 = Inr (\<not> (- (2 ^ 31) \<le> (2 ^ 32 :: int) sdiv 2 \<and> (2 ^ 32 :: int) sdiv 2 < 2 ^ 31))"
    by (rule div_check_exact [OF _ _ _ n]) (simp_all add: div_regs_simps)
  moreover have "div_unpredictable (div_regs 4) 1 2 3 = Inr (\<not> (- (2 ^ 31) \<le> (2 ^ 32 :: int) sdiv 4 \<and> (2 ^ 32 :: int) sdiv 4 < 2 ^ 31))"
    by (rule div_check_exact [OF _ _ _ n]) (simp_all add: div_regs_simps)
  ultimately show ?thesis by (simp add: signed_divide_int_def)
qed

text \<open>
  C25: the comparison never divides by zero, and returns a verdict except in two situations where it
  evaluates an undefined expression: after a \<^verbatim>\<open>div\<close> instruction whose dividend is the least 64-bit number and
  whose divisor is minus one, and with one of the two rounding options if the target registers hold numbers
  (no quiet NaNs) that differ in their sign alone.
\<close>

theorem reginfo_is_eq_returns:
  assumes "reginfo_is_eq opts n m a = Inl e"
  shows "e = Division_Overflow \<and> insn_is (prev_insn m) 0xfc0003fe 0x7c000296 \<and> gregs m ! risu_MQ = 0 \<and>
      gregs m ! field5 (prev_insn m) 16 = 0x80000000 \<and> gregs m ! field5 (prev_insn m) 11 = - 1 \<or>
    e = Signed_Overflow \<and> (fp_opt opts fp_opt_ignore_round \<or> fp_opt opts fp_opt_ignore_round_s) \<and>
      \<not> anyqnan (fpregs m ! field5 (prev_insn m) 21) \<and>
      fpregs a ! field5 (prev_insn m) 21 = fpregs m ! field5 (prev_insn m) 21 XOR push_bit 63 1"
  using reginfo_is_eq_Inl [OF assms]
proof (elim disjE exE conjE)
  fix b :: reginfo
  assume "fpregs b = fpregs a"
  then show "compare_fpregs opts m (field5 (prev_insn m) 21) (field5 (prev_insn m) 16) (field5 (prev_insn m) 11)
      (field5 (prev_insn m) 6) [0..<32] b = Inl e \<Longrightarrow> ?thesis"
    using compare_fpregs_Inl [of opts m _ _ _ _ _ b e] by metis
qed (use div_unpredictable_Inl in blast)

definition div_trap_master :: reginfo where
  "div_trap_master =
     blank_reginfo\<lparr>prev_insn := 0x7c821a96, gregs := (replicate 41 0)[2 := 0x80000000, 3 := 0xFFFFFFFF]\<rparr>"

lemma div_trap:
  "reginfo_is_eq (default_opts APPLE) 2 div_trap_master (div_trap_master\<lparr>gregs := (gregs div_trap_master)[4 := 1]\<rparr>) =
     Inl Division_Overflow"
proof -
  have upt: "[0..<32] = 0 # 1 # 2 # 3 # 4 # [5..<32]" by (simp add: upt_rec)
  have r: "field5 0x7c821a96 21 = 4" "field5 0x7c821a96 16 = 2" "field5 0x7c821a96 11 = 3"
    by (simp_all add: field5_def)
  have s: "prev_insn div_trap_master = 0x7c821a96" "length (gregs div_trap_master) = 41" "gregs div_trap_master ! 4 = 0"
    by (simp_all add: div_trap_master_def)
  have m: "\<not> masked_out (local_gregs_mask (default_opts APPLE) (div_trap_master\<lparr>gregs := g\<rparr>)) 4" for g
    by (simp add: local_gregs_mask_def insn_is_def div_trap_master_def blank_reginfo_def default_opts_def masked_out_def)
  have "gpr_excused div_trap_master (div_trap_master\<lparr>gregs := (gregs div_trap_master)[4 := 1]\<rparr>) 4 2 3 4 = Inl Division_Overflow"
    by (simp add: gpr_excused_def div_unpredictable_def c_div64_def div_trap_master_def insn_is_def risu_reg_index)
  then show ?thesis
    by (simp add: reginfo_is_eq_def Let_def upt m r s)
qed

theorem reginfo_is_eq_returns_witness:
  "reginfo_is_eq (default_opts APPLE) 2 div_trap_master (div_trap_master\<lparr>gregs := (gregs div_trap_master)[4 := 1]\<rparr>) =
     Inl Division_Overflow \<and>
   insn_is (prev_insn div_trap_master) 0xfc0003fe 0x7c000296 \<and> gregs div_trap_master ! risu_MQ = 0 \<and>
   gregs div_trap_master ! field5 (prev_insn div_trap_master) 16 = 0x80000000 \<and>
   gregs div_trap_master ! field5 (prev_insn div_trap_master) 11 = - 1"
  using reginfo_is_eq_returns [OF div_trap] div_trap by blast

section \<open>The rounding options\<close>

text \<open>The instructions the two rounding options speak of.\<close>

definition rounds_double :: "u32 \<Rightarrow> bool" where
  "rounds_double w =
     (insn_is w 0xfc00003e 0xfc00003e \<or> insn_is w 0xfc00003e 0xfc00003a \<or> insn_is w 0xfc0007fe 0xfc000028 \<or>
      insn_is w 0xfc00f83e 0xfc000032 \<or> insn_is w 0xfc00003e 0xfc00003c \<or> insn_is w 0xfc00003e 0xfc000038 \<or>
      insn_is w 0xfc0007fe 0xfc000024 \<or> insn_is w 0xfc0007fe 0xfc00002a \<or> insn_is w 0xfc1f07fe 0xfc000034 \<or>
      insn_is w 0xfc1f07fe 0xec000030)"

definition rounds_single :: "u32 \<Rightarrow> bool" where
  "rounds_single w =
     (insn_is w 0xfc00f83e 0xec000032 \<or> insn_is w 0xfc00003e 0xec00003c \<or> insn_is w 0xfc0007fe 0xec000024 \<or>
      insn_is w 0xfc00003e 0xec00003a \<or> insn_is w 0xfc0007fe 0xec00002a \<or> insn_is w 0xfc00003e 0xec00003e \<or>
      insn_is w 0xfc1f07fe 0xfc000018 \<or> insn_is w 0xfc00003e 0xec000038 \<or> insn_is w 0xfc0007fe 0xec000028)"

lemma anyqnan_flip: "anyqnan (x XOR push_bit 63 1) = anyqnan x"
proof -
  have "(x XOR push_bit 63 1) AND NOT (push_bit 63 1) = x AND NOT (push_bit 63 1)"
    by (rule bit_word_eqI) (auto simp: bit_simps)
  then show ?thesis by (simp only: anyqnan_def)
qed

lemma rounding_faults:
  assumes "fpregs a ! rt = fpregs m ! rt XOR push_bit 63 1" "\<not> anyqnan (fpregs m ! rt)"
  shows "fp_opt opts fp_opt_ignore_round \<Longrightarrow> rounds_double (prev_insn m) \<Longrightarrow>
      fp_rule_round opts m a rt ra rb rc rt = Inl Signed_Overflow"
    and "fp_opt opts fp_opt_ignore_round_s \<Longrightarrow> rounds_single (prev_insn m) \<Longrightarrow>
      fp_rule_round_s opts m a rt ra rb rc rt = Inl Signed_Overflow"
proof -
  have t: "abs_test (fpregs a ! rt - fpregs m ! rt) P = Inl Signed_Overflow" for P
    unfolding abs_test_eq_Inl minus_sign_bit using assms(1) by blast
  have q: "\<not> anyqnan (fpregs a ! rt)" unfolding assms(1) anyqnan_flip by (rule assms(2))
  show "fp_rule_round opts m a rt ra rb rc rt = Inl Signed_Overflow"
    if "fp_opt opts fp_opt_ignore_round" "rounds_double (prev_insn m)"
    using that assms(2) q unfolding fp_rule_round_def t rounds_double_def orElse_eq_Inl provided_def by auto
  show "fp_rule_round_s opts m a rt ra rb rc rt = Inl Signed_Overflow"
    if "fp_opt opts fp_opt_ignore_round_s" "rounds_single (prev_insn m)"
    using that assms(2) q unfolding fp_rule_round_s_def t rounds_single_def orElse_eq_Inl provided_def by auto
qed

text \<open>
  C35: the options to ignore rounding differences lead to undefined behaviour for results of opposite
  sign: after any instruction the option speaks of, if the images agree except that the target registers
  (not masked out, and no quiet NaNs) differ in their sign bit, the comparison calls \<^verbatim>\<open>ABS\<close> on the least
  64-bit number, whose negation overflows. Whether such results are accepted is left to the compiler.
\<close>

theorem rounding_option_undefined:
  assumes "fp_opts opts = fp_opt_ignore_round \<and> rounds_double (prev_insn m) \<or>
      fp_opts opts = fp_opt_ignore_round_s \<and> rounds_single (prev_insn m)"
    "rt = field5 (prev_insn m) 21" "\<not> masked_out (fpregs_mask opts) rt" "wf_reginfo m" "\<not> anyqnan (fpregs m ! rt)"
    "regs_agree opts m (a\<lparr>fpregs := fpregs m\<rparr>)" "fpregs a = (fpregs m)[rt := fpregs m ! rt XOR push_bit 63 1]"
  shows "reginfo_is_eq opts n m a = Inl Signed_Overflow"
proof -
  have rt: "rt < 32" unfolding assms(2) by (rule field5_less)
  have a: "fpregs a ! i = (if i = rt then fpregs m ! rt XOR push_bit 63 1 else fpregs m ! i)" for i
    using rt assms(4) by (simp add: assms(7) wf_reginfo_def nth_list_update)
  then have flip: "fpregs a ! rt = fpregs m ! rt XOR push_bit 63 1" by (simp only: simp_thms if_True)
  have "fpreg_excused opts m a rt ra rb rc rt = Inl Signed_Overflow" for ra rb rc
    using assms(1)
  proof (elim disjE conjE)
    assume o: "fp_opts opts = fp_opt_ignore_round" and i: "rounds_double (prev_insn m)"
    then have "fp_opt opts fp_opt_ignore_round" by (simp add: fp_opt_def fp_opt_ignore_round_def)
    then show ?thesis
      using rounding_faults(1) [OF flip assms(5) _ i] assms(3) by (simp add: fpreg_excused_round [OF o])
  next
    assume o: "fp_opts opts = fp_opt_ignore_round_s" and i: "rounds_single (prev_insn m)"
    then have "fp_opt opts fp_opt_ignore_round_s" by (simp add: fp_opt_def fp_opt_ignore_round_s_def)
    then show ?thesis
      using rounding_faults(2) [OF flip assms(5) _ i] assms(3) by (simp add: fpreg_excused_round_s [OF o])
  qed
  moreover have "fpregs m ! rt \<noteq> fpregs a ! rt" unfolding flip using flip_neq by metis
  ultimately have "compare_fpregs opts m rt ra rb rc [0..<32] a = Inl Signed_Overflow" for ra rb rc
    using rt a by (intro compare_fpregs_faults [where k = rt]) auto
  then show ?thesis unfolding reginfo_is_eq_fp_only [OF assms(6)] assms(2) by blast
qed

theorem rounding_option_undefined_witness:
  "reginfo_is_eq (default_opts APPLE\<lparr>fp_opts := fp_opt_ignore_round\<rparr>) 2 fadd_master (fadd_apprentice 0xbff0000000000001) =
     Inl Signed_Overflow"
proof (rule rounding_option_undefined)
  show "fp_opts (default_opts APPLE\<lparr>fp_opts := fp_opt_ignore_round\<rparr>) = fp_opt_ignore_round \<and>
      rounds_double (prev_insn fadd_master) \<or>
    fp_opts (default_opts APPLE\<lparr>fp_opts := fp_opt_ignore_round\<rparr>) = fp_opt_ignore_round_s \<and>
      rounds_single (prev_insn fadd_master)"
    by (simp add: rounds_double_def insn_is_def fadd_master_def insn_fadd_def)
  show "1 = field5 (prev_insn fadd_master) 21" by (simp add: fadd_master_def blank_fadd_regs)
  have "(fadd_apprentice 0xbff0000000000001)\<lparr>fpregs := fpregs fadd_master\<rparr> = fadd_master"
    by (simp add: fadd_apprentice_def fadd_master_def)
  then show "regs_agree (default_opts APPLE\<lparr>fp_opts := fp_opt_ignore_round\<rparr>) fadd_master
      ((fadd_apprentice 0xbff0000000000001)\<lparr>fpregs := fpregs fadd_master\<rparr>)" by simp
  show "fpregs (fadd_apprentice 0xbff0000000000001) = (fpregs fadd_master)[1 := fpregs fadd_master ! 1 XOR push_bit 63 1]"
    by (simp add: fadd_apprentice_def fadd_master_def)
  show "\<not> masked_out (fpregs_mask (default_opts APPLE\<lparr>fp_opts := fp_opt_ignore_round\<rparr>)) 1"
    by (simp add: default_opts_def masked_out_def)
  show "wf_reginfo fadd_master" by (simp add: fadd_master_def wf_reginfo_def blank_reginfo_def risu_reg_index)
  show "\<not> anyqnan (fpregs fadd_master ! 1)" by (simp add: fadd_master_def anyqnan_def)
qed

end
