(* ===== verification/PPC_Dump.thy ===== *)
theory PPC_Dump
  imports PPC_Compare Text_Output
begin

text \<open>
  \<^verbatim>\<open>reginfo_dump\<close> and \<^verbatim>\<open>reginfo_dump_mismatch\<close> of \<^verbatim>\<open>src/risu_reginfo_ppc64.c\<close>: the text written for a register
  image, and the list of differences written after a mismatch. The stream is the string printed to it.
\<close>

section \<open>The dump of an image\<close>

definition insn_line :: "string \<Rightarrow> u32 \<Rightarrow> u32 \<Rightarrow> string" where
  "insn_line what at insn = what @ '' insn @ '' @ hex08 at @ '' : '' @ hex08 insn @ nl"

definition gpr_line :: "reginfo \<Rightarrow> nat \<Rightarrow> string" where
  "gpr_line ri i =
     tab @ ''r'' @ decn i @ (if i < 10 then '' '' else []) @ '' : '' @ hex08 (gregs ri ! i) @
     tab @ ''r'' @ decn (i + 16) @ '' : '' @ hex08 (gregs ri ! (i + 16)) @ nl"

definition fpr_line :: "reginfo \<Rightarrow> nat \<Rightarrow> string" where
  "fpr_line ri i =
     tab @ ''f'' @ decn i @ (if i < 10 then '' '' else []) @ '' : '' @ hex016 (fpregs ri ! i) @
     tab @ ''f'' @ decn (i + 16) @ '' : '' @ hex016 (fpregs ri ! (i + 16)) @ nl"

definition special_line :: "string \<Rightarrow> u32 \<Rightarrow> string" where
  "special_line name v = tab @ name @ '' : '' @ hex08 v @ nl"

definition reginfo_dump :: "platform \<Rightarrow> reginfo \<Rightarrow> string" where
  "reginfo_dump p ri =
     insn_line ''2nd prev'' (nip ri - 8) (second_prev_insn ri) @
     insn_line ''previous'' (nip ri - 4) (prev_insn ri) @
     insn_line ''faulting'' (nip ri + 0) (faulting_insn ri) @
     insn_line ''    next'' (nip ri + 4) (next_insn ri) @ nl @
     concat (map (gpr_line ri) [0..<16]) @ nl @
     special_line ''nip   '' (gregs ri ! risu_NIP) @
     special_line ''msr   '' (gregs ri ! risu_MSR) @
     special_line ''ctr   '' (gregs ri ! risu_CTR) @
     special_line ''lnk   '' (gregs ri ! risu_LNK) @
     special_line ''xer   '' (gregs ri ! risu_XER) @
     special_line ''ccr   '' (gregs ri ! risu_CCR) @
     special_line ''mq    '' (gregs ri ! risu_MQ) @
     (if p \<noteq> APPLE \<and> p \<noteq> RISU_DPPC
      then special_line ''dar   '' (gregs ri ! risu_DAR) @ special_line ''dsisr '' (gregs ri ! risu_DSISR)
      else []) @
     concat (map (fpr_line ri) [0..<16]) @
     special_line ''fpscr'' (fpscr ri) @ nl"

section \<open>The list of differences\<close>

definition mismatch_line :: "string \<Rightarrow> string \<Rightarrow> string \<Rightarrow> string" where
  "mismatch_line name mv av = ''Mismatch: '' @ name @ '' m: ['' @ mv @ ''] != a: ['' @ av @ '']'' @ nl"

definition gpr_mismatch :: "ppc_opts \<Rightarrow> reginfo \<Rightarrow> reginfo \<Rightarrow> nat \<Rightarrow> string" where
  "gpr_mismatch opts m a i =
     (if masked_out (gregs_mask opts) i then []
      else if gregs m ! i \<noteq> gregs a ! i
      then mismatch_line (''r'' @ decn i) (hex08 (gregs m ! i)) (hex08 (gregs a ! i)) else [])"

definition special_mismatch :: "string \<Rightarrow> u32 \<Rightarrow> u32 \<Rightarrow> string" where
  "special_mismatch name mv av = (if mv \<noteq> av then mismatch_line name (hex08 mv) (hex08 av) else [])"

definition fpr_mismatch :: "reginfo \<Rightarrow> reginfo \<Rightarrow> nat \<Rightarrow> string" where
  "fpr_mismatch m a i =
     (if fpregs m ! i \<noteq> fpregs a ! i
      then mismatch_line (''f'' @ decn i) (hex016 (fpregs m ! i)) (hex016 (fpregs a ! i)) else [])"

definition reginfo_dump_mismatch :: "ppc_opts \<Rightarrow> reginfo \<Rightarrow> reginfo \<Rightarrow> string" where
  "reginfo_dump_mismatch opts m a =
     concat (map (gpr_mismatch opts m a) [0..<32]) @
     special_mismatch ''ctr'' (gregs m ! risu_CTR) (gregs a ! risu_CTR) @
     special_mismatch ''lr (relative to pc)'' (gregs m ! risu_LNK - gregs m ! risu_NIP)
       (gregs a ! risu_LNK - gregs a ! risu_NIP) @
     special_mismatch ''xer'' (gregs m ! risu_XER) (gregs a ! risu_XER) @
     special_mismatch ''ccr'' (gregs m ! risu_CCR) (gregs a ! risu_CCR) @
     special_mismatch ''mq'' (gregs m ! risu_MQ) (gregs a ! risu_MQ) @
     concat (map (fpr_mismatch m a) [0..<32]) @
     special_mismatch ''fpscr'' (fpscr m) (fpscr a)"

section \<open>What is reported\<close>

lemma mismatch_line_nonempty [simp]: "mismatch_line name mv av \<noteq> []"
  by (simp add: mismatch_line_def)

lemma reported_iff [simp]:
  "special_mismatch name mv av = [] \<longleftrightarrow> mv = av"
  "gpr_mismatch opts m a i = [] \<longleftrightarrow> masked_out (gregs_mask opts) i \<or> gregs m ! i = gregs a ! i"
  "fpr_mismatch m a i = [] \<longleftrightarrow> fpregs m ! i = fpregs a ! i"
  by (auto simp: special_mismatch_def gpr_mismatch_def fpr_mismatch_def)

lemma concat_map_nil [simp]: "concat (map f xs) = [] \<longleftrightarrow> (\<forall>x\<in>set xs. f x = [])"
  by auto

lemma dump_mismatch_nil_iff:
  "reginfo_dump_mismatch opts m a = [] \<longleftrightarrow>
     (\<forall>i<32. masked_out (gregs_mask opts) i \<or> gregs m ! i = gregs a ! i) \<and>
     gregs m ! risu_CTR = gregs a ! risu_CTR \<and>
     gregs m ! risu_LNK - gregs m ! risu_NIP = gregs a ! risu_LNK - gregs a ! risu_NIP \<and>
     gregs m ! risu_XER = gregs a ! risu_XER \<and> gregs m ! risu_CCR = gregs a ! risu_CCR \<and>
     gregs m ! risu_MQ = gregs a ! risu_MQ \<and> (\<forall>i<32. fpregs m ! i = fpregs a ! i) \<and> fpscr m = fpscr a"
  unfolding reginfo_dump_mismatch_def by (auto simp del: concat_map_nil simp: concat_map_nil)

lemma compare_gprs_False:
  "compare_gprs msk m rt ra rb is a = Inr (False, b) \<Longrightarrow>
     \<exists>i\<in>set is. \<not> masked_out msk i \<and> gregs m ! i \<noteq> gregs b ! i"
  by (induction "is" arbitrary: a) (auto split: if_splits)

lemma compare_fpregs_False:
  "compare_fpregs opts m rt ra rb rc is a = Inr (False, b) \<Longrightarrow> \<exists>i\<in>set is. fpregs m ! i \<noteq> fpregs b ! i"
  by (induction "is" arbitrary: a) (auto split: if_splits)

lemma special_False:
  "compare_xer opts m a = Inr (False, b) \<Longrightarrow> gregs m ! risu_XER \<noteq> gregs b ! risu_XER"
  "compare_lnk m a = Inr (False, b) \<Longrightarrow>
     gregs m ! risu_LNK - gregs m ! risu_NIP \<noteq> gregs b ! risu_LNK - gregs b ! risu_NIP"
  "compare_ctr m a = Inr (False, b) \<Longrightarrow> gregs m ! risu_CTR \<noteq> gregs b ! risu_CTR"
  "compare_ccr opts m rt ra rb a = Inr (False, b) \<Longrightarrow> gregs m ! risu_CCR \<noteq> gregs b ! risu_CCR"
  "compare_mq opts n m rt ra rb a = Inr (False, b) \<Longrightarrow> gregs m ! risu_MQ \<noteq> gregs b ! risu_MQ"
  "compare_fpscr opts m a = Inr (False, b) \<Longrightarrow> fpscr m \<noteq> fpscr b"
  by (auto simp: compare_xer_def compare_lnk_def compare_ctr_def compare_ccr_def compare_mq_def
      compare_fpscr_def split: if_splits)

lemma whenEq_False:
  "whenEq r f = Inr (False, b) \<longleftrightarrow> r = Inr (False, b) \<or> (\<exists>a. r = Inr (True, a) \<and> f a = Inr (False, b))"
  by (cases r) (auto simp: whenEq_def split: if_splits)

lemma reginfo_is_eq_False_reported:
  assumes "reginfo_is_eq opts n m a = Inr (False, b)"
  shows "reginfo_dump_mismatch opts m b \<noteq> []"
proof -
  have "(\<exists>i<32. \<not> masked_out (local_gregs_mask opts a) i \<and> gregs m ! i \<noteq> gregs b ! i) \<or>
    gregs m ! risu_XER \<noteq> gregs b ! risu_XER \<or> gregs m ! risu_CTR \<noteq> gregs b ! risu_CTR \<or>
    gregs m ! risu_LNK - gregs m ! risu_NIP \<noteq> gregs b ! risu_LNK - gregs b ! risu_NIP \<or>
    gregs m ! risu_CCR \<noteq> gregs b ! risu_CCR \<or> gregs m ! risu_MQ \<noteq> gregs b ! risu_MQ \<or>
    fpscr m \<noteq> fpscr b \<or> (\<exists>i<32. fpregs m ! i \<noteq> fpregs b ! i)"
    using assms unfolding reginfo_is_eq_def Let_def whenEq_False
    by (elim disjE exE conjE) (auto dest!: special_False compare_gprs_False compare_fpregs_False)
  then show ?thesis unfolding dump_mismatch_nil_iff using local_mask_smaller by blast
qed

section \<open>Reading printed numbers back\<close>

lemma of_char_nibble: "n < 16 \<Longrightarrow> (of_char (nibble_char n) :: nat) = (if n < 10 then 48 + n else 87 + n)"
  by (simp add: nibble_char_def)

lemma hex_digit_nibble [simp]: "n < 16 \<Longrightarrow> hex_digit (nibble_char n) = Some n"
  by (simp add: of_char_nibble Let_def)

lemma hex_value_snoc:
  "\<forall>c\<in>set cs. hex_digit c \<noteq> None \<Longrightarrow> hex_digit c = Some d \<Longrightarrow>
     hex_value acc (cs @ [c]) = 16 * hex_value acc cs + d"
  by (induction cs arbitrary: acc) (auto simp del: hex_digit.simps)

lemma unat_nibble: "unat (w AND 15 :: 'a::len word) = unat w mod 16"
proof -
  have m: "(15 :: 'a word) = mask 4" by (simp add: mask_eq_exp_minus_1)
  show ?thesis
    unfolding m take_bit_eq_mask [symmetric] unsigned_take_bit_eq by (simp add: take_bit_eq_mod)
qed

lemma hexn_digits: "c \<in> set (hexn k (w :: 'a::len word)) \<Longrightarrow> \<exists>n<16. c = nibble_char n"
  by (induction k arbitrary: w) (auto simp: unat_nibble intro: exI [of _ "unat _ mod 16"])

lemma hex_value_hexn:
  "hex_value 0 (hexn k (w :: 'a::len word)) = unat w mod 16 ^ k"
proof (induction k arbitrary: w)
  case (Suc k)
  have d: "hex_digit (nibble_char (unat (w AND 15))) = Some (unat w mod 16)"
    by (simp add: unat_nibble del: hex_digit.simps)
  have "\<forall>c\<in>set (hexn k (drop_bit 4 w)). hex_digit c \<noteq> None"
    using hexn_digits  by (fastforce simp del: hex_digit.simps)
  then have "hex_value 0 (hexn (Suc k) w) = 16 * (unat (drop_bit 4 w) mod 16 ^ k) + unat w mod 16"
    using hex_value_snoc [OF _ d] Suc by simp
  also have "unat (drop_bit 4 w) = unat w div 16"
    unfolding unat_drop_bit_eq by (simp add: drop_bit_eq_div)
  also have "16 * (unat w div 16 mod 16 ^ k) + unat w mod 16 = unat w mod 16 ^ Suc k"
    using mod_mult2_eq [of "unat w" 16 "16 ^ k"] by simp
  finally show ?case .
qed simp

lemma hex08_shape: "\<exists>n k cs. n < 16 \<and> k < 16 \<and> hex08 w = nibble_char n # nibble_char k # cs"
proof -
  have "length (hexn j v) = j" for j and v :: u32 by (induction j arbitrary: v) auto
  then have "length (hex08 w) = 8" by (simp add: hex08_def)
  then obtain c d cs where "hex08 w = c # d # cs" by (cases "hex08 w"; cases "tl (hex08 w)") auto
  moreover from this have "c \<in> set (hexn 8 w)" "d \<in> set (hexn 8 w)" by (simp_all add: hex08_def)
  ultimately show ?thesis using hexn_digits [of _ 8 w] by metis
qed

lemma strtoul_hex08: "32 \<le> bits \<Longrightarrow> strtoul_16 bits (hex08 w) = unat w"
proof -
  assume bits: "32 \<le> bits"
  obtain n k cs where w: "n < 16" "k < 16" "hex08 w = nibble_char n # nibble_char k # cs"
    using hex08_shape by blast
  have c: "(of_char (nibble_char j) :: nat) \<notin> {32, 9, 10, 11, 12, 13, 43, 45, 120, 88}" if "j < 16" for j
    using that by (auto simp: of_char_nibble)
  have s: "dropWhile is_space (hex08 w) = hex08 w" using c [OF w(1)] by (simp add: w(3) is_space_def)
  have z: "strip_0x (hex08 w) = hex08 w"
    using c [OF w(2)] by (simp add: w(3) strip_0x_def split: list.split)
  have v: "hex_value 0 (hex08 w) = unat w"
    using hex_value_hexn [of 8 w] unsigned_less [of w, where ?'a = nat] by (simp add: hex08_def)
  have "unat w < 2 ^ bits"
    using unsigned_less [of w, where ?'a = nat] power_increasing [OF bits, of "2 :: nat"] by simp
  then show ?thesis
    using c [OF w(1)] unfolding strtoul_16_def s Let_def by (simp add: w(3)) (simp add: w(3) [symmetric] z v)
qed

section \<open>Properties\<close>

text \<open>
  C29: a mismatch is always reported: whenever the comparison fails, the list of differences printed
  for the images it leaves names at least one register; and when nothing would be printed for a pair of
  images, the comparison accepts them as they are.
\<close>

theorem mismatch_is_reported:
  assumes "wf_reginfo m" "wf_reginfo a"
  shows "(reginfo_is_eq opts n m a = Inr (False, b) \<longrightarrow> reginfo_dump_mismatch opts m b \<noteq> []) \<and>
    (reginfo_dump_mismatch opts m a = [] \<longrightarrow> reginfo_is_eq opts n m a = Inr (True, a))"
proof (intro conjI impI)
  assume nil: "reginfo_dump_mismatch opts m a = []"
  have "fpregs m = fpregs a"
    using assms nil unfolding dump_mismatch_nil_iff by (intro nth_equalityI) (auto simp: wf_reginfo_def)
  moreover have "\<forall>j\<in>set [0..<risu_NGREG]. taken_over (local_gregs_mask opts a) j \<longrightarrow> gregs m ! j = gregs a ! j"
    using nil local_mask_smaller unfolding dump_mismatch_nil_iff taken_over_def by blast
  ultimately show "reginfo_is_eq opts n m a = Inr (True, a)"
    using nil unfolding dump_mismatch_nil_iff by (intro reginfo_is_eq_agree) (simp add: regs_agree_def)
qed (rule reginfo_is_eq_False_reported)

theorem mismatch_is_reported_witness:
  "reginfo_is_eq (default_opts APPLE) 2 blank_reginfo blank_reginfo = Inr (True, blank_reginfo)"
  using mismatch_is_reported [of blank_reginfo blank_reginfo "default_opts APPLE" 2]
  by (simp add: dump_mismatch_nil_iff)

text \<open>
  A 32-bit value printed the way the dumps print it is read back by the option parser: giving it as
  the argument of \<^verbatim>\<open>--ccr_mask\<close>, \<^verbatim>\<open>--fpscr_mask\<close> or \<^verbatim>\<open>--fp_opts\<close> sets that option to exactly this value, on machines
  with a 32-bit or a 64-bit \<^verbatim>\<open>unsigned long\<close>.
\<close>

lemma printed_value_round_trip:
  "process_arch_opt 32 (FIRST_ARCH_OPT + 0) (hex08 w) opts = Inr (opts\<lparr>ccr_mask := w\<rparr>) \<and>
   process_arch_opt 64 (FIRST_ARCH_OPT + 0) (hex08 w) opts = Inr (opts\<lparr>ccr_mask := w\<rparr>) \<and>
   process_arch_opt 64 (FIRST_ARCH_OPT + 1) (hex08 w) opts = Inr (opts\<lparr>fpscr_mask := w\<rparr>) \<and>
   process_arch_opt 64 (FIRST_ARCH_OPT + 4) (hex08 w) opts = Inr (opts\<lparr>fp_opts := w\<rparr>)"
  by (simp add: process_arch_opt_def strtoul_hex08 Let_def)

end
