(* ===== verification/Harness.thy ===== *)
theory Harness
  imports Comms
begin

text \<open>
  The harness proper (\<^verbatim>\<open>src/risu.c\<close>): the trace header and its byte order, the transport of a record
  over a socket or a trace file, and what master and apprentice do when the image under test raises a
  signal. The static variables of the file are the record \<open>risu\<close>; what the file calls in the
  architecture back end (\<^verbatim>\<open>src/risu.h\<close>, functions operating on reginfo) is the record \<open>arch\<close>, an argument of
  every definition that uses it. The build without \<^verbatim>\<open>HAVE_ZLIB\<close> is modelled.
\<close>

section \<open>State and interface\<close>

text \<open>
  \<open>little_endian_macro\<close> tells whether \<^verbatim>\<open>__LITTLE_ENDIAN__\<close> is defined, \<open>host_is_big\<close> how the host stores
  words, \<open>has_sockets\<close> is false for the Mac OS 9 build.
\<close>

record ('uc, 'ri) arch =
  little_endian_macro :: bool
  host_is_big :: bool
  has_sockets :: bool
  big_endian :: bool
  start_address :: arch_ptr
  ri_init :: "'uc \<Rightarrow> arch_ptr \<Rightarrow> fault + 'ri"
  ri_update :: "'ri \<Rightarrow> 'uc \<Rightarrow> 'uc"
  ri_is_eq :: "nat \<Rightarrow> 'ri \<Rightarrow> 'ri \<Rightarrow> fault + bool \<times> 'ri"
  ri_size :: "'ri \<Rightarrow> int"
  sizeof_ri :: nat
  ri_bytes :: "'ri \<Rightarrow> byte list"
  ri_of_bytes :: "byte list \<Rightarrow> 'ri"
  ri_host_to_arch :: "'ri \<Rightarrow> 'ri"
  ri_arch_to_host :: "'ri \<Rightarrow> 'ri"
  risuop_of :: "'ri \<Rightarrow> RisuOp"
  pc_of :: "'uc \<Rightarrow> 'ri \<Rightarrow> arch_ptr"
  paramreg_of :: "'ri \<Rightarrow> arch_ptr"
  uc_pc_of :: "'uc \<Rightarrow> arch_ptr \<Rightarrow> arch_ptr"
  uc_set_paramreg :: "'uc \<Rightarrow> arch_ptr \<Rightarrow> 'uc"
  uc_advance :: "'uc \<Rightarrow> 'uc"
  arch_memory :: "arch_ptr \<Rightarrow> arch_ptr option"
  mem_read :: "'uc \<Rightarrow> arch_ptr \<Rightarrow> nat \<Rightarrow> byte list"
  ri_dump :: "'ri \<Rightarrow> string"
  ri_dump_mismatch :: "'ri \<Rightarrow> 'ri \<Rightarrow> string"

record 'ri risu =
  ri_master :: 'ri
  ri_apprentice :: 'ri
  other_memblock :: "byte list"
  header :: trace_header
  memblock :: "arch_ptr option"
  arch_memblock :: arch_ptr
  comm :: sock
  trace :: bool
  signal_count :: nat
  illegal_instructions :: nat
  signal_pc :: arch_ptr
  is_setup :: bool

section \<open>The header\<close>

text \<open>
  The swap of the compilers in use (the built-in one). The portable macro would shift \<^verbatim>\<open>risu_op\<close>, which is signed,
  arithmetically; what it computes then is in the theory on byte order.
\<close>

definition byte_swap_header :: "trace_header \<Rightarrow> trace_header" where
  "byte_swap_header h =
     h\<lparr>magic := BYTESWAP_32 (magic h), size := BYTESWAP_32 (size h),
       risu_op := BYTESWAP_32 (risu_op h), pc := BYTESWAP_32 (pc h)\<rparr>"

definition header_host_to_arch :: "('uc, 'ri) arch \<Rightarrow> trace_header \<Rightarrow> trace_header" where
  "header_host_to_arch A h =
     (if (if little_endian_macro A then \<not> \<not> big_endian A else \<not> big_endian A) then
        if magic h \<noteq> BYTESWAP_32 RISU_MAGIC then byte_swap_header h else h
      else h)"

definition header_arch_to_host :: "trace_header \<Rightarrow> trace_header" where
  "header_arch_to_host h = (if magic h = BYTESWAP_32 RISU_MAGIC then byte_swap_header h else h)"

text \<open>The sixteen bytes of \<^verbatim>\<open>trace_header_t\<close> in memory.\<close>

definition header_bytes :: "bool \<Rightarrow> trace_header \<Rightarrow> byte list" where
  "header_bytes big h = enc_words big 4 [magic h, size h, risu_op h, pc h]"

definition header_of_bytes :: "bool \<Rightarrow> byte list \<Rightarrow> trace_header" where
  "header_of_bytes big bs =
     (let ws = dec_words big 4 4 bs
      in \<lparr>magic = ws ! 0, size = ws ! 1, risu_op = ws ! 2, pc = ws ! 3\<rparr>)"

definition header_op :: "trace_header \<Rightarrow> RisuOp" where
  "header_op h = op_of_int (sint (risu_op h))"

section \<open>Transport\<close>

definition read_buffer :: "('uc, 'ri) arch \<Rightarrow> nat \<Rightarrow> 'ri risu \<Rightarrow> fault + RisuResult \<times> byte list \<times> 'ri risu" where
  "read_buffer A bytes st =
     (if has_sockets A \<and> \<not> trace st then
        andThen (recv_data_pkt bytes (comm st)) (\<lambda>(r, bs, s). Inr (r, bs, st\<lparr>comm := s\<rparr>))
      else
        (case sys_read bytes (comm st) of
           None \<Rightarrow> Inl Waiting
         | Some (res, bs, s) \<Rightarrow>
             Inr (if res = int bytes then RES_OK else RES_BAD_IO, bs, st\<lparr>comm := s\<rparr>)))"

text \<open>
  The object behind the pointer is a list of bytes; asking for more of them leaves the object. This is the plain \<^verbatim>\<open>write\<close> of
  Linux; \<^verbatim>\<open>gzwrite\<close>, and the \<^verbatim>\<open>write\<close> of Mac OS X, refuse lengths above \<^verbatim>\<open>INT_MAX\<close>.
\<close>

definition write_buffer :: "('uc, 'ri) arch \<Rightarrow> byte list \<Rightarrow> nat \<Rightarrow> 'ri risu \<Rightarrow> fault + RisuResult \<times> 'ri risu" where
  "write_buffer A ptr bytes st =
     (if has_sockets A \<and> \<not> trace st then
        andThen (send_data_pkt ptr bytes (comm st)) (\<lambda>(r, s). Inr (r, st\<lparr>comm := s\<rparr>))
      else if length ptr < bytes then Inl Out_Of_Bounds
      else
        (case sys_write (take bytes ptr) (comm st) of
           None \<Rightarrow> Inl Waiting
         | Some (res, s) \<Rightarrow> Inr (if res = int bytes then RES_OK else RES_BAD_IO, st\<lparr>comm := s\<rparr>)))"

definition respond :: "RisuResult \<Rightarrow> 'ri risu \<Rightarrow> fault + 'ri risu" where
  "respond r st =
     (if \<not> trace st then andThen (send_response_byte r (comm st)) (\<lambda>s. Inr (st\<lparr>comm := s\<rparr>))
      else Inr st)"

section \<open>The master's side\<close>

text \<open>
  The first \<^verbatim>\<open>switch\<close> of \<^verbatim>\<open>send_register_info\<close>: the payload size, the payload (none for a null pointer),
  and the state with the register image in the order of the architecture.
\<close>

definition payload ::
  "('uc, 'ri) arch \<Rightarrow> 'uc \<Rightarrow> RisuOp \<Rightarrow> 'ri risu \<Rightarrow> fault + u32 \<times> byte list option \<times> 'ri risu" where
  "payload A uc op st =
     (case op of
        OP_TESTEND \<Rightarrow>
          (let r = ri_host_to_arch A (ri_master st)
           in Inr (of_int (ri_size A (ri_master st)), Some (ri_bytes A r), st\<lparr>ri_master := r\<rparr>))
      | OP_COMPARE \<Rightarrow>
          (let r = ri_host_to_arch A (ri_master st)
           in Inr (of_int (ri_size A (ri_master st)), Some (ri_bytes A r), st\<lparr>ri_master := r\<rparr>))
      | OP_SIGILL \<Rightarrow>
          (let r = ri_host_to_arch A (ri_master st)
           in Inr (of_int (ri_size A (ri_master st)), Some (ri_bytes A r), st\<lparr>ri_master := r\<rparr>))
      | OP_COMPAREMEM \<Rightarrow>
          Inr (of_nat MEMBLOCKLEN, map_option (\<lambda>p. mem_read A uc p MEMBLOCKLEN) (memblock st), st)
      | OP_SETMEMBLOCK \<Rightarrow> Inr (0, None, st)
      | OP_GETMEMBLOCK \<Rightarrow> Inr (0, None, st)
      | OP_SETUPBEGIN \<Rightarrow> Inr (0, None, st)
      | OP_SETUPEND \<Rightarrow> Inr (0, None, st)
      | OP_UNKNOWN _ \<Rightarrow> Inl Abort)"

text \<open>The second \<^verbatim>\<open>switch\<close>, after the record was written.\<close>

definition master_effect ::
  "('uc, 'ri) arch \<Rightarrow> RisuOp \<Rightarrow> 'uc \<Rightarrow> 'ri risu \<Rightarrow> fault + RisuResult \<times> 'uc \<times> 'ri risu" where
  "master_effect A op uc st =
     (case op of
        OP_COMPARE \<Rightarrow> Inr (RES_OK, uc, st)
      | OP_SIGILL \<Rightarrow> Inr (RES_OK, uc, st)
      | OP_COMPAREMEM \<Rightarrow> Inr (RES_OK, uc, st)
      | OP_TESTEND \<Rightarrow> Inr (RES_END, uc, st)
      | OP_SETMEMBLOCK \<Rightarrow>
          (let am = paramreg_of A (ri_master st)
           in Inr (RES_OK, uc, st\<lparr>arch_memblock := am, memblock := arch_memory A am\<rparr>))
      | OP_GETMEMBLOCK \<Rightarrow>
          Inr (RES_OK, uc_set_paramreg A uc (paramreg_of A (ri_master st) + arch_memblock st), st)
      | OP_SETUPBEGIN \<Rightarrow> Inr (RES_OK, uc, st\<lparr>is_setup := True\<rparr>)
      | OP_SETUPEND \<Rightarrow> Inr (RES_OK, uc, st\<lparr>is_setup := False\<rparr>)
      | OP_UNKNOWN _ \<Rightarrow> Inl Abort)"

text \<open>Header and payload, and then the second switch.\<close>

definition send_record ::
  "('uc, 'ri) arch \<Rightarrow> RisuOp \<Rightarrow> 'uc \<Rightarrow> arch_ptr \<Rightarrow> 'ri risu \<Rightarrow> fault + RisuResult \<times> 'uc \<times> 'ri risu" where
  "send_record A op uc p st =
     andThen (payload A uc op st) (\<lambda>(sz, extra, st).
       let h = header_host_to_arch A
             ((header st)\<lparr>magic := RISU_MAGIC, pc := p, risu_op := of_int (int_of_op op), size := sz\<rparr>);
           st = st\<lparr>header := h\<rparr>
       in andThen (write_buffer A (header_bytes (host_is_big A) h) 16 st) (\<lambda>(res, st).
            if res \<noteq> RES_OK then Inr (res, uc, st)
            else
              andThen
                (case extra of
                   None \<Rightarrow> Inr (RES_OK, st)
                 | Some bs \<Rightarrow> write_buffer A bs (unat (size (header st))) st)
                (\<lambda>(res, st). if res \<noteq> RES_OK then Inr (res, uc, st) else master_effect A op uc st)))"

definition count_illegal :: "RisuOp \<Rightarrow> 'ri risu \<Rightarrow> 'ri risu" where
  "count_illegal op st =
     (if op = OP_SIGILL then st\<lparr>illegal_instructions := illegal_instructions st + 1\<rparr> else st)"

definition send_register_info ::
  "('uc, 'ri) arch \<Rightarrow> 'uc \<Rightarrow> arch_ptr \<Rightarrow> 'ri risu \<Rightarrow> fault + RisuResult \<times> 'uc \<times> 'ri risu" where
  "send_register_info A uc siaddr st =
     andThen (ri_init A uc siaddr) (\<lambda>r.
       let op = risuop_of A r;
           st = count_illegal op (st\<lparr>ri_master := r\<rparr>)
       in if op = OP_SIGILL \<and> is_setup st then Inr (RES_OK, uc, st)
          else send_record A op uc (pc_of A uc r) st)"

text \<open>A handler either returns to the image or leaves by \<^verbatim>\<open>siglongjmp\<close>.\<close>

datatype 'uc handler_exit = Resume 'uc | Longjmp RisuResult
datatype signal = SIGILL | SIGBUS

definition leave_handler ::
  "('uc, 'ri) arch \<Rightarrow> arch_ptr \<Rightarrow> RisuResult \<Rightarrow> 'uc \<Rightarrow> 'ri risu \<Rightarrow> fault + 'uc handler_exit \<times> 'ri risu" where
  "leave_handler A siaddr r uc st =
     (if r = RES_OK then Inr (Resume (uc_advance A uc), st)
      else Inr (Longjmp r, st\<lparr>signal_pc := uc_pc_of A uc siaddr\<rparr>))"

definition master_sigill ::
  "('uc, 'ri) arch \<Rightarrow> signal \<Rightarrow> arch_ptr \<Rightarrow> 'uc \<Rightarrow> 'ri risu \<Rightarrow> fault + 'uc handler_exit \<times> 'ri risu" where
  "master_sigill A sig siaddr uc st =
     (let st = st\<lparr>signal_count := signal_count st + 1\<rparr>
      in if sig = SIGBUS then leave_handler A siaddr RES_SIGBUS uc st
         else andThen (send_register_info A uc siaddr st) (\<lambda>(r, uc, st). leave_handler A siaddr r uc st))"

section \<open>The apprentice's side\<close>

text \<open>The \<^verbatim>\<open>switch\<close> of \<^verbatim>\<open>recv_register_info\<close> on the operation in the header.\<close>

definition recv_payload :: "('uc, 'ri) arch \<Rightarrow> 'ri risu \<Rightarrow> fault + RisuResult \<times> 'ri risu" where
  "recv_payload A st =
     (let h = header st
      in if header_op h \<in> {OP_COMPARE, OP_TESTEND, OP_SIGILL} then
           if sizeof_ri A < unat (size h) then Inr (RES_BAD_SIZE_HEADER, st)
           else
             andThen (respond RES_OK st) (\<lambda>st.
             andThen (read_buffer A (unat (size h)) st) (\<lambda>(res, bs, st).
               let r = ri_arch_to_host A (ri_of_bytes A (fill bs (ri_bytes A (ri_master st))));
                   st = st\<lparr>ri_master := r\<rparr>
               in if res = RES_OK \<and> size h \<noteq> of_int (ri_size A r) then Inr (RES_BAD_SIZE_REGINFO, st)
                  else Inr (res, st)))
         else if header_op h = OP_COMPAREMEM then
           if size h \<noteq> of_nat MEMBLOCKLEN then Inr (RES_BAD_SIZE_MEMBLOCK, st)
           else
             andThen (respond RES_OK st) (\<lambda>st.
             andThen (read_buffer A MEMBLOCKLEN st) (\<lambda>(res, bs, st).
               Inr (res, st\<lparr>other_memblock := fill bs (other_memblock st)\<rparr>)))
         else if header_op h \<in> {OP_SETMEMBLOCK, OP_GETMEMBLOCK, OP_SETUPBEGIN, OP_SETUPEND} then
           Inr (if size h = 0 then RES_OK else RES_BAD_SIZE_ZERO, st)
         else Inr (RES_BAD_OP, st))"

definition recv_register_info :: "('uc, 'ri) arch \<Rightarrow> 'ri risu \<Rightarrow> fault + RisuResult \<times> 'ri risu" where
  "recv_register_info A st =
     andThen (read_buffer A 16 st) (\<lambda>(res, bs, st).
       let h = header_of_bytes (host_is_big A) (fill bs (header_bytes (host_is_big A) (header st)))
       in if res \<noteq> RES_OK then Inr (res, st\<lparr>header := h\<rparr>)
          else
            (let st = st\<lparr>header := header_arch_to_host h\<rparr>
             in if magic (header st) \<noteq> RISU_MAGIC then Inr (RES_BAD_MAGIC, st) else recv_payload A st))"

text \<open>The \<^verbatim>\<open>switch\<close> of \<^verbatim>\<open>recv_and_compare_register_info\<close>.\<close>

definition compare_registers ::
  "('uc, 'ri) arch \<Rightarrow> RisuOp \<Rightarrow> 'uc \<Rightarrow> 'ri risu \<Rightarrow> fault + RisuResult \<times> 'uc \<times> 'ri risu" where
  "compare_registers A op uc st =
     (let hop = header_op (header st)
      in if hop \<noteq> OP_COMPARE \<and> hop \<noteq> OP_TESTEND \<and> hop \<noteq> OP_SIGILL then Inr (RES_MISMATCH_OP, uc, st)
         else
           andThen
             (if is_setup st then Inr (True, st)
              else andThen (ri_is_eq A (signal_count st) (ri_master st) (ri_apprentice st))
                (\<lambda>(eq, a). Inr (eq, st\<lparr>ri_apprentice := a\<rparr>)))
             (\<lambda>(eq, st).
               if \<not> eq then Inr (RES_MISMATCH_REG, uc, st)
               else if op \<noteq> hop then Inr (RES_MISMATCH_OP, uc, st)
               else if op = OP_TESTEND then Inr (RES_END, uc, st)
               else if op \<noteq> OP_SIGILL then Inr (RES_OK, ri_update A (ri_master st) uc, st)
               else Inr (RES_OK, uc, st)))"

definition compare_effect ::
  "('uc, 'ri) arch \<Rightarrow> RisuOp \<Rightarrow> 'uc \<Rightarrow> 'ri risu \<Rightarrow> fault + RisuResult \<times> 'uc \<times> 'ri risu" where
  "compare_effect A op uc st =
     (let hop = header_op (header st)
      in if op \<in> {OP_COMPARE, OP_TESTEND, OP_SIGILL} then compare_registers A op uc st
         else if \<not> op_known op then Inl Abort
         else if op \<noteq> hop then Inr (RES_MISMATCH_OP, uc, st)
         else if op = OP_SETMEMBLOCK then
           (let am = paramreg_of A (ri_apprentice st)
            in Inr (RES_OK, uc, st\<lparr>arch_memblock := am, memblock := arch_memory A am\<rparr>))
         else if op = OP_GETMEMBLOCK then
           Inr (RES_OK, uc_set_paramreg A uc (paramreg_of A (ri_apprentice st) + arch_memblock st), st)
         else if op = OP_COMPAREMEM then
           (case memblock st of
              None \<Rightarrow> Inl Out_Of_Bounds
            | Some p \<Rightarrow>
                Inr (if mem_read A uc p MEMBLOCKLEN \<noteq> other_memblock st then RES_MISMATCH_MEM else RES_OK, uc, st))
         else Inr (RES_OK, uc, st\<lparr>is_setup := (op = OP_SETUPBEGIN)\<rparr>))"

definition recv_and_compare_register_info ::
  "('uc, 'ri) arch \<Rightarrow> 'uc \<Rightarrow> arch_ptr \<Rightarrow> 'ri risu \<Rightarrow> fault + RisuResult \<times> 'uc \<times> 'ri risu" where
  "recv_and_compare_register_info A uc siaddr st =
     andThen (ri_init A uc siaddr) (\<lambda>a.
       let op = risuop_of A a;
           st = count_illegal op (st\<lparr>ri_apprentice := a\<rparr>)
       in if op = OP_SIGILL \<and> is_setup st then Inr (RES_OK, uc, st)
          else
            andThen
              (andThen (recv_register_info A st) (\<lambda>(res, st).
                 if res \<noteq> RES_OK then Inr (res, uc, st) else compare_effect A op uc st))
              (\<lambda>(res, uc, st).
                 andThen (respond (if res = RES_OK then RES_OK else RES_END) st) (\<lambda>st. Inr (res, uc, st))))"

definition apprentice_sigill ::
  "('uc, 'ri) arch \<Rightarrow> signal \<Rightarrow> arch_ptr \<Rightarrow> 'uc \<Rightarrow> 'ri risu \<Rightarrow> fault + 'uc handler_exit \<times> 'ri risu" where
  "apprentice_sigill A sig siaddr uc st =
     (let st = st\<lparr>signal_count := signal_count st + 1\<rparr>
      in if sig = SIGBUS then leave_handler A siaddr RES_SIGBUS uc st
         else andThen (recv_and_compare_register_info A uc siaddr st)
           (\<lambda>(r, uc, st). leave_handler A siaddr r uc st))"

section \<open>The header on the wire\<close>

lemma length_header_bytes [simp]: "length (header_bytes big h) = 16"
  by (simp add: header_bytes_def)

lemma header_of_bytes_bytes [simp]: "header_of_bytes big (header_bytes big h) = h"
  using dec_words_enc_words [of 4 "[magic h, size h, risu_op h, pc h]" 4 big "[]"]
  by (simp add: header_of_bytes_def header_bytes_def Let_def)

interpretation header_layout: struct_layout "header_bytes big" "header_of_bytes big" 16 "\<lambda>_. True"
  by unfold_locales simp_all

lemma byte_swap_header_twice [simp]: "byte_swap_header (byte_swap_header h) = h"
  by (simp add: byte_swap_header_def)

lemma header_bytes_swap: "header_bytes big (byte_swap_header h) = header_bytes (\<not> big) h"
  by (simp add: header_bytes_def byte_swap_header_def)

lemma magic_swap [simp]: "magic (byte_swap_header h) = BYTESWAP_32 (magic h)"
  by (simp add: byte_swap_header_def)

definition swaps_header :: "('uc, 'ri) arch \<Rightarrow> bool" where
  "swaps_header A = (little_endian_macro A = big_endian A)"

lemma header_host_to_arch_fresh:
  "magic h = RISU_MAGIC \<Longrightarrow> header_host_to_arch A h = (if swaps_header A then byte_swap_header h else h)"
  using RISU_MAGIC_not_palindrome by (simp add: header_host_to_arch_def swaps_header_def eq_commute)

lemma header_arch_to_host_either:
  assumes "magic h = RISU_MAGIC"
  shows "header_arch_to_host h = h" "header_arch_to_host (byte_swap_header h) = h"
  using assms RISU_MAGIC_not_palindrome by (simp_all add: header_arch_to_host_def eq_commute)

lemma header_op_of_int [simp]:
  "op_known op \<Longrightarrow> header_op (h\<lparr>risu_op := of_int (int_of_op op), size := sz\<rparr>) = op"
  "op_known op \<Longrightarrow> risu_op k = of_int (int_of_op op) \<Longrightarrow> header_op k = op"
proof -
  have "op_known op \<Longrightarrow> sint (of_int (int_of_op op) :: u32) = int_of_op op"
    by (cases op) simp_all
  then show "op_known op \<Longrightarrow> header_op (h\<lparr>risu_op := of_int (int_of_op op), size := sz\<rparr>) = op"
    "op_known op \<Longrightarrow> risu_op k = of_int (int_of_op op) \<Longrightarrow> header_op k = op"
    by (simp_all add: header_op_def)
qed

section \<open>Trace files\<close>

text \<open>The next \<open>m\<close> system calls transfer whatever they are asked to, up to a memory block.\<close>

fun roomy :: "nat \<Rightarrow> sysret list \<Rightarrow> bool" where
  "roomy 0 p = True"
| "roomy (Suc m) (Xfer k # p) = (MEMBLOCKLEN \<le> k \<and> roomy m p)"
| "roomy (Suc m) p = False"

lemma roomy_SucE:
  assumes "roomy (Suc m) p"
  obtains k q where "p = Xfer k # q" "MEMBLOCKLEN \<le> k" "roomy m q"
  using assms by (cases "(Suc m, p)" rule: roomy.cases) auto

lemma write_buffer_traceD:
  assumes "write_buffer A bs n st = Inr (RES_OK, st')" "trace st"
  shows "n \<le> length bs" "\<exists>s. st' = st\<lparr>comm := s\<rparr> \<and> tx s = tx (comm st) @ take n bs"
  using assms
  by (auto simp: write_buffer_def sys_write_def split: if_splits list.splits sysret.splits)

lemma write_buffer_trace_result:
  "write_buffer A bs n st = Inr (r, st') \<Longrightarrow> trace st \<Longrightarrow> r = RES_OK \<or> r = RES_BAD_IO"
  by (auto simp: write_buffer_def split: if_splits option.splits)

lemma read_buffer_trace:
  assumes "trace st" "rx (comm st) = bs @ rest" "length bs = n" "n \<le> MEMBLOCKLEN" "roomy (Suc m) (plan (comm st))"
  shows "\<exists>s. read_buffer A n st = Inr (RES_OK, bs, st\<lparr>comm := s\<rparr>) \<and> rx s = rest \<and> roomy m (plan s)"
proof -
  obtain k q where "plan (comm st) = Xfer k # q" "MEMBLOCKLEN \<le> k" "roomy m q"
    using roomy_SucE [OF assms(5)] .
  with assms(1-4) show ?thesis by (auto simp: read_buffer_def sys_read_def Let_def min_def)
qed

lemma write_buffer_trace:
  assumes "trace st" "n \<le> length bs" "n \<le> MEMBLOCKLEN" "roomy (Suc m) (plan (comm st))"
  shows "\<exists>s. write_buffer A bs n st = Inr (RES_OK, st\<lparr>comm := s\<rparr>) \<and> tx s = tx (comm st) @ take n bs \<and> roomy m (plan s)"
proof -
  obtain k q where "plan (comm st) = Xfer k # q" "MEMBLOCKLEN \<le> k" "roomy m q"
    using roomy_SucE [OF assms(4)] .
  with assms(1-3) show ?thesis by (auto simp: write_buffer_def sys_write_def min_def)
qed

lemma roomy_replicate [simp]: "roomy n (replicate n (Xfer MEMBLOCKLEN))"
  by (induction n) simp_all

lemma header_other_order: "header_of_bytes (\<not> big) (header_bytes big h) = byte_swap_header h"
  using header_of_bytes_bytes [of "\<not> big" "byte_swap_header h"] by (simp add: header_bytes_swap)

lemma respond_trace [simp]: "trace st \<Longrightarrow> respond r st = Inr st"
  by (simp add: respond_def)

section \<open>One record\<close>

definition record_header :: "('uc, 'ri) arch \<Rightarrow> 'uc \<Rightarrow> 'ri \<Rightarrow> u32 \<Rightarrow> trace_header" where
  "record_header A uc r sz =
     \<lparr>magic = RISU_MAGIC, size = sz, risu_op = of_int (int_of_op (risuop_of A r)), pc = pc_of A uc r\<rparr>"

lemma record_header_update:
  "(h :: trace_header)\<lparr>magic := RISU_MAGIC, pc := pc_of A uc r, risu_op := of_int (int_of_op (risuop_of A r)), size := sz\<rparr> =
     record_header A uc r sz"
  by (cases h) (simp add: record_header_def)

lemma count_illegal_simps [simp]:
  "comm (count_illegal op st) = comm st" "trace (count_illegal op st) = trace st"
  "is_setup (count_illegal op st) = is_setup st" "memblock (count_illegal op st) = memblock st"
  "arch_memblock (count_illegal op st) = arch_memblock st" "ri_master (count_illegal op st) = ri_master st"
  "ri_apprentice (count_illegal op st) = ri_apprentice st" "header (count_illegal op st) = header st"
  "other_memblock (count_illegal op st) = other_memblock st" "signal_count (count_illegal op st) = signal_count st"
  by (simp_all add: count_illegal_def)

lemma send_skips_setup:
  assumes "ri_init A uc a = Inr r" "risuop_of A r = OP_SIGILL" "is_setup st"
  shows "send_register_info A uc a st = Inr (RES_OK, uc, count_illegal (risuop_of A r) (st\<lparr>ri_master := r\<rparr>))"
  using assms by (simp add: send_register_info_def)

lemma send_register_active:
  "ri_init A uc a = Inr r \<Longrightarrow> \<not> (risuop_of A r = OP_SIGILL \<and> is_setup st) \<Longrightarrow>
     send_register_info A uc a st =
       send_record A (risuop_of A r) uc (pc_of A uc r) (count_illegal (risuop_of A r) (st\<lparr>ri_master := r\<rparr>))"
  by (auto simp: send_register_info_def Let_def)

lemma recv_skips_setup:
  assumes "ri_init A uc a = Inr r" "risuop_of A r = OP_SIGILL" "is_setup st"
  shows "recv_and_compare_register_info A uc a st = Inr (RES_OK, uc, count_illegal (risuop_of A r) (st\<lparr>ri_apprentice := r\<rparr>))"
  using assms by (simp add: recv_and_compare_register_info_def)

text \<open>The calls of a master that has something to send.\<close>

lemma send_register_steps:
  assumes ini: "ri_init A uc a = Inr r" and act: "\<not> (risuop_of A r = OP_SIGILL \<and> is_setup st)" and ns: "\<not> swaps_header A"
    and send: "send_register_info A uc a st = Inr (res, uc', st')"
  obtains sz extra st1 where
    "payload A uc (risuop_of A r) (count_illegal (risuop_of A r) (st\<lparr>ri_master := r\<rparr>)) = Inr (sz, extra, st1)"
    "comm st1 = comm st" "trace st1 = trace st"
    "andThen (write_buffer A (header_bytes (host_is_big A) (record_header A uc r sz)) 16 (st1\<lparr>header := record_header A uc r sz\<rparr>)) (\<lambda>(res, st).
      if res \<noteq> RES_OK then Inr (res, uc, st)
      else andThen (case extra of None \<Rightarrow> Inr (RES_OK, st) | Some bs \<Rightarrow> write_buffer A bs (unat (size (header st))) st)
        (\<lambda>(res, st). if res \<noteq> RES_OK then Inr (res, uc, st) else master_effect A (risuop_of A r) uc st)) = Inr (res, uc', st')"
proof -
  let ?op = "risuop_of A r" and ?st0 = "count_illegal (risuop_of A r) (st\<lparr>ri_master := r\<rparr>)"
  have rec: "send_record A ?op uc (pc_of A uc r) ?st0 = Inr (res, uc', st')"
    using send act ini by (simp add: send_register_info_def Let_def)
  then obtain sz extra st1 where pay: "payload A uc ?op ?st0 = Inr (sz, extra, st1)"
    unfolding send_record_def by auto
  have st1: "comm st1 = comm st" "trace st1 = trace st"
    using pay by (auto simp: payload_def Let_def split: RisuOp.splits)
  have h: "header_host_to_arch A ((header st1)\<lparr>magic := RISU_MAGIC, pc := pc_of A uc r, risu_op := of_int (int_of_op ?op), size := sz\<rparr>) =
      record_header A uc r sz"
    by (subst header_host_to_arch_fresh) (use ns in \<open>simp_all add: record_header_def\<close>)
  show thesis by (rule that [OF pay st1]) (use rec in \<open>simp add: send_record_def pay Let_def h\<close>)
qed

text \<open>What a successful master has written, and what is left to do afterwards.\<close>

lemma send_trace:
  assumes ini: "ri_init A uc a = Inr r" and act: "\<not> (risuop_of A r = OP_SIGILL \<and> is_setup st)"
    and tr: "trace st" and ns: "\<not> swaps_header A" and ok: "res \<noteq> RES_BAD_IO"
    and send: "send_register_info A uc a st = Inr (res, uc', st')"
  obtains sz extra st1 s where
    "payload A uc (risuop_of A r) (count_illegal (risuop_of A r) (st\<lparr>ri_master := r\<rparr>)) = Inr (sz, extra, st1)"
    "case extra of None \<Rightarrow> True | Some bs \<Rightarrow> unat sz \<le> length bs"
    "tx s = tx (comm st) @ header_bytes (host_is_big A) (record_header A uc r sz) @
       (case extra of None \<Rightarrow> [] | Some bs \<Rightarrow> take (unat sz) bs)"
    "master_effect A (risuop_of A r) uc (st1\<lparr>header := record_header A uc r sz, comm := s\<rparr>) = Inr (res, uc', st')"
proof -
  let ?op = "risuop_of A r"
  obtain sz extra st1 where pay: "payload A uc ?op (count_illegal ?op (st\<lparr>ri_master := r\<rparr>)) = Inr (sz, extra, st1)"
    and st0: "comm st1 = comm st" "trace st1 = trace st"
    and body: "andThen (write_buffer A (header_bytes (host_is_big A) (record_header A uc r sz)) 16 (st1\<lparr>header := record_header A uc r sz\<rparr>)) (\<lambda>(res, st).
      if res \<noteq> RES_OK then Inr (res, uc, st)
      else andThen (case extra of None \<Rightarrow> Inr (RES_OK, st) | Some bs \<Rightarrow> write_buffer A bs (unat (size (header st))) st)
        (\<lambda>(res, st). if res \<noteq> RES_OK then Inr (res, uc, st) else master_effect A ?op uc st)) = Inr (res, uc', st')"
    using send_register_steps [OF ini act ns send] .
  have st1: "comm st1 = comm st" "trace st1" using st0 tr by simp_all
  let ?h = "record_header A uc r sz"
  let ?st2 = "st1\<lparr>header := ?h\<rparr>"
  from body obtain res1 st3 where w1: "write_buffer A (header_bytes (host_is_big A) ?h) 16 ?st2 = Inr (res1, st3)"
    by auto
  have "res1 = RES_OK"
    using write_buffer_trace_result [OF w1] body w1 ok st1 by auto
  then obtain s1 where st3: "st3 = ?st2\<lparr>comm := s1\<rparr>" "tx s1 = tx (comm st) @ header_bytes (host_is_big A) ?h"
    using write_buffer_traceD(2) [of A "header_bytes (host_is_big A) ?h" 16 ?st2 st3] w1 st1 by auto
  show ?thesis
  proof (cases extra)
    case None
    with body w1 \<open>res1 = RES_OK\<close> st3 show ?thesis
      by (intro that [of sz extra st1 s1]) (auto simp: pay)
  next
    case (Some bs)
    from body w1 \<open>res1 = RES_OK\<close> Some obtain res2 st4 where w2: "write_buffer A bs (unat (size (header st3))) st3 = Inr (res2, st4)"
      by auto
    have "res2 = RES_OK"
      using write_buffer_trace_result [OF w2] body w1 w2 Some \<open>res1 = RES_OK\<close> ok st1 st3 by auto
    moreover have "size (header st3) = sz" by (simp add: st3 record_header_def)
    ultimately obtain s2 where st4: "st4 = st3\<lparr>comm := s2\<rparr>" "tx s2 = tx s1 @ take (unat sz) bs" "unat sz \<le> length bs"
      using write_buffer_traceD [of A bs _ st3 st4] w2 st1 st3 by auto
    with body w1 w2 \<open>res1 = RES_OK\<close> \<open>res2 = RES_OK\<close> st3 Some show ?thesis
      by (intro that [of sz extra st1 s2]) (auto simp: pay)
  qed
qed

section \<open>What a handler can change\<close>

lemma write_buffer_keeps: "write_buffer A bs n st = Inr (r, st') \<Longrightarrow> \<exists>s. st' = st\<lparr>comm := s\<rparr>"
  by (auto simp: write_buffer_def split: if_splits option.splits)

lemma read_buffer_keeps: "read_buffer A n st = Inr (r, bs, st') \<Longrightarrow> \<exists>s. st' = st\<lparr>comm := s\<rparr>"
  by (auto simp: read_buffer_def split: if_splits option.splits)

lemma same_comm [simp]: "\<exists>s. st = st\<lparr>comm := s\<rparr>"
  by (rule exI [of _ "comm st"]) simp

lemma same_master [simp]: "\<exists>r. st = st\<lparr>ri_master := r\<rparr>"
  by (rule exI [of _ "ri_master st"]) simp

lemma respond_keeps: "respond r st = Inr st' \<Longrightarrow> \<exists>s. st' = st\<lparr>comm := s\<rparr>"
  by (auto simp: respond_def split: if_splits)

lemma payload_keeps: "payload A uc op st = Inr (sz, extra, st') \<Longrightarrow> \<exists>r. st' = st\<lparr>ri_master := r\<rparr>"
  by (cases op) (auto simp: payload_def Let_def)

lemma send_record_cases:
  assumes "send_record A op uc p st = Inr (res, uc', st')"
  obtains m h s where "uc' = uc" "st' = st\<lparr>ri_master := m, header := h, comm := s\<rparr>" "res \<noteq> RES_OK"
  | m h s where "master_effect A op uc (st\<lparr>ri_master := m, header := h, comm := s\<rparr>) = Inr (res, uc', st')"
proof -
  from assms obtain sz extra st1 where p1: "payload A uc op st = Inr (sz, extra, st1)"
    by (auto simp: send_record_def)
  obtain m where m: "st1 = st\<lparr>ri_master := m\<rparr>" using payload_keeps [OF p1] by auto
  let ?h = "header_host_to_arch A ((header st1)\<lparr>magic := RISU_MAGIC, pc := p, risu_op := of_int (int_of_op op), size := sz\<rparr>)"
  from assms p1 obtain r2 st2 where w: "write_buffer A (header_bytes (host_is_big A) ?h) 16 (st1\<lparr>header := ?h\<rparr>) = Inr (r2, st2)"
    by (auto simp: send_record_def Let_def)
  then obtain s2 where st2: "st2 = st\<lparr>ri_master := m, header := ?h, comm := s2\<rparr>"
    using write_buffer_keeps [OF w] m by auto
  show thesis
  proof (cases "r2 = RES_OK")
    case False
    with assms p1 w st2 show thesis by (intro that(1)) (auto simp: send_record_def Let_def)
  next
    case True
    with assms p1 w obtain r3 st3 where
      e: "(case extra of None \<Rightarrow> Inr (RES_OK, st2) | Some bs \<Rightarrow> write_buffer A bs (unat (size (header st2))) st2) = Inr (r3, st3)"
      and f: "(if r3 \<noteq> RES_OK then Inr (r3, uc, st3) else master_effect A op uc st3) = Inr (res, uc', st')"
      by (auto simp: send_record_def Let_def)
    have "\<exists>s3. st3 = st2\<lparr>comm := s3\<rparr>"
      using e write_buffer_keeps by (fastforce simp: st2 split: option.splits)
    then obtain s3 where st3: "st3 = st\<lparr>ri_master := m, header := ?h, comm := s3\<rparr>" using st2 by auto
    show thesis using f st3 that by (cases "r3 = RES_OK") auto
  qed
qed

lemma master_effect_changes:
  assumes "master_effect A op uc st = Inr (res, uc', st')"
  shows "uc' = uc \<or> (\<exists>v. uc' = uc_set_paramreg A uc v)" "comm st' = comm st" "trace st' = trace st"
    "signal_count st' = signal_count st" "illegal_instructions st' = illegal_instructions st"
  using assms by (auto simp: master_effect_def Let_def split: RisuOp.splits)

text \<open>What a checkpoint adds to the count of illegal instructions, on either side.\<close>

definition illegal_now :: "('uc, 'ri) arch \<Rightarrow> 'uc \<Rightarrow> arch_ptr \<Rightarrow> nat" where
  "illegal_now A uc a = (case ri_init A uc a of Inr r \<Rightarrow> if risuop_of A r = OP_SIGILL then 1 else 0 | Inl e \<Rightarrow> 0)"

lemma illegal_now_bound: "i \<le> n \<Longrightarrow> i + illegal_now A uc a \<le> Suc n"
  by (simp add: illegal_now_def split: sum.split)

lemma send_changes:
  assumes "send_register_info A uc a st = Inr (res, uc', st')"
  shows "(uc' = uc \<or> (\<exists>v. uc' = uc_set_paramreg A uc v)) \<and> trace st' = trace st \<and>
    signal_count st' = signal_count st \<and> illegal_instructions st' = illegal_instructions st + illegal_now A uc a"
proof -
  from assms obtain r where r: "ri_init A uc a = Inr r" by (auto simp: send_register_info_def)
  let ?st = "count_illegal (risuop_of A r) (st\<lparr>ri_master := r\<rparr>)"
  have i: "illegal_instructions ?st = illegal_instructions st + illegal_now A uc a" by (simp add: count_illegal_def illegal_now_def r)
  from assms r consider "uc' = uc" "st' = ?st" | "send_record A (risuop_of A r) uc (pc_of A uc r) ?st = Inr (res, uc', st')"
    by (auto simp: send_register_info_def Let_def split: if_splits)
  then show ?thesis
  proof cases
    case 2
    then show ?thesis
    proof (cases rule: send_record_cases)
      case (2 m h s)
      from master_effect_changes [OF 2] i show ?thesis by auto
    qed (use i in auto)
  qed (use i in auto)
qed

section \<open>The contract of a back end\<close>

text \<open>
  What the harness relies on: images are fixed-size blocks of bytes that survive the wire, an image is
  equal to itself, and writing an image back into the context it was taken from changes nothing.
\<close>

locale arch_backend = struct_layout "ri_bytes A" "ri_of_bytes A" "sizeof_ri A" wf_ri
  for A :: "('uc, 'ri) arch" and wf_ri :: "'ri \<Rightarrow> bool" +
  fixes wf_uc :: "'uc \<Rightarrow> bool"
  assumes init_wf: "wf_uc uc \<Longrightarrow> ri_init A uc a = Inr r \<Longrightarrow> wf_ri r"
    and to_arch_wf: "wf_ri r \<Longrightarrow> wf_ri (ri_host_to_arch A r)"
    and to_arch_back: "wf_ri r \<Longrightarrow> ri_arch_to_host A (ri_host_to_arch A r) = r"
    and size_exact: "wf_ri r \<Longrightarrow> ri_size A r = int (sizeof_ri A)"
    and size_small: "sizeof_ri A \<le> MEMBLOCKLEN"
    and eq_refl: "wf_ri r \<Longrightarrow> ri_is_eq A n r r = Inr (True, r)"
    and update_restores: "wf_uc uc \<Longrightarrow> ri_init A uc a = Inr r \<Longrightarrow> ri_update A r uc = uc"
    and advance_wf: "wf_uc uc \<Longrightarrow> wf_uc (uc_advance A uc)"
    and paramreg_wf: "wf_uc uc \<Longrightarrow> wf_uc (uc_set_paramreg A uc v)"
    and eq_keeps_op: "ri_is_eq A n m r = Inr (b, r') \<Longrightarrow> risuop_of A r' = risuop_of A r"
    and mem_read_length: "length (mem_read A uc p n) = n"
begin

text \<open>Master and apprentice agree on everything that decides how the next record is handled.\<close>

definition in_step :: "'ri risu \<Rightarrow> 'ri risu \<Rightarrow> bool" where
  "in_step stM stA =
     (trace stM \<and> trace stA \<and> is_setup stM = is_setup stA \<and> memblock stM = memblock stA \<and>
      arch_memblock stM = arch_memblock stA \<and> wf_ri (ri_master stA) \<and>
      length (other_memblock stA) = MEMBLOCKLEN)"

lemma unat_size: "unat (of_nat (sizeof_ri A) :: u32) = sizeof_ri A"
  using size_small by (simp add: MEMBLOCKLEN_def unsigned_of_nat take_bit_nat_eq_self)

lemma recv_header:
  assumes "trace st" "rx (comm st) = header_bytes (host_is_big A) (record_header A uc r sz) @ rest"
    "roomy (Suc m) (plan (comm st))"
  shows "\<exists>s. recv_register_info A st = recv_payload A (st\<lparr>comm := s, header := record_header A uc r sz\<rparr>) \<and>
    rx s = rest \<and> roomy m (plan s)"
proof -
  let ?h = "record_header A uc r sz"
  have h: "header_arch_to_host ?h = ?h" "magic ?h = RISU_MAGIC"
    by (simp_all add: header_arch_to_host_either record_header_def)
  obtain s where "read_buffer A 16 st = Inr (RES_OK, header_bytes (host_is_big A) ?h, st\<lparr>comm := s\<rparr>)"
    "rx s = rest" "roomy m (plan s)"
    using read_buffer_trace [OF assms(1,2) _ _ assms(3), where n = 16 and A = A] by (auto simp: MEMBLOCKLEN_def)
  then show ?thesis by (auto simp: recv_register_info_def Let_def h)
qed

lemma op_of_record: "op_known (risuop_of A r) \<Longrightarrow> header_op (record_header A uc r sz) = risuop_of A r"
  by (rule header_op_of_int(2)) (simp_all add: record_header_def)

lemma recv_registers:
  assumes "trace st" "roomy (Suc (Suc m)) (plan (comm st))" "wf_ri r" "wf_ri (ri_master st)"
    and op: "risuop_of A r \<in> {OP_COMPARE, OP_TESTEND, OP_SIGILL}"
    and rx: "rx (comm st) = header_bytes (host_is_big A) (record_header A uc r (of_nat (sizeof_ri A))) @
      ri_bytes A (ri_host_to_arch A r) @ rest"
  shows "\<exists>s. recv_register_info A st =
      Inr (RES_OK, st\<lparr>header := record_header A uc r (of_nat (sizeof_ri A)), comm := s, ri_master := r\<rparr>) \<and>
    rx s = rest \<and> roomy m (plan s)"
proof -
  let ?h = "record_header A uc r (of_nat (sizeof_ri A))"
  obtain s1 where s1: "recv_register_info A st = recv_payload A (st\<lparr>comm := s1, header := ?h\<rparr>)"
    "rx s1 = ri_bytes A (ri_host_to_arch A r) @ rest" "roomy (Suc m) (plan s1)"
    using recv_header [OF assms(1) rx assms(2)] by blast
  let ?st1 = "st\<lparr>comm := s1, header := ?h\<rparr>"
  have len: "length (ri_bytes A (ri_host_to_arch A r)) = sizeof_ri A"
    using assms(3) by (intro length_enc to_arch_wf)
  obtain s2 where s2: "read_buffer A (sizeof_ri A) ?st1 = Inr (RES_OK, ri_bytes A (ri_host_to_arch A r), ?st1\<lparr>comm := s2\<rparr>)"
    "rx s2 = rest" "roomy m (plan s2)"
    using read_buffer_trace [of ?st1 "ri_bytes A (ri_host_to_arch A r)" rest "sizeof_ri A" m A]
      assms(1) s1(2,3) len size_small by auto
  have hop: "header_op ?h \<in> {OP_COMPARE, OP_TESTEND, OP_SIGILL}"
    using op op_of_record [of r] by (cases "risuop_of A r") auto
  have h: "size ?h = of_nat (sizeof_ri A)" by (simp add: record_header_def)
  have ri: "ri_arch_to_host A (ri_of_bytes A (fill (ri_bytes A (ri_host_to_arch A r)) (ri_bytes A (ri_master st)))) = r"
    using overwrite_all assms(3,4) to_arch_wf to_arch_back by simp
  show ?thesis
    using assms(1,3) hop h s2 ri size_exact unat_size
    by (intro exI [of _ s2]) (simp add: s1(1) recv_payload_def Let_def)
qed

lemma recv_memory:
  assumes "trace st" "roomy (Suc (Suc m)) (plan (comm st))" "length (other_memblock st) = MEMBLOCKLEN"
    and op: "risuop_of A r = OP_COMPAREMEM" and len: "length bs = MEMBLOCKLEN"
    and rx: "rx (comm st) = header_bytes (host_is_big A) (record_header A uc r (of_nat MEMBLOCKLEN)) @ bs @ rest"
  shows "\<exists>s. recv_register_info A st =
      Inr (RES_OK, st\<lparr>header := record_header A uc r (of_nat MEMBLOCKLEN), comm := s, other_memblock := bs\<rparr>) \<and>
    rx s = rest \<and> roomy m (plan s)"
proof -
  let ?h = "record_header A uc r (of_nat MEMBLOCKLEN)"
  obtain s1 where s1: "recv_register_info A st = recv_payload A (st\<lparr>comm := s1, header := ?h\<rparr>)"
    "rx s1 = bs @ rest" "roomy (Suc m) (plan s1)"
    using recv_header [OF assms(1) rx assms(2)] by blast
  let ?st1 = "st\<lparr>comm := s1, header := ?h\<rparr>"
  obtain s2 where s2: "read_buffer A MEMBLOCKLEN ?st1 = Inr (RES_OK, bs, ?st1\<lparr>comm := s2\<rparr>)"
    "rx s2 = rest" "roomy m (plan s2)"
    using read_buffer_trace [of ?st1 bs rest MEMBLOCKLEN m A] assms(1) s1(2,3) len by auto
  have h: "size ?h = of_nat MEMBLOCKLEN" "header_op ?h = OP_COMPAREMEM"
    using op op_of_record [of r] by (simp_all add: record_header_def)
  show ?thesis
    using assms(1,3) h s2 len by (intro exI [of _ s2]) (simp add: s1(1) recv_payload_def Let_def)
qed

lemma recv_plain:
  assumes "trace st" "roomy (Suc m) (plan (comm st))"
    and op: "risuop_of A r \<in> {OP_SETMEMBLOCK, OP_GETMEMBLOCK, OP_SETUPBEGIN, OP_SETUPEND}"
    and rx: "rx (comm st) = header_bytes (host_is_big A) (record_header A uc r 0) @ rest"
  shows "\<exists>s. recv_register_info A st = Inr (RES_OK, st\<lparr>comm := s, header := record_header A uc r 0\<rparr>) \<and>
    rx s = rest \<and> roomy m (plan s)"
proof -
  let ?h = "record_header A uc r 0"
  obtain s1 where s1: "recv_register_info A st = recv_payload A (st\<lparr>comm := s1, header := ?h\<rparr>)"
    "rx s1 = rest" "roomy m (plan s1)"
    using recv_header [OF assms(1) rx assms(2)] by blast
  have "size ?h = 0" "header_op ?h = risuop_of A r"
    using op op_of_record [of r] by (auto simp: record_header_def)
  with op s1 show ?thesis by (intro exI [of _ s1]) (auto simp: recv_payload_def)
qed

end

lemma roomy_Suc: "roomy (Suc m) p \<Longrightarrow> roomy m p"
  by (induction m arbitrary: p) (auto elim!: roomy_SucE)

context arch_backend
begin

text \<open>
  A record that the master wrote without an i/o error makes the apprentice, stopped in the same
  context, return the same result and the same context.
\<close>

definition follows :: "'uc \<Rightarrow> arch_ptr \<Rightarrow> 'ri risu \<Rightarrow> RisuResult \<Rightarrow> 'uc \<Rightarrow> 'ri risu \<Rightarrow> byte list \<Rightarrow> bool" where
  "follows uc a stA res uc' stM' rec =
     (\<forall>rest m. rx (comm stA) = rec @ rest \<and> roomy (Suc (Suc m)) (plan (comm stA)) \<longrightarrow>
        (\<exists>stA'. recv_and_compare_register_info A uc a stA = Inr (res, uc', stA') \<and> in_step stM' stA' \<and>
           rx (comm stA') = rest \<and> roomy m (plan (comm stA'))))"

lemma followsI:
  assumes "ri_init A uc a = Inr r" "\<not> (risuop_of A r = OP_SIGILL \<and> is_setup stA)" "trace stA"
    and "\<And>rest m. rx (comm stA) = rec @ rest \<Longrightarrow> roomy (Suc (Suc m)) (plan (comm stA)) \<Longrightarrow>
      \<exists>stR stA'. recv_register_info A (count_illegal (risuop_of A r) (stA\<lparr>ri_apprentice := r\<rparr>)) = Inr (RES_OK, stR) \<and>
        compare_effect A (risuop_of A r) uc stR = Inr (res, uc', stA') \<and> trace stA' \<and> in_step stM' stA' \<and>
        rx (comm stA') = rest \<and> roomy m (plan (comm stA'))"
  shows "follows uc a stA res uc' stM' rec"
  unfolding follows_def
proof (intro allI impI, elim conjE)
  fix rest m
  assume "rx (comm stA) = rec @ rest" "roomy (Suc (Suc m)) (plan (comm stA))"
  from assms(4) [OF this] obtain stR stA' where
    "recv_register_info A (count_illegal (risuop_of A r) (stA\<lparr>ri_apprentice := r\<rparr>)) = Inr (RES_OK, stR)"
    "compare_effect A (risuop_of A r) uc stR = Inr (res, uc', stA')" "trace stA'" "in_step stM' stA'"
    "rx (comm stA') = rest" "roomy m (plan (comm stA'))" by blast
  then show "\<exists>stA'. recv_and_compare_register_info A uc a stA = Inr (res, uc', stA') \<and> in_step stM' stA' \<and>
      rx (comm stA') = rest \<and> roomy m (plan (comm stA'))"
    using assms(1-3) by (auto simp: recv_and_compare_register_info_def Let_def)
qed

lemma lockstep_registers:
  assumes ini: "ri_init A uc a = Inr r" and wf: "wf_uc uc" and st: "in_step stM stA"
    and act: "\<not> (risuop_of A r = OP_SIGILL \<and> is_setup stM)" and ns: "\<not> swaps_header A" and ok: "res \<noteq> RES_BAD_IO"
    and op: "risuop_of A r \<in> {OP_COMPARE, OP_TESTEND, OP_SIGILL}"
    and send: "send_register_info A uc a stM = Inr (res, uc', stM')"
  shows "\<exists>rec. tx (comm stM') = tx (comm stM) @ rec \<and> follows uc a stA res uc' stM' rec"
proof -
  let ?op = "risuop_of A r" and ?sz = "of_nat (sizeof_ri A) :: u32"
  have r: "wf_ri r" using init_wf [OF wf ini] .
  have len: "length (ri_bytes A (ri_host_to_arch A r)) = sizeof_ri A"
    using r by (intro length_enc to_arch_wf)
  have tr: "trace stM" "trace stA" "is_setup stA = is_setup stM" using st by (auto simp: in_step_def)
  have pay: "payload A uc ?op (count_illegal ?op (stM\<lparr>ri_master := r\<rparr>)) =
      Inr (?sz, Some (ri_bytes A (ri_host_to_arch A r)), count_illegal ?op (stM\<lparr>ri_master := r\<rparr>)\<lparr>ri_master := ri_host_to_arch A r\<rparr>)"
    using op size_exact [OF r] by (auto simp: payload_def Let_def)
  let ?rec = "header_bytes (host_is_big A) (record_header A uc r ?sz) @ ri_bytes A (ri_host_to_arch A r)"
  obtain s where s: "tx s = tx (comm stM) @ ?rec"
    "master_effect A ?op uc (count_illegal ?op (stM\<lparr>ri_master := r\<rparr>)\<lparr>ri_master := ri_host_to_arch A r,
       header := record_header A uc r ?sz, comm := s\<rparr>) = Inr (res, uc', stM')"
  proof (rule send_trace [OF ini act tr(1) ns ok send], goal_cases)
    case (1 sz extra st1 s)
    from 1(2) pay have e: "sz = ?sz" "extra = Some (ri_bytes A (ri_host_to_arch A r))"
      "st1 = count_illegal ?op (stM\<lparr>ri_master := r\<rparr>)\<lparr>ri_master := ri_host_to_arch A r\<rparr>" by simp_all
    show ?case using 1(4,5) len unat_size unfolding e by (intro 1(1) [of s]) simp_all
  qed
  have m: "uc' = uc" "res = (if ?op = OP_TESTEND then RES_END else RES_OK)" "tx (comm stM') = tx s"
    "in_step stM' = in_step stM"
    using s(2) op by (auto simp: master_effect_def in_step_def fun_eq_iff)
  have "follows uc a stA res uc' stM' ?rec"
  proof (rule followsI [OF ini])
    fix rest k
    assume rx: "rx (comm stA) = ?rec @ rest" and room: "roomy (Suc (Suc k)) (plan (comm stA))"
    let ?st = "count_illegal ?op (stA\<lparr>ri_apprentice := r\<rparr>)"
    obtain t where t: "recv_register_info A ?st = Inr (RES_OK, ?st\<lparr>header := record_header A uc r ?sz, comm := t, ri_master := r\<rparr>)"
      "rx t = rest" "roomy k (plan t)"
      using recv_registers [of ?st k r uc rest] r op rx room st by (auto simp: in_step_def)
    have hop: "header_op (record_header A uc r ?sz) = ?op" using op op_of_record [of r] by auto
    have upd: "ri_update A r uc = uc" using update_restores [OF wf ini] .
    let ?stR = "?st\<lparr>header := record_header A uc r ?sz, comm := t, ri_master := r\<rparr>"
    have "compare_effect A ?op uc ?stR = Inr (res, uc', ?stR\<lparr>ri_apprentice := r\<rparr>)"
      using op r eq_refl upd by (auto simp: compare_effect_def compare_registers_def Let_def hop m)
    moreover have "in_step stM' (?stR\<lparr>ri_apprentice := r\<rparr>)"
      using st r by (simp add: m in_step_def)
    ultimately show "\<exists>stR stA'. recv_register_info A ?st = Inr (RES_OK, stR) \<and>
        compare_effect A ?op uc stR = Inr (res, uc', stA') \<and> trace stA' \<and> in_step stM' stA' \<and>
        rx (comm stA') = rest \<and> roomy k (plan (comm stA'))"
      using t tr by (intro exI [of _ ?stR] exI [of _ "?stR\<lparr>ri_apprentice := r\<rparr>"]) simp
  qed (use act tr in auto)
  with s m show ?thesis by auto
qed

lemma lockstep_memory:
  assumes ini: "ri_init A uc a = Inr r" and wf: "wf_uc uc" and st: "in_step stM stA"
    and ns: "\<not> swaps_header A" and ok: "res \<noteq> RES_BAD_IO"
    and op: "risuop_of A r = OP_COMPAREMEM" and mb: "memblock stM = Some p"
    and send: "send_register_info A uc a stM = Inr (res, uc', stM')"
  shows "\<exists>rec. tx (comm stM') = tx (comm stM) @ rec \<and> follows uc a stA res uc' stM' rec"
proof -
  let ?sz = "of_nat MEMBLOCKLEN :: u32" and ?bs = "mem_read A uc p MEMBLOCKLEN"
  have usz: "unat ?sz = MEMBLOCKLEN" by (simp add: MEMBLOCKLEN_def)
  have tr: "trace stM" "trace stA" "is_setup stA = is_setup stM" "memblock stA = Some p" using st mb by (auto simp: in_step_def)
  have act: "\<not> (risuop_of A r = OP_SIGILL \<and> is_setup stM)" using op by simp
  let ?rec = "header_bytes (host_is_big A) (record_header A uc r ?sz) @ ?bs"
  have "tx (comm stM') = tx (comm stM) @ ?rec \<and> uc' = uc \<and> res = RES_OK \<and> in_step stM' = in_step stM"
  proof (rule send_trace [OF ini act tr(1) ns ok send], goal_cases)
    case (1 sz extra st1 s)
    from 1(1) op mb have e: "sz = ?sz" "extra = Some ?bs" "st1 = stM\<lparr>ri_master := r\<rparr>"
      by (simp_all add: payload_def count_illegal_def)
    show ?case using 1(3,4) usz mem_read_length op unfolding e
      by (auto simp: master_effect_def in_step_def fun_eq_iff)
  qed
  then have m: "tx (comm stM') = tx (comm stM) @ ?rec" "uc' = uc" "res = RES_OK" "in_step stM' = in_step stM" by simp_all
  have "follows uc a stA res uc' stM' ?rec"
  proof (rule followsI [OF ini])
    fix rest k
    assume rx: "rx (comm stA) = ?rec @ rest" and room: "roomy (Suc (Suc k)) (plan (comm stA))"
    let ?st = "count_illegal (risuop_of A r) (stA\<lparr>ri_apprentice := r\<rparr>)"
    obtain t where t: "recv_register_info A ?st = Inr (RES_OK, ?st\<lparr>header := record_header A uc r ?sz, comm := t, other_memblock := ?bs\<rparr>)"
      "rx t = rest" "roomy k (plan t)"
      using recv_memory [of ?st k r ?bs uc rest] op rx room st mem_read_length by (auto simp: in_step_def)
    let ?stR = "?st\<lparr>header := record_header A uc r ?sz, comm := t, other_memblock := ?bs\<rparr>"
    have "header_op (record_header A uc r ?sz) = OP_COMPAREMEM" using op op_of_record [of r] by auto
    then have "compare_effect A (risuop_of A r) uc ?stR = Inr (res, uc', ?stR)"
      using op tr by (simp add: compare_effect_def m)
    moreover have "in_step stM' ?stR" using st mem_read_length by (simp add: m in_step_def)
    ultimately show "\<exists>stR stA'. recv_register_info A ?st = Inr (RES_OK, stR) \<and>
        compare_effect A (risuop_of A r) uc stR = Inr (res, uc', stA') \<and> trace stA' \<and> in_step stM' stA' \<and>
        rx (comm stA') = rest \<and> roomy k (plan (comm stA'))"
      using t tr by (intro exI [of _ ?stR]) simp
  qed (use op tr in auto)
  with m show ?thesis by auto
qed

lemma lockstep_plain:
  assumes ini: "ri_init A uc a = Inr r" and wf: "wf_uc uc" and st: "in_step stM stA"
    and ns: "\<not> swaps_header A" and ok: "res \<noteq> RES_BAD_IO"
    and op: "risuop_of A r \<in> {OP_SETMEMBLOCK, OP_GETMEMBLOCK, OP_SETUPBEGIN, OP_SETUPEND}"
    and send: "send_register_info A uc a stM = Inr (res, uc', stM')"
  shows "\<exists>rec. tx (comm stM') = tx (comm stM) @ rec \<and> follows uc a stA res uc' stM' rec"
proof -
  let ?op = "risuop_of A r" and ?h = "record_header A uc r 0"
  have tr: "trace stM" "trace stA" using st by (auto simp: in_step_def)
  have act: "\<not> (?op = OP_SIGILL \<and> is_setup stM)" using op by auto
  let ?rec = "header_bytes (host_is_big A) ?h"
  obtain s where s: "tx s = tx (comm stM) @ ?rec"
    "master_effect A ?op uc (stM\<lparr>ri_master := r, header := ?h, comm := s\<rparr>) = Inr (res, uc', stM')"
  proof (rule send_trace [OF ini act tr(1) ns ok send], goal_cases)
    case (1 sz extra st1 s)
    from 1(2) op have e: "sz = 0" "extra = None" "st1 = stM\<lparr>ri_master := r\<rparr>"
      by (auto simp: payload_def count_illegal_def)
    show ?case using 1(4,5) unfolding e by (intro 1(1) [of s]) simp_all
  qed
  have tx: "tx (comm stM') = tx (comm stM) @ ?rec" using s op by (auto simp: master_effect_def Let_def)
  have "follows uc a stA res uc' stM' ?rec"
  proof (rule followsI [OF ini])
    fix rest k
    assume rx: "rx (comm stA) = ?rec @ rest" and room: "roomy (Suc (Suc k)) (plan (comm stA))"
    let ?st = "count_illegal ?op (stA\<lparr>ri_apprentice := r\<rparr>)"
    obtain t where t: "recv_register_info A ?st = Inr (RES_OK, ?st\<lparr>comm := t, header := ?h\<rparr>)"
      "rx t = rest" "roomy (Suc k) (plan t)"
      using recv_plain [of ?st "Suc k" r uc rest] op rx room st by (auto simp: in_step_def)
    have hop: "header_op ?h = ?op" using op op_of_record [of r] by auto
    obtain stA' where "compare_effect A ?op uc (?st\<lparr>comm := t, header := ?h\<rparr>) = Inr (res, uc', stA')"
      "in_step stM' stA'" "comm stA' = t"
      using s(2) op st hop by (auto simp: compare_effect_def master_effect_def in_step_def Let_def)
    with t roomy_Suc show "\<exists>stR stA'. recv_register_info A ?st = Inr (RES_OK, stR) \<and>
        compare_effect A ?op uc stR = Inr (res, uc', stA') \<and> trace stA' \<and> in_step stM' stA' \<and>
        rx (comm stA') = rest \<and> roomy k (plan (comm stA'))"
      by (auto simp: in_step_def)
  qed (use op tr in auto)
  with tx show ?thesis by auto
qed

lemma registers_payload:
  assumes "wf_ri r" "risuop_of A r \<in> {OP_COMPARE, OP_TESTEND, OP_SIGILL}"
  shows "payload A uc (risuop_of A r) (count_illegal (risuop_of A r) (st\<lparr>ri_master := r\<rparr>)) =
    Inr (of_nat (sizeof_ri A), Some (ri_bytes A (ri_host_to_arch A r)),
         count_illegal (risuop_of A r) (st\<lparr>ri_master := r\<rparr>)\<lparr>ri_master := ri_host_to_arch A r\<rparr>)"
  using assms(2) size_exact [OF assms(1)] by (auto simp: payload_def Let_def)

text \<open>The master's side of a register checkpoint, when the trace can be written.\<close>

lemma send_registers:
  assumes ini: "ri_init A uc a = Inr r" and wf: "wf_uc uc" and tr: "trace st" and ns: "\<not> swaps_header A"
    and op: "risuop_of A r \<in> {OP_COMPARE, OP_TESTEND, OP_SIGILL}" and act: "\<not> (risuop_of A r = OP_SIGILL \<and> is_setup st)"
    and room: "roomy (Suc (Suc m)) (plan (comm st))"
  shows "\<exists>st'. send_register_info A uc a st = Inr (if risuop_of A r = OP_TESTEND then RES_END else RES_OK, uc, st') \<and>
    tx (comm st') = tx (comm st) @ header_bytes (host_is_big A) (record_header A uc r (of_nat (sizeof_ri A))) @
      ri_bytes A (ri_host_to_arch A r) \<and> roomy m (plan (comm st'))"
proof -
  let ?op = "risuop_of A r" and ?h = "record_header A uc r (of_nat (sizeof_ri A))"
  let ?st = "count_illegal ?op (st\<lparr>ri_master := r\<rparr>)\<lparr>ri_master := ri_host_to_arch A r\<rparr>"
  have r: "wf_ri r" using init_wf [OF wf ini] .
  have len: "length (ri_bytes A (ri_host_to_arch A r)) = sizeof_ri A" using r by (intro length_enc to_arch_wf)
  have h: "header_host_to_arch A ((header ?st)\<lparr>magic := RISU_MAGIC, pc := pc_of A uc r, risu_op := of_int (int_of_op ?op), size := of_nat (sizeof_ri A)\<rparr>) = ?h"
    by (subst header_host_to_arch_fresh) (use ns in \<open>simp_all add: record_header_def\<close>)
  obtain s1 where s1: "write_buffer A (header_bytes (host_is_big A) ?h) 16 (?st\<lparr>header := ?h\<rparr>) = Inr (RES_OK, ?st\<lparr>header := ?h, comm := s1\<rparr>)"
    "tx s1 = tx (comm st) @ header_bytes (host_is_big A) ?h" "roomy (Suc m) (plan s1)"
    using write_buffer_trace [of "?st\<lparr>header := ?h\<rparr>" 16 "header_bytes (host_is_big A) ?h" "Suc m" A] tr room
    by (auto simp: MEMBLOCKLEN_def)
  obtain s2 where s2: "write_buffer A (ri_bytes A (ri_host_to_arch A r)) (sizeof_ri A) (?st\<lparr>header := ?h, comm := s1\<rparr>) = Inr (RES_OK, ?st\<lparr>header := ?h, comm := s2\<rparr>)"
    "tx s2 = tx s1 @ ri_bytes A (ri_host_to_arch A r)" "roomy m (plan s2)"
    using write_buffer_trace [of "?st\<lparr>header := ?h, comm := s1\<rparr>" "sizeof_ri A" "ri_bytes A (ri_host_to_arch A r)" m A] tr s1(3) len size_small
    by auto
  have sz: "unat (size ?h) = sizeof_ri A" using unat_size by (simp add: record_header_def)
  have "send_register_info A uc a st = master_effect A ?op uc (?st\<lparr>header := ?h, comm := s2\<rparr>)"
    using s1(1) s2(1) h sz unfolding send_register_active [OF ini act] send_record_def registers_payload [OF r op]
    by (simp add: Let_def)
  moreover have "master_effect A ?op uc (?st\<lparr>header := ?h, comm := s2\<rparr>) =
      Inr (if ?op = OP_TESTEND then RES_END else RES_OK, uc, ?st\<lparr>header := ?h, comm := s2\<rparr>)"
    using op by (auto simp: master_effect_def)
  ultimately show ?thesis using s1 s2 by simp
qed

text \<open>
  A master that stores its header in the other byte order takes the size of the payload from the
  swapped header.
\<close>

lemma send_registers_swapped:
  assumes ini: "ri_init A uc a = Inr r" and wf: "wf_uc uc" and tr: "trace st" and sw: "swaps_header A"
    and op: "risuop_of A r \<in> {OP_COMPARE, OP_TESTEND, OP_SIGILL}" and act: "\<not> (risuop_of A r = OP_SIGILL \<and> is_setup st)"
    and room: "roomy (Suc m) (plan (comm st))" and big: "sizeof_ri A < unat (BYTESWAP_32 (of_nat (sizeof_ri A)))"
  shows "send_register_info A uc a st = Inl Out_Of_Bounds"
proof -
  let ?op = "risuop_of A r" and ?h = "byte_swap_header (record_header A uc r (of_nat (sizeof_ri A)))"
  let ?st = "count_illegal ?op (st\<lparr>ri_master := r\<rparr>)\<lparr>ri_master := ri_host_to_arch A r\<rparr>"
  have r: "wf_ri r" using init_wf [OF wf ini] .
  have len: "length (ri_bytes A (ri_host_to_arch A r)) = sizeof_ri A" using r by (intro length_enc to_arch_wf)
  have h: "header_host_to_arch A ((header ?st)\<lparr>magic := RISU_MAGIC, pc := pc_of A uc r, risu_op := of_int (int_of_op ?op), size := of_nat (sizeof_ri A)\<rparr>) = ?h"
    unfolding record_header_update by (subst header_host_to_arch_fresh) (use sw in \<open>simp_all add: record_header_def\<close>)
  obtain s1 where s1: "write_buffer A (header_bytes (host_is_big A) ?h) 16 (?st\<lparr>header := ?h\<rparr>) = Inr (RES_OK, ?st\<lparr>header := ?h, comm := s1\<rparr>)"
    using write_buffer_trace [of "?st\<lparr>header := ?h\<rparr>" 16 "header_bytes (host_is_big A) ?h" m A] tr room
    by (auto simp: MEMBLOCKLEN_def)
  have sz: "size ?h = BYTESWAP_32 (of_nat (sizeof_ri A))" by (simp add: record_header_def byte_swap_header_def)
  have "write_buffer A (ri_bytes A (ri_host_to_arch A r)) (unat (size ?h)) (?st\<lparr>header := ?h, comm := s1\<rparr>) = Inl Out_Of_Bounds"
    using tr big len by (simp add: write_buffer_def sz)
  then show ?thesis
    using s1 h unfolding send_register_active [OF ini act] send_record_def registers_payload [OF r op]
    by (simp add: Let_def)
qed

lemma checkpoint_lockstep:
  assumes "wf_uc uc" "in_step stM stA" "\<not> swaps_header A" "res \<noteq> RES_BAD_IO"
    and nn: "\<And>r. ri_init A uc a = Inr r \<Longrightarrow> risuop_of A r = OP_COMPAREMEM \<Longrightarrow> memblock stM \<noteq> None"
    and send: "send_register_info A uc a stM = Inr (res, uc', stM')"
  shows "\<exists>rec. tx (comm stM') = tx (comm stM) @ rec \<and> follows uc a stA res uc' stM' rec"
proof -
  obtain r where ini: "ri_init A uc a = Inr r" using send by (auto simp: send_register_info_def)
  show ?thesis
  proof (cases "risuop_of A r = OP_SIGILL \<and> is_setup stM")
    case True
    then have "res = RES_OK" "uc' = uc" "stM' = count_illegal OP_SIGILL (stM\<lparr>ri_master := r\<rparr>)"
      using send send_skips_setup [OF ini] by auto
    moreover have "recv_and_compare_register_info A uc a stA = Inr (RES_OK, uc, count_illegal OP_SIGILL (stA\<lparr>ri_apprentice := r\<rparr>))"
      using recv_skips_setup [OF ini, of stA] True assms(2) by (simp add: in_step_def)
    ultimately show ?thesis
      using assms(2) by (intro exI [of _ "[]"]) (auto simp: follows_def in_step_def intro: roomy_Suc)
  next
    case False
    consider "risuop_of A r \<in> {OP_COMPARE, OP_TESTEND, OP_SIGILL}" | "risuop_of A r = OP_COMPAREMEM"
      | "risuop_of A r \<in> {OP_SETMEMBLOCK, OP_GETMEMBLOCK, OP_SETUPBEGIN, OP_SETUPEND}"
      | "\<not> op_known (risuop_of A r)"
      by (cases "risuop_of A r") auto
    then show ?thesis
    proof cases
      case 1
      then show ?thesis using lockstep_registers [OF ini assms(1,2) False assms(3,4)] send by blast
    next
      case 2
      then show ?thesis using lockstep_memory [OF ini assms(1-4)] nn [OF ini] send by blast
    next
      case 3
      then show ?thesis using lockstep_plain [OF ini assms(1-4)] send by blast
    next
      case 4
      then have "send_register_info A uc a stM = Inl Abort"
        using ini by (cases "risuop_of A r") (auto simp: send_register_info_def send_record_def payload_def Let_def)
      with send show ?thesis by simp
    qed
  qed
qed

end

section \<open>The header, whatever the byte orders\<close>

text \<open>
  C26: the receiver of a header recovers it from the sixteen bytes, whatever the byte order of the
  architecture, of the two hosts and of the compiler macros on the sender's side: the magic number tells
  whether the fields have to be swapped.
\<close>

theorem header_any_order:
  "header_arch_to_host (header_of_bytes big' (header_bytes big (header_host_to_arch A (h\<lparr>magic := RISU_MAGIC\<rparr>)))) =
     h\<lparr>magic := RISU_MAGIC\<rparr>"
proof -
  let ?h = "h\<lparr>magic := RISU_MAGIC\<rparr>"
  have "header_of_bytes big' (header_bytes big k) = k \<or> header_of_bytes big' (header_bytes big k) = byte_swap_header k" for k
    using header_other_order [of big k] by (cases "big' = big") auto
  from this [of ?h] this [of "byte_swap_header ?h"]
  have "header_of_bytes big' (header_bytes big ?h) \<in> {?h, byte_swap_header ?h}"
    "header_of_bytes big' (header_bytes big (byte_swap_header ?h)) \<in> {?h, byte_swap_header ?h}"
    unfolding byte_swap_header_twice by auto
  then have "header_of_bytes big' (header_bytes big (header_host_to_arch A ?h)) \<in> {?h, byte_swap_header ?h}"
    using header_host_to_arch_fresh [of ?h A] by (cases "swaps_header A") simp_all
  then show ?thesis using header_arch_to_host_either [of ?h] by auto
qed

end
