(* ===== verification/Session.thy ===== *)
theory Session
  imports Harness Text_Output
begin

text \<open>
  A whole run (\<^verbatim>\<open>master\<close> and \<^verbatim>\<open>apprentice\<close> of \<^verbatim>\<open>src/risu.c\<close>): the image executes until it raises a signal, the
  handler resumes it or leaves by \<^verbatim>\<open>siglongjmp\<close>, and the code after \<^verbatim>\<open>sigsetjmp\<close> reports the result. The
  processor is a parameter: a function from the context in which execution continues to the next event.
\<close>

section \<open>Execution\<close>

datatype 'uc event = Signal signal arch_ptr 'uc | Returned

type_synonym ('uc, 'ri) handler = "signal \<Rightarrow> arch_ptr \<Rightarrow> 'uc \<Rightarrow> 'ri risu \<Rightarrow> fault + 'uc handler_exit \<times> 'ri risu"

datatype ('uc, 'ri) config =
    Running 'uc "'ri risu"
  | Stopped RisuResult "'ri risu"
  | Fell_Out "'ri risu"
  | Broken fault

inductive step :: "('uc, 'ri) handler \<Rightarrow> ('uc \<Rightarrow> 'uc event) \<Rightarrow> ('uc, 'ri) config \<Rightarrow> ('uc, 'ri) config \<Rightarrow> bool"
  for H cpu where
  resumed: "cpu uc = Signal sig a uc1 \<Longrightarrow> H sig a uc1 st = Inr (Resume uc2, st') \<Longrightarrow>
    step H cpu (Running uc st) (Running uc2 st')"
| jumped: "cpu uc = Signal sig a uc1 \<Longrightarrow> H sig a uc1 st = Inr (Longjmp r, st') \<Longrightarrow>
    step H cpu (Running uc st) (Stopped r st')"
| broke: "cpu uc = Signal sig a uc1 \<Longrightarrow> H sig a uc1 st = Inl e \<Longrightarrow> step H cpu (Running uc st) (Broken e)"
| fell: "cpu uc = Returned \<Longrightarrow> step H cpu (Running uc st) (Fell_Out st)"

inductive_cases step_RunningE: "step H cpu (Running uc st) c"
inductive_simps step_simps [simp]:
  "step H cpu (Stopped r st) c"
  "step H cpu (Fell_Out st) c"
  "step H cpu (Broken e) c"

abbreviation runs :: "('uc, 'ri) handler \<Rightarrow> ('uc \<Rightarrow> 'uc event) \<Rightarrow> ('uc, 'ri) config \<Rightarrow> ('uc, 'ri) config \<Rightarrow> bool" where
  "runs H cpu \<equiv> (step H cpu)\<^sup>*\<^sup>*"

section \<open>Reports\<close>

definition EXIT_SUCCESS :: int where "EXIT_SUCCESS = 0"
definition EXIT_FAILURE :: int where "EXIT_FAILURE = 1"

definition print_loc :: "('uc, 'ri) arch \<Rightarrow> 'ri risu \<Rightarrow> string" where
  "print_loc A st = '' at image + 0x'' @ hexs (signal_pc st - start_address A)"

definition print_stats :: "'ri risu \<Rightarrow> string" where
  "print_stats st =
     '' after '' @ decs (int (signal_count st) - int (illegal_instructions st)) @ '' checkpoints and '' @
     decs (int (illegal_instructions st)) @ '' illegal instructions'' @ nl"

text \<open>The text on \<^verbatim>\<open>stderr\<close>, whether the connection was closed, and the exit status.\<close>

definition master :: "('uc, 'ri) arch \<Rightarrow> RisuResult \<Rightarrow> 'ri risu \<Rightarrow> string \<times> bool \<times> int" where
  "master A res st =
     (case res of
        RES_OK \<Rightarrow>
          (''starting image at 0x'' @ hexs (start_address A) @ nl @ ''image returned unexpectedly'' @ nl, False, EXIT_FAILURE)
      | RES_END \<Rightarrow> (''done'' @ print_stats st, True, EXIT_SUCCESS)
      | RES_BAD_IO \<Rightarrow> (''i/o error'' @ print_loc A st @ print_stats st, False, EXIT_FAILURE)
      | RES_SIGBUS \<Rightarrow> (''bus error'' @ print_loc A st @ print_stats st, True, EXIT_FAILURE)
      | _ \<Rightarrow>
          (''unexpected result '' @ decs (int (nat_of_res res)) @ print_loc A st @ print_stats st, True, EXIT_FAILURE))"

fun op_name :: "RisuOp \<Rightarrow> fault + string" where
  "op_name OP_SIGILL = Inr ''SIGILL''"
| "op_name OP_COMPARE = Inr ''COMPARE''"
| "op_name OP_TESTEND = Inr ''TESTEND''"
| "op_name OP_SETMEMBLOCK = Inr ''SETMEMBLOCK''"
| "op_name OP_GETMEMBLOCK = Inr ''GETMEMBLOCK''"
| "op_name OP_COMPAREMEM = Inr ''COMPAREMEM''"
| "op_name OP_SETUPBEGIN = Inr ''SETUPBEGIN''"
| "op_name OP_SETUPEND = Inr ''SETUPEND''"
| "op_name (OP_UNKNOWN i) = Inl Abort"

definition apprentice :: "('uc, 'ri) arch \<Rightarrow> RisuResult \<Rightarrow> 'ri risu \<Rightarrow> fault + string \<times> int" where
  "apprentice A res st =
     (let where_when = print_loc A st @ print_stats st; sz = decs (uint (size (header st)))
      in case res of
        RES_OK \<Rightarrow>
          Inr (''starting image at 0x'' @ hexs (start_address A) @ nl @ ''image returned unexpectedly'' @ nl, EXIT_FAILURE)
      | RES_END \<Rightarrow> Inr (''done'' @ print_stats st, EXIT_SUCCESS)
      | RES_MISMATCH_REG \<Rightarrow>
          Inr (''Mismatch reg'' @ where_when @ ''master reginfo:'' @ nl @ ri_dump A (ri_master st) @
               ''apprentice reginfo:'' @ nl @ ri_dump A (ri_apprentice st) @
               ri_dump_mismatch A (ri_master st) (ri_apprentice st), EXIT_FAILURE)
      | RES_MISMATCH_MEM \<Rightarrow> Inr (''Mismatch mem'' @ where_when, EXIT_FAILURE)
      | RES_MISMATCH_OP \<Rightarrow>
          andThen (op_name (header_op (header st))) (\<lambda>m.
          andThen (op_name (risuop_of A (ri_apprentice st))) (\<lambda>a.
            Inr (''Mismatch header'' @ where_when @ ''mismatch detail (master : apprentice):'' @ nl @
                 ''  opcode: '' @ m @ '' vs '' @ a @ nl, EXIT_FAILURE)))
      | RES_BAD_IO \<Rightarrow> Inr (''i/o error'' @ where_when, EXIT_FAILURE)
      | RES_BAD_MAGIC \<Rightarrow> Inr (''Unexpected magic number: '' @ alt_hex08 (magic (header st)) @ where_when, EXIT_FAILURE)
      | RES_BAD_SIZE_HEADER \<Rightarrow>
          Inr (''Payload size '' @ sz @ '' in header exceeds expected size '' @ decs (int (sizeof_ri A)) @ where_when,
               EXIT_FAILURE)
      | RES_BAD_SIZE_REGINFO \<Rightarrow>
          Inr (''Payload size '' @ sz @ '' in header doesn'' @ [CHR 0x27] @ ''t match received payload size '' @
               decs (ri_size A (ri_master st)) @ where_when, EXIT_FAILURE)
      | RES_BAD_SIZE_MEMBLOCK \<Rightarrow>
          Inr (''Payload size '' @ sz @ '' in header doesn'' @ [CHR 0x27] @
               ''t match the expected memory block payload size '' @ decs (int MEMBLOCKLEN) @ where_when, EXIT_FAILURE)
      | RES_BAD_SIZE_ZERO \<Rightarrow> Inr (''Payload size '' @ sz @ '' in header is expected to be 0'' @ where_when, EXIT_FAILURE)
      | RES_BAD_OP \<Rightarrow> Inr (''Unexpected opcode: '' @ decs (sint (risu_op (header st))) @ where_when, EXIT_FAILURE)
      | RES_SIGBUS \<Rightarrow> Inr (''bus error'' @ where_when, EXIT_FAILURE)
      | RES_UNKNOWN n \<Rightarrow> Inr (''Unexpected result '' @ decs (int n) @ ''x'' @ where_when, EXIT_FAILURE))"

section \<open>Counters\<close>

lemma read_buffer_result: "read_buffer A n st = Inr (res, bs, st') \<Longrightarrow> res = RES_OK \<or> res = RES_BAD_IO"
  by (auto simp: read_buffer_def recv_data_pkt_def Let_def split: if_splits option.splits sum.splits)

lemma respond_read:
  assumes "andThen (respond RES_OK st) (\<lambda>st. andThen (read_buffer A n st) f) = Inr y"
  obtains s res bs where "f (res, bs, st\<lparr>comm := s\<rparr>) = Inr y" "res = RES_OK \<or> res = RES_BAD_IO"
proof -
  from assms obtain st1 res bs st2 where "respond RES_OK st = Inr st1"
    and rb: "read_buffer A n st1 = Inr (res, bs, st2)" and f: "f (res, bs, st2) = Inr y" by auto
  then obtain s where "st2 = st\<lparr>comm := s\<rparr>"
    using respond_keeps [of RES_OK st st1] read_buffer_keeps [of A n st1 res bs st2] by auto
  with f show thesis using that read_buffer_result [OF rb] by simp
qed

lemma recv_payload_changes:
  assumes "recv_payload A st = Inr (res, st')"
  shows "(\<exists>s r w. st' = st\<lparr>comm := s, ri_master := r, other_memblock := w\<rparr>) \<and>
    (res = RES_OK \<longrightarrow> op_known (header_op (header st))) \<and> res \<noteq> RES_MISMATCH_OP"
proof -
  have same: "\<exists>s r w. st = st\<lparr>comm := s, ri_master := r, other_memblock := w\<rparr>"
    by (rule exI [of _ "comm st"], rule exI [of _ "ri_master st"], rule exI [of _ "other_memblock st"]) simp
  have eregs: "\<exists>s r w. st\<lparr>comm := t, ri_master := q\<rparr> = st\<lparr>comm := s, ri_master := r, other_memblock := w\<rparr>" for t q
    by (rule exI [of _ t], rule exI [of _ q], rule exI [of _ "other_memblock st"]) simp
  have emem: "\<exists>s r w. st\<lparr>comm := t, other_memblock := q\<rparr> = st\<lparr>comm := s, ri_master := r, other_memblock := w\<rparr>" for t q
    by (rule exI [of _ t], rule exI [of _ "ri_master st"], rule exI [of _ q]) simp
  consider (regs) "header_op (header st) \<in> {OP_COMPARE, OP_TESTEND, OP_SIGILL}" "\<not> sizeof_ri A < unat (size (header st))"
    | (mem) "header_op (header st) = OP_COMPAREMEM" "size (header st) = of_nat MEMBLOCKLEN"
    | (no) "st' = st" "(res = RES_OK \<longrightarrow> op_known (header_op (header st))) \<and> res \<noteq> RES_MISMATCH_OP"
    using assms by (cases "header_op (header st)") (auto simp: recv_payload_def Let_def split: if_splits)
  then show ?thesis
  proof cases
    case regs
    with assms show ?thesis
      unfolding recv_payload_def Let_def
      by (simp only: if_True if_False) (erule respond_read, auto simp: eregs split: if_splits)
  next
    case mem
    with assms show ?thesis
      unfolding recv_payload_def Let_def
      by (simp del: andThen_eq_Inr) (erule respond_read, auto simp: emem)
  next
    case no
    with same show ?thesis by simp
  qed
qed

lemma recv_changes:
  assumes "recv_register_info A st = Inr (res, st')"
  shows "ri_apprentice st' = ri_apprentice st \<and> signal_count st' = signal_count st \<and> trace st' = trace st \<and>
    illegal_instructions st' = illegal_instructions st \<and> (res = RES_OK \<longrightarrow> op_known (header_op (header st'))) \<and>
    res \<noteq> RES_MISMATCH_OP"
proof -
  from assms obtain res1 bs st1 where rd: "read_buffer A 16 st = Inr (res1, bs, st1)"
    by (auto simp: recv_register_info_def)
  then obtain s where st1: "st1 = st\<lparr>comm := s\<rparr>" using read_buffer_keeps [OF rd] by auto
  define h where "h = header_of_bytes (host_is_big A) (fill bs (header_bytes (host_is_big A) (header st1)))"
  let ?st2 = "st1\<lparr>header := header_arch_to_host h\<rparr>"
  have eq: "recv_register_info A st =
      (if res1 \<noteq> RES_OK then Inr (res1, st1\<lparr>header := h\<rparr>)
       else if magic (header_arch_to_host h) \<noteq> RISU_MAGIC then Inr (RES_BAD_MAGIC, ?st2) else recv_payload A ?st2)"
    by (simp add: recv_register_info_def rd Let_def h_def)
  consider "res1 = RES_BAD_IO" | "res1 = RES_OK" "magic (header_arch_to_host h) \<noteq> RISU_MAGIC"
    | "res1 = RES_OK" "magic (header_arch_to_host h) = RISU_MAGIC"
    using read_buffer_result [OF rd] by blast
  then show ?thesis
  proof cases
    case 3
    with assms eq have "recv_payload A ?st2 = Inr (res, st')" by simp
    from recv_payload_changes [OF this] show ?thesis by (auto simp: st1)
  qed (use assms eq in \<open>auto simp: st1\<close>)
qed

lemma compare_registers_changes:
  assumes "compare_registers A op uc st = Inr (res, uc', st')"
  shows "st' = st \<or> (\<exists>a b. st' = st\<lparr>ri_apprentice := a\<rparr> \<and>
    ri_is_eq A (signal_count st) (ri_master st) (ri_apprentice st) = Inr (b, a))"
  using assms by (auto simp: compare_registers_def Let_def split: if_splits)

lemma memory_fields [simp]:
  "\<exists>m n b. st = st\<lparr>arch_memblock := m, memblock := n, is_setup := b\<rparr>"
  "\<exists>m n b. st\<lparr>arch_memblock := p, memblock := q\<rparr> = st\<lparr>arch_memblock := m, memblock := n, is_setup := b\<rparr>"
  "\<exists>m n b. st\<lparr>is_setup := c\<rparr> = st\<lparr>arch_memblock := m, memblock := n, is_setup := b\<rparr>"
    apply (rule exI [of _ "arch_memblock st"], rule exI [of _ "memblock st"], rule exI [of _ "is_setup st"], simp)
   apply (rule exI [of _ p], rule exI [of _ q], rule exI [of _ "is_setup st"], simp)
  apply (rule exI [of _ "arch_memblock st"], rule exI [of _ "memblock st"], rule exI [of _ c], simp)
  done

lemma compare_effect_others:
  assumes "op \<notin> {OP_COMPARE, OP_TESTEND, OP_SIGILL}" "compare_effect A op uc st = Inr (res, uc', st')"
  shows "op_known op \<and> (\<exists>m n b. st' = st\<lparr>arch_memblock := m, memblock := n, is_setup := b\<rparr>)"
  using assms by (cases op) (auto simp: compare_effect_def Let_def split: if_splits option.splits)

lemma compare_effect_keeps:
  "compare_effect A op uc st = Inr (res, uc', st') \<Longrightarrow>
   comm st' = comm st \<and> ri_master st' = ri_master st \<and> other_memblock st' = other_memblock st"
  using compare_registers_changes [of A op uc st res uc' st'] compare_effect_others [of op A uc st res uc' st']
  by (cases "op \<in> {OP_COMPARE, OP_TESTEND, OP_SIGILL}") (auto simp: compare_effect_def)

lemma compare_effect_changes:
  assumes "compare_effect A op uc st = Inr (res, uc', st')"
  shows "signal_count st' = signal_count st \<and> illegal_instructions st' = illegal_instructions st \<and>
    trace st' = trace st \<and> header st' = header st \<and> op_known op \<and>
    (ri_apprentice st' = ri_apprentice st \<or>
     (\<exists>b. ri_is_eq A (signal_count st) (ri_master st) (ri_apprentice st) = Inr (b, ri_apprentice st')))"
proof (cases "op \<in> {OP_COMPARE, OP_TESTEND, OP_SIGILL}")
  case True
  with assms have "compare_registers A op uc st = Inr (res, uc', st')" by (auto simp: compare_effect_def)
  from compare_registers_changes [OF this] True show ?thesis by auto
next
  case False
  from compare_effect_others [OF this assms] show ?thesis by auto
qed

lemma recv_and_compare_changes:
  assumes "recv_and_compare_register_info A uc a st = Inr (res, uc', st')"
  shows "signal_count st' = signal_count st \<and> illegal_instructions st' = illegal_instructions st + illegal_now A uc a"
proof -
  from assms obtain r where r: "ri_init A uc a = Inr r" by (auto simp: recv_and_compare_register_info_def)
  let ?st = "count_illegal (risuop_of A r) (st\<lparr>ri_apprentice := r\<rparr>)"
  have i: "illegal_instructions ?st = illegal_instructions st + illegal_now A uc a" by (simp add: count_illegal_def illegal_now_def r)
  show ?thesis
  proof (cases "risuop_of A r = OP_SIGILL \<and> is_setup ?st")
    case True
    with assms r i show ?thesis by (auto simp: recv_and_compare_register_info_def Let_def)
  next
    case False
    with assms r obtain res1 st1 res2 uc2 st2 where "recv_register_info A ?st = Inr (res1, st1)"
      "(if res1 \<noteq> RES_OK then Inr (res1, uc, st1) else compare_effect A (risuop_of A r) uc st1) = Inr (res2, uc2, st2)"
      "respond (if res2 = RES_OK then RES_OK else RES_END) st2 = Inr st'"
      by (auto simp: recv_and_compare_register_info_def Let_def)
    then show ?thesis
      using i by (auto dest!: recv_changes compare_effect_changes respond_keeps split: if_splits)
  qed
qed

definition counts_ok :: "('uc, 'ri) config \<Rightarrow> bool" where
  "counts_ok c =
     (case c of
        Running uc st \<Rightarrow> illegal_instructions st \<le> signal_count st
      | Stopped r st \<Rightarrow> illegal_instructions st \<le> signal_count st
      | Fell_Out st \<Rightarrow> illegal_instructions st \<le> signal_count st
      | Broken e \<Rightarrow> True)"

lemma handlers_count:
  assumes "master_sigill A sig a uc st = Inr (x, st') \<or> apprentice_sigill A sig a uc st = Inr (x, st')"
  shows "signal_count st' = signal_count st + 1 \<and>
    illegal_instructions st' = illegal_instructions st + (if sig = SIGILL then illegal_now A uc a else 0)"
  using assms
  by (cases sig) (auto simp: master_sigill_def apprentice_sigill_def leave_handler_def Let_def
      dest!: send_changes recv_and_compare_changes split: if_splits)

text \<open>Both sides count the same at a checkpoint.\<close>

definition same_progress :: "'ri risu \<Rightarrow> 'ri risu \<Rightarrow> 'ri risu \<Rightarrow> 'ri risu \<Rightarrow> bool" where
  "same_progress stM stM' stA stA' \<longleftrightarrow>
     signal_count stM' + signal_count stA = signal_count stM + signal_count stA' \<and>
     illegal_instructions stM' + illegal_instructions stA = illegal_instructions stM + illegal_instructions stA'"

lemma handlers_progress:
  "master_sigill A sig a uc stM = Inr (x, stM') \<Longrightarrow> apprentice_sigill A sig a uc stA = Inr (y, stA') \<Longrightarrow>
     same_progress stM stM' stA stA'"
  using handlers_count [of A sig a uc stM x stM'] handlers_count [of A sig a uc stA y stA'] by (simp add: same_progress_def)

lemma same_progress_trans:
  "same_progress stM stM1 stA stA1 \<Longrightarrow> same_progress stM1 stM2 stA1 stA2 \<Longrightarrow> same_progress stM stM2 stA stA2"
  by (simp add: same_progress_def)

lemma step_counts:
  assumes "step H cpu c c'" "H = master_sigill A \<or> H = apprentice_sigill A" "counts_ok c"
  shows "counts_ok c'"
  using assms by (cases rule: step.cases) (auto simp: counts_ok_def illegal_now_bound dest!: handlers_count [OF disjI1] handlers_count [OF disjI2])

lemma runs_counts:
  assumes "runs H cpu c c'" "H = master_sigill A \<or> H = apprentice_sigill A" "counts_ok c"
  shows "counts_ok c'"
  using assms by (induction rule: rtranclp_induct) (auto intro: step_counts)

section \<open>Recording and replaying\<close>

context arch_backend
begin

lemma master_sigill_resume:
  assumes "master_sigill A sig a uc st = Inr (Resume uc2, st')"
  shows "sig = SIGILL \<and> (\<exists>uc1. send_register_info A uc a (st\<lparr>signal_count := signal_count st + 1\<rparr>) = Inr (RES_OK, uc1, st') \<and>
    uc2 = uc_advance A uc1)"
  using assms by (cases sig) (auto simp: master_sigill_def leave_handler_def Let_def split: if_splits)

lemma master_sigill_jump:
  assumes "master_sigill A sig a uc st = Inr (Longjmp r, st')" "r \<noteq> RES_SIGBUS"
  shows "sig = SIGILL \<and> r \<noteq> RES_OK \<and> (\<exists>uc1 st1. send_register_info A uc a (st\<lparr>signal_count := signal_count st + 1\<rparr>) = Inr (r, uc1, st1) \<and>
    comm st' = comm st1)"
  using assms by (cases sig) (auto simp: master_sigill_def leave_handler_def Let_def split: if_splits)

lemma apprentice_sigill_ok:
  "recv_and_compare_register_info A uc a (st\<lparr>signal_count := signal_count st + 1\<rparr>) = Inr (RES_OK, uc1, st') \<Longrightarrow>
     apprentice_sigill A SIGILL a uc st = Inr (Resume (uc_advance A uc1), st')"
  "recv_and_compare_register_info A uc a (st\<lparr>signal_count := signal_count st + 1\<rparr>) = Inr (r, uc1, st') \<Longrightarrow> r \<noteq> RES_OK \<Longrightarrow>
     apprentice_sigill A SIGILL a uc st = Inr (Longjmp r, st'\<lparr>signal_pc := uc_pc_of A uc1 a\<rparr>)"
  by (simp_all add: apprentice_sigill_def leave_handler_def)

lemma in_step_counts [simp]:
  "in_step (stM\<lparr>signal_count := i\<rparr>) stA = in_step stM stA" "in_step stM (stA\<lparr>signal_count := j\<rparr>) = in_step stM stA"
  "in_step stM (stA\<lparr>signal_pc := p\<rparr>) = in_step stM stA" "in_step (stM\<lparr>signal_pc := p\<rparr>) stA = in_step stM stA"
  by (simp_all add: in_step_def)

lemma send_keeps_wf: "send_register_info A uc a st = Inr (res, uc', st') \<Longrightarrow> wf_uc uc \<Longrightarrow> wf_uc uc'"
  using send_changes paramreg_wf by metis

text \<open>The image never asks for a memory comparison before it has set the memory block.\<close>

definition memory_set_first :: "('uc \<Rightarrow> 'uc event) \<Rightarrow> ('uc, 'ri) config \<Rightarrow> bool" where
  "memory_set_first cpu c =
     (\<forall>uc st sig a uc1 r. runs (master_sigill A) cpu c (Running uc st) \<and> cpu uc = Signal sig a uc1 \<and>
        ri_init A uc1 a = Inr r \<and> risuop_of A r = OP_COMPAREMEM \<longrightarrow> memblock st \<noteq> None)"

lemma memory_set_first_step:
  "memory_set_first cpu c \<Longrightarrow> step (master_sigill A) cpu c c' \<Longrightarrow> memory_set_first cpu c'"
  unfolding memory_set_first_def by (meson converse_rtranclp_into_rtranclp)

lemma memory_set_first_here:
  "memory_set_first cpu (Running uc st) \<Longrightarrow> cpu uc = Signal sig a uc1 \<Longrightarrow> ri_init A uc1 a = Inr r \<Longrightarrow>
     risuop_of A r = OP_COMPAREMEM \<Longrightarrow> memblock st \<noteq> None"
  unfolding memory_set_first_def by blast

text \<open>The record does not depend on the apprentice that will read it.\<close>

lemma checkpoint_record:
  assumes wf: "wf_uc uc1" and tr: "trace stM" and ns: "\<not> swaps_header A" and ok: "res \<noteq> RES_BAD_IO"
    and cpu: "cpu uc = Signal sig a uc1" and msf: "memory_set_first cpu (Running uc stM)"
    and send: "send_register_info A uc1 a (stM\<lparr>signal_count := signal_count stM + 1\<rparr>) = Inr (res, uc2, stM')"
  shows "\<exists>rec. tx (comm stM') = tx (comm stM) @ rec \<and>
    (\<forall>stA. in_step stM stA \<longrightarrow> follows uc1 a (stA\<lparr>signal_count := signal_count stA + 1\<rparr>) res uc2 stM' rec)"
proof -
  let ?stM = "stM\<lparr>signal_count := signal_count stM + 1\<rparr>"
  have nn: "memblock ?stM \<noteq> None" if "ri_init A uc1 a = Inr r" "risuop_of A r = OP_COMPAREMEM" for r
    using memory_set_first_here [OF msf cpu that] by simp
  have each: "\<exists>rec. tx (comm stM') = tx (comm stM) @ rec \<and> follows uc1 a stA res uc2 stM' rec"
    if "in_step ?stM stA" for stA
    using checkpoint_lockstep [OF wf that ns ok nn send] by simp
  obtain r where "ri_init A uc1 a = Inr r" using send by (auto simp: send_register_info_def)
  then have "in_step ?stM (stM\<lparr>ri_master := r, other_memblock := replicate MEMBLOCKLEN 0\<rparr>)"
    using init_wf [OF wf] tr by (simp add: in_step_def)
  from each [OF this] obtain rec where rec: "tx (comm stM') = tx (comm stM) @ rec" by blast
  then show ?thesis using each by (intro exI [of _ rec]) auto
qed

lemma replay_step:
  assumes "cpu uc = Signal SIGILL a uc1" "follows uc1 a (stA\<lparr>signal_count := signal_count stA + 1\<rparr>) res uc2 stM' rec"
    "rx (comm stA) = rec @ rest" "roomy (Suc (Suc m)) (plan (comm stA))" "master_sigill A SIGILL a uc1 stM = Inr (x, stM1)"
  obtains stA' where "in_step stM' stA'" "rx (comm stA') = rest" "roomy m (plan (comm stA'))" "same_progress stM stM1 stA stA'"
    "step (apprentice_sigill A) cpu (Running uc stA)
       (if res = RES_OK then Running (uc_advance A uc2) stA' else Stopped res stA')"
proof -
  let ?stA = "stA\<lparr>signal_count := signal_count stA + 1\<rparr>"
  from assms(2-4) obtain st' where
    st': "recv_and_compare_register_info A uc1 a ?stA = Inr (res, uc2, st')" "in_step stM' st'"
      "rx (comm st') = rest" "roomy m (plan (comm st'))"
    unfolding follows_def by fastforce
  show thesis
  proof (cases "res = RES_OK")
    case True
    with st' have h: "apprentice_sigill A SIGILL a uc1 stA = Inr (Resume (uc_advance A uc2), st')" by (simp add: apprentice_sigill_ok(1))
    with st' True assms(1) handlers_progress [OF assms(5) h] show thesis by (intro that [of st']) (auto intro: resumed)
  next
    case False
    let ?st = "st'\<lparr>signal_pc := uc_pc_of A uc2 a\<rparr>"
    from False st' have h: "apprentice_sigill A SIGILL a uc1 stA = Inr (Longjmp res, ?st)" by (simp add: apprentice_sigill_ok(2))
    with st' False assms(1) handlers_progress [OF assms(5) h] show thesis by (intro that [of ?st]) (auto intro: jumped)
  qed
qed

text \<open>An apprentice that is in step and reads the record ends like the master, and has counted the same.\<close>

definition replays :: "('uc \<Rightarrow> 'uc event) \<Rightarrow> 'uc \<Rightarrow> 'ri risu \<Rightarrow> 'ri risu \<Rightarrow> byte list \<Rightarrow> nat \<Rightarrow> bool" where
  "replays cpu uc stM stF rec n =
     (\<forall>stA rest. in_step stM stA \<and> rx (comm stA) = rec @ rest \<and> roomy n (plan (comm stA)) \<longrightarrow>
        (\<exists>stE. runs (apprentice_sigill A) cpu (Running uc stA) (Stopped RES_END stE) \<and> rx (comm stE) = rest \<and>
           same_progress stM stF stA stE))"

lemma replays_resumed:
  assumes cpu: "cpu uc = Signal SIGILL a uc1" and h: "master_sigill A SIGILL a uc1 stM = Inr (x, st')"
    and f: "\<And>stA. in_step stM stA \<Longrightarrow> follows uc1 a (stA\<lparr>signal_count := signal_count stA + 1\<rparr>) RES_OK uc2 st' rec1"
    and r: "replays cpu (uc_advance A uc2) st' stF rec2 n"
  shows "replays cpu uc stM stF (rec1 @ rec2) (Suc (Suc n))"
  unfolding replays_def
proof (intro allI impI, elim conjE)
  fix stA rest
  assume A: "in_step stM stA" "rx (comm stA) = (rec1 @ rec2) @ rest" "roomy (Suc (Suc n)) (plan (comm stA))"
  obtain stA' where a: "in_step st' stA'" "rx (comm stA') = rec2 @ rest" "roomy n (plan (comm stA'))" "same_progress stM st' stA stA'"
    "step (apprentice_sigill A) cpu (Running uc stA) (Running (uc_advance A uc2) stA')"
    using replay_step [of cpu uc a uc1 stA RES_OK uc2 st' rec1 "rec2 @ rest" n stM x st', OF cpu f [OF A(1)] _ A(3) h] A(2) by auto
  from r a(1-3) obtain stE where "runs (apprentice_sigill A) cpu (Running (uc_advance A uc2) stA') (Stopped RES_END stE)"
    "rx (comm stE) = rest" "same_progress st' stF stA' stE"
    unfolding replays_def by blast
  with a(5) converse_rtranclp_into_rtranclp [of "step (apprentice_sigill A) cpu"] same_progress_trans [OF a(4)]
  show "\<exists>stE. runs (apprentice_sigill A) cpu (Running uc stA) (Stopped RES_END stE) \<and> rx (comm stE) = rest \<and>
      same_progress stM stF stA stE"
    by blast
qed

lemma replays_jumped:
  assumes cpu: "cpu uc = Signal SIGILL a uc1" and h: "master_sigill A SIGILL a uc1 stM = Inr (x, stF)"
    and f: "\<And>stA. in_step stM stA \<Longrightarrow> follows uc1 a (stA\<lparr>signal_count := signal_count stA + 1\<rparr>) RES_END uc2 st' rec"
  shows "replays cpu uc stM stF rec (Suc (Suc 0))"
  unfolding replays_def
proof (intro allI impI, elim conjE)
  fix stA rest
  assume A: "in_step stM stA" "rx (comm stA) = rec @ rest" "roomy (Suc (Suc 0)) (plan (comm stA))"
  obtain stE where "rx (comm stE) = rest" "same_progress stM stF stA stE" "step (apprentice_sigill A) cpu (Running uc stA) (Stopped RES_END stE)"
    using replay_step [of cpu uc a uc1 stA RES_END uc2 st' rec rest 0 stM x stF, OF cpu f [OF A(1)] A(2,3) h] by auto
  then show "\<exists>stE. runs (apprentice_sigill A) cpu (Running uc stA) (Stopped RES_END stE) \<and> rx (comm stE) = rest \<and>
      same_progress stM stF stA stE"
    by blast
qed

lemma record_replay:
  assumes cpu: "\<And>u sig a u'. wf_uc u \<Longrightarrow> cpu u = Signal sig a u' \<Longrightarrow> wf_uc u'" and ns: "\<not> swaps_header A"
    and run: "runs (master_sigill A) cpu (Running uc stM) (Stopped RES_END stF)"
    and "wf_uc uc" "memory_set_first cpu (Running uc stM)" "trace stM"
  shows "\<exists>rec n. tx (comm stF) = tx (comm stM) @ rec \<and> replays cpu uc stM stF rec n"
  using run assms(4-6)
proof (induction "Running uc stM" arbitrary: uc stM rule: converse_rtranclp_induct)
  case (step c)
  let ?stM = "stM\<lparr>signal_count := signal_count stM + 1\<rparr>"
  from step.hyps(1) show ?case
  proof (cases rule: step.cases)
    case (resumed sig a uc1 uc2 st')
    from master_sigill_resume [OF resumed(3)] obtain uc1' where
      s: "sig = SIGILL" "send_register_info A uc1 a ?stM = Inr (RES_OK, uc1', st')" "uc2 = uc_advance A uc1'"
      by blast
    have wf1: "wf_uc uc1" using cpu step.prems(1) resumed(2) by blast
    have wf2: "wf_uc uc2" using send_keeps_wf [OF s(2) wf1] s(3) advance_wf by simp
    have tr': "trace st'" using send_changes [OF s(2)] step.prems(3) by simp
    have "memory_set_first cpu (Running uc2 st')"
      using memory_set_first_step [OF step.prems(2) step.hyps(1)] resumed(1) by simp
    from step.hyps(3) [OF resumed(1) wf2 this tr'] obtain rec2 n2 where
      r2: "tx (comm stF) = tx (comm st') @ rec2" "replays cpu uc2 st' stF rec2 n2" by blast
    obtain rec1 where r1: "tx (comm st') = tx (comm stM) @ rec1"
      "\<And>stA. in_step stM stA \<Longrightarrow> follows uc1 a (stA\<lparr>signal_count := signal_count stA + 1\<rparr>) RES_OK uc1' st' rec1"
      using checkpoint_record [OF wf1 step.prems(3) ns _ resumed(2) step.prems(2) s(2)] by auto
    have "replays cpu uc stM stF (rec1 @ rec2) (Suc (Suc n2))"
      using resumed(2,3) r1(2) r2(2)
      by (intro replays_resumed [where a = a and ?uc1.0 = uc1 and x = "Resume uc2" and st' = st' and ?uc2.0 = uc1']) (simp_all add: s)
    with r1 r2 show ?thesis by auto
  next
    case (jumped sig a uc1 r st')
    from step.hyps(2) jumped(1) have r: "r = RES_END" "st' = stF"
      by (auto elim: converse_rtranclpE)
    obtain uc2 st1 where s: "sig = SIGILL" "send_register_info A uc1 a ?stM = Inr (RES_END, uc2, st1)" "comm st' = comm st1"
      using master_sigill_jump [OF jumped(3)] r by auto
    have wf1: "wf_uc uc1" using cpu step.prems(1) jumped(2) by blast
    obtain rec where rec: "tx (comm stF) = tx (comm stM) @ rec"
      "\<And>stA. in_step stM stA \<Longrightarrow> follows uc1 a (stA\<lparr>signal_count := signal_count stA + 1\<rparr>) RES_END uc2 st1 rec"
      using checkpoint_record [OF wf1 step.prems(3) ns _ jumped(2) step.prems(2) s(2)] s(3) r by auto
    have "replays cpu uc stM stF rec (Suc (Suc 0))"
      using jumped(2,3) rec(2)
      by (intro replays_jumped [where a = a and ?uc1.0 = uc1 and x = "Longjmp r" and st' = st1 and ?uc2.0 = uc2]) (simp_all add: s(1) r)
    with rec show ?thesis by blast
  qed (use step.hyps(2) in \<open>auto elim: converse_rtranclpE\<close>)
qed

end

section \<open>A mismatch\<close>

context arch_backend
begin

lemma mismatch_detected:
  assumes ini: "ri_init A uc a = Inr ra" and st: "trace st" "\<not> is_setup st" "wf_ri (ri_master st)"
    and ops: "risuop_of A ra \<in> {OP_COMPARE, OP_TESTEND, OP_SIGILL}" "risuop_of A rm \<in> {OP_COMPARE, OP_TESTEND, OP_SIGILL}"
    and rm: "wf_ri rm" and room: "roomy 2 (plan (comm st))"
    and rx: "rx (comm st) = header_bytes (host_is_big A) (record_header A ucM rm (of_nat (sizeof_ri A))) @
      ri_bytes A (ri_host_to_arch A rm) @ rest"
    and ne: "ri_is_eq A (signal_count st + 1) rm ra = Inr (False, ra')"
  shows "\<exists>st'. apprentice_sigill A SIGILL a uc st = Inr (Longjmp RES_MISMATCH_REG, st') \<and>
    ri_master st' = rm \<and> ri_apprentice st' = ra' \<and> signal_pc st' = uc_pc_of A uc a"
proof -
  let ?st = "count_illegal (risuop_of A ra) (st\<lparr>signal_count := signal_count st + 1, ri_apprentice := ra\<rparr>)"
  have "roomy (Suc (Suc 0)) (plan (comm st))" using room by (simp add: numeral_2_eq_2)
  then obtain s where s: "recv_register_info A ?st =
      Inr (RES_OK, ?st\<lparr>header := record_header A ucM rm (of_nat (sizeof_ri A)), comm := s, ri_master := rm\<rparr>)"
    using recv_registers [of ?st 0 rm ucM rest] st rm ops(2) rx by auto
  have hop: "header_op (record_header A ucM rm (of_nat (sizeof_ri A))) = risuop_of A rm"
    using ops(2) op_of_record [of rm] by auto
  have "recv_and_compare_register_info A uc a (st\<lparr>signal_count := signal_count st + 1\<rparr>) =
      Inr (RES_MISMATCH_REG, uc, ?st\<lparr>header := record_header A ucM rm (of_nat (sizeof_ri A)), comm := s, ri_master := rm, ri_apprentice := ra'\<rparr>)"
    using ini st ops s ne hop by (auto simp: recv_and_compare_register_info_def compare_effect_def compare_registers_def Let_def)
  then show ?thesis by (auto simp: apprentice_sigill_ok(2))
qed

lemma mismatch_op_known:
  assumes "recv_and_compare_register_info A uc a st = Inr (RES_MISMATCH_OP, uc', st')"
  shows "op_known (header_op (header st')) \<and> op_known (risuop_of A (ri_apprentice st'))"
proof -
  from assms obtain r where r: "ri_init A uc a = Inr r" by (auto simp: recv_and_compare_register_info_def)
  let ?st = "count_illegal (risuop_of A r) (st\<lparr>ri_apprentice := r\<rparr>)"
  have "\<not> (risuop_of A r = OP_SIGILL \<and> is_setup ?st)"
    using assms r by (auto simp: recv_and_compare_register_info_def Let_def)
  with assms r obtain res1 st1 st2 where recv: "recv_register_info A ?st = Inr (res1, st1)" and
    eff: "(if res1 \<noteq> RES_OK then Inr (res1, uc, st1) else compare_effect A (risuop_of A r) uc st1) = Inr (RES_MISMATCH_OP, uc', st2)" and
    resp: "respond RES_END st2 = Inr st'"
    by (auto simp: recv_and_compare_register_info_def Let_def)
  have ok: "res1 = RES_OK" "ri_apprentice st1 = r" "op_known (header_op (header st1))"
    using eff recv_changes [OF recv] by (auto split: if_splits)
  obtain s where st': "st' = st2\<lparr>comm := s\<rparr>" using respond_keeps [OF resp] by auto
  have c: "compare_effect A (risuop_of A r) uc st1 = Inr (RES_MISMATCH_OP, uc', st2)" using eff ok by simp
  have "risuop_of A (ri_apprentice st2) = risuop_of A r" "header st2 = header st1" "op_known (risuop_of A r)"
    using compare_effect_changes [OF c] ok(2) eq_keeps_op by auto
  with ok(3) show ?thesis by (simp add: st')
qed

lemma mismatch_op_report:
  assumes "recv_and_compare_register_info A uc a st = Inr (RES_MISMATCH_OP, uc', st')"
  shows "\<exists>text. apprentice A RES_MISMATCH_OP st' = Inr (text, EXIT_FAILURE)"
proof -
  have name: "op_known op \<Longrightarrow> \<exists>n. op_name op = Inr n" for op by (cases op) auto
  obtain m where m: "op_name (header_op (header st')) = Inr m" using mismatch_op_known [OF assms] name by blast
  obtain n where n: "op_name (risuop_of A (ri_apprentice st')) = Inr n" using mismatch_op_known [OF assms] name by blast
  show ?thesis by (simp add: apprentice_def Let_def m n)
qed

end

end
