(* ===== verification/PPC_Backend.thy ===== *)
theory PPC_Backend
  imports PPC_Dump Session
begin

text \<open>
  The PowerPC back end as an instance of the interface the harness uses. \<open>lem\<close> tells whether the compiler
  defines \<^verbatim>\<open>__LITTLE_ENDIAN__\<close>, which is independent of the byte order of the host.
\<close>

definition ppc_arch :: "ppc_env \<Rightarrow> ppc_opts \<Rightarrow> bool \<Rightarrow> (ppc_ctx, reginfo) arch" where
  "ppc_arch env opts lem =
     \<lparr>little_endian_macro = lem,
      host_is_big = host_big_endian env,
      has_sockets = (platform env \<noteq> RISU_MACOS9),
      big_endian = get_arch_big_endian env,
      start_address = get_arch_start_address env,
      ri_init = reginfo_init env,
      ri_update = reginfo_update opts,
      ri_is_eq = reginfo_is_eq opts,
      ri_size = reginfo_size,
      sizeof_ri = 444,
      ri_bytes = reginfo_bytes (host_big_endian env),
      ri_of_bytes = reginfo_of_bytes (host_big_endian env),
      ri_host_to_arch = reginfo_host_to_arch env,
      ri_arch_to_host = reginfo_arch_to_host env,
      risuop_of = get_risuop,
      pc_of = get_pc env,
      paramreg_of = get_reginfo_paramreg,
      uc_pc_of = get_uc_pc,
      uc_set_paramreg = set_ucontext_paramreg,
      uc_advance = advance_pc env,
      arch_memory = get_arch_memory env,
      mem_read = read_mem,
      ri_dump = reginfo_dump (platform env),
      ri_dump_mismatch = reginfo_dump_mismatch opts\<rparr>"

lemma ppc_arch_simps [simp]:
  "little_endian_macro (ppc_arch env opts lem) = lem"
  "host_is_big (ppc_arch env opts lem) = host_big_endian env"
  "has_sockets (ppc_arch env opts lem) = (platform env \<noteq> RISU_MACOS9)"
  "big_endian (ppc_arch env opts lem) = get_arch_big_endian env"
  "start_address (ppc_arch env opts lem) = get_arch_start_address env"
  "ri_init (ppc_arch env opts lem) = reginfo_init env"
  "ri_update (ppc_arch env opts lem) = reginfo_update opts"
  "ri_is_eq (ppc_arch env opts lem) = reginfo_is_eq opts"
  "ri_size (ppc_arch env opts lem) = reginfo_size"
  "sizeof_ri (ppc_arch env opts lem) = 444"
  "ri_bytes (ppc_arch env opts lem) = reginfo_bytes (host_big_endian env)"
  "ri_of_bytes (ppc_arch env opts lem) = reginfo_of_bytes (host_big_endian env)"
  "ri_host_to_arch (ppc_arch env opts lem) = reginfo_host_to_arch env"
  "ri_arch_to_host (ppc_arch env opts lem) = reginfo_arch_to_host env"
  "risuop_of (ppc_arch env opts lem) = get_risuop"
  "pc_of (ppc_arch env opts lem) = get_pc env"
  "paramreg_of (ppc_arch env opts lem) = get_reginfo_paramreg"
  "uc_pc_of (ppc_arch env opts lem) = get_uc_pc"
  "uc_set_paramreg (ppc_arch env opts lem) = set_ucontext_paramreg"
  "uc_advance (ppc_arch env opts lem) = advance_pc env"
  "arch_memory (ppc_arch env opts lem) = get_arch_memory env"
  "mem_read (ppc_arch env opts lem) = read_mem"
  "ri_dump (ppc_arch env opts lem) = reginfo_dump (platform env)"
  "ri_dump_mismatch (ppc_arch env opts lem) = reginfo_dump_mismatch opts"
  by (simp_all add: ppc_arch_def)

section \<open>The laws of the interface\<close>

lemma compare_gprs_faulting: "compare_gprs msk m rt ra rb is a = Inr (q, b) \<Longrightarrow> faulting_insn b = faulting_insn a"
  by (induction "is" arbitrary: a) (fastforce split: if_splits)+

lemma compare_fpregs_faulting: "compare_fpregs opts m rt ra rb rc is a = Inr (q, b) \<Longrightarrow> faulting_insn b = faulting_insn a"
  by (induction "is" arbitrary: a) (fastforce split: if_splits)+

lemma stages_keep_faulting:
  "compare_xer opts m a = Inr (q, b) \<Longrightarrow> faulting_insn b = faulting_insn a"
  "compare_lnk m a = Inr (q, b) \<Longrightarrow> faulting_insn b = faulting_insn a"
  "compare_ctr m a = Inr (q, b) \<Longrightarrow> faulting_insn b = faulting_insn a"
  "compare_ccr opts m rt ra rb a = Inr (q, b) \<Longrightarrow> faulting_insn b = faulting_insn a"
  "compare_mq opts n m rt ra rb a = Inr (q, b) \<Longrightarrow> faulting_insn b = faulting_insn a"
  "compare_fpscr opts m a = Inr (q, b) \<Longrightarrow> faulting_insn b = faulting_insn a"
  by (auto simp: compare_xer_def compare_lnk_def compare_ctr_def compare_ccr_def compare_mq_def
      compare_fpscr_def split: if_splits)

lemma whenEq_faulting:
  assumes "whenEq r f = Inr (q, b)" "\<And>q c. r = Inr (q, c) \<Longrightarrow> faulting_insn c = faulting_insn a"
    "\<And>c q b. f c = Inr (q, b) \<Longrightarrow> faulting_insn b = faulting_insn c"
  shows "faulting_insn b = faulting_insn a"
  using assms by (cases r) (fastforce simp: whenEq_def split: if_splits)+

lemma reginfo_is_eq_keeps_op: "reginfo_is_eq opts n m a = Inr (q, b) \<Longrightarrow> get_risuop b = get_risuop a"
proof -
  assume eq: "reginfo_is_eq opts n m a = Inr (q, b)"
  have "faulting_insn b = faulting_insn a"
    using eq unfolding reginfo_is_eq_def Let_def
    by (elim whenEq_faulting) (auto dest: compare_gprs_faulting compare_fpregs_faulting stages_keep_faulting)
  then show ?thesis by (simp only: get_risuop_def)
qed

lemma wf_host_to_arch [simp]: "wf_reginfo (reginfo_host_to_arch env r) = wf_reginfo r"
  by (simp add: reginfo_host_to_arch_def)

lemma arch_to_host_back [simp]: "reginfo_arch_to_host env (reginfo_host_to_arch env r) = r"
  by (simp add: reginfo_host_to_arch_def reginfo_arch_to_host_def)

interpretation ppc: arch_backend "ppc_arch env opts lem" wf_reginfo wf_ctx for env opts lem
proof unfold_locales
  fix uc a r
  show "wf_ctx uc \<Longrightarrow> ri_init (ppc_arch env opts lem) uc a = Inr r \<Longrightarrow> wf_reginfo r"
    by (simp add: reginfo_init_cases(4))
  show "wf_ctx uc \<Longrightarrow> ri_init (ppc_arch env opts lem) uc a = Inr r \<Longrightarrow> ri_update (ppc_arch env opts lem) r uc = uc"
    by (simp add: reginfo_update_init)
  show "ri_is_eq (ppc_arch env opts lem) n r r = Inr (True, r)" for n
    by (simp add: reginfo_is_eq_agree)
  show "ri_is_eq (ppc_arch env opts lem) n m r = Inr (b, r') \<Longrightarrow>
      risuop_of (ppc_arch env opts lem) r' = risuop_of (ppc_arch env opts lem) r" for n m b r'
    by (simp add: reginfo_is_eq_keeps_op)
qed (simp_all add: length_reginfo_bytes reginfo_of_bytes_bytes reginfo_size_def MEMBLOCKLEN_def read_mem_def)

lemma ppc_swaps: "swaps_header (ppc_arch env opts lem) = (lem = get_arch_big_endian env)"
  by (simp add: swaps_header_def)

section \<open>Properties of a session\<close>

text \<open>
  C4: a recorded session replays: if the master, writing a trace file, runs the image to its end
  (\<^verbatim>\<open>RES_END\<close>), then an apprentice that starts in the same context on the same processor, reads back what was
  written and is served by enough complete reads also ends with \<^verbatim>\<open>RES_END\<close>, has then consumed exactly the
  recorded bytes, and has counted as many checkpoints and illegal instructions as the master. The header must not be byte-swapped by the master, and the image must set the memory
  block before it asks for a memory comparison.
\<close>

theorem trace_replays:
  assumes "\<And>u sig a u'. wf_ctx u \<Longrightarrow> cpu u = Signal sig a u' \<Longrightarrow> wf_ctx u'"
    and "lem \<noteq> get_arch_big_endian env"
    and "runs (master_sigill (ppc_arch env opts lem)) cpu (Running uc stM) (Stopped RES_END stF)"
    and "wf_ctx uc" and "trace stM"
    and "\<And>u st sig a u1 r. runs (master_sigill (ppc_arch env opts lem)) cpu (Running uc stM) (Running u st) \<Longrightarrow>
      cpu u = Signal sig a u1 \<Longrightarrow> reginfo_init env u1 a = Inr r \<Longrightarrow> get_risuop r = OP_COMPAREMEM \<Longrightarrow> memblock st \<noteq> None"
  shows "\<exists>rec n. tx (comm stF) = tx (comm stM) @ rec \<and>
    (\<forall>stA rest.
       trace stA \<and> is_setup stA = is_setup stM \<and> memblock stA = memblock stM \<and> arch_memblock stA = arch_memblock stM \<and>
       wf_reginfo (ri_master stA) \<and> length (other_memblock stA) = MEMBLOCKLEN \<and>
       rx (comm stA) = rec @ rest \<and> roomy n (plan (comm stA)) \<longrightarrow>
       (\<exists>stE. runs (apprentice_sigill (ppc_arch env opts lem)) cpu (Running uc stA) (Stopped RES_END stE) \<and>
          rx (comm stE) = rest \<and> same_progress stM stF stA stE))"
proof -
  have "ppc.memory_set_first env opts lem cpu (Running uc stM)"
    unfolding ppc.memory_set_first_def ppc_arch_simps using assms(6) by blast
  then have "\<exists>rec n. tx (comm stF) = tx (comm stM) @ rec \<and> ppc.replays env opts lem cpu uc stM stF rec n"
    using assms(2) by (intro ppc.record_replay [OF _ _ assms(3,4) _ assms(5)]) (auto simp: ppc_swaps intro: assms(1))
  then obtain rec n where
    "tx (comm stF) = tx (comm stM) @ rec" "ppc.replays env opts lem cpu uc stM stF rec n" by blast
  then show ?thesis
    using assms(5) unfolding ppc.replays_def ppc.in_step_def
    by (intro exI [of _ rec] exI [of _ n]) auto
qed

text \<open>A one-instruction image: the word \<open>0x5af1\<close>, the end of the test.\<close>

definition end_ctx :: ppc_ctx where
  "end_ctx = sample_ctx\<lparr>uc_mem := (\<lambda>x. if x = 0x1002 then 0x5a else if x = 0x1003 then 0xf1 else 0)\<rparr>"

definition start_state :: "byte list \<Rightarrow> nat \<Rightarrow> reginfo risu" where
  "start_state bs n =
     \<lparr>ri_master = blank_reginfo, ri_apprentice = blank_reginfo, other_memblock = replicate MEMBLOCKLEN 0,
      header = \<lparr>magic = 0, size = 0, risu_op = 0, pc = 0\<rparr>, memblock = None, arch_memblock = 0,
      comm = \<lparr>rx = bs, tx = [], errno = 0, plan = replicate n (Xfer MEMBLOCKLEN)\<rparr>, trace = True,
      signal_count = 0, illegal_instructions = 0, signal_pc = 0, is_setup = False\<rparr>"

lemma sample_big_endian: "get_arch_big_endian sample_env"
  by (simp add: get_arch_big_endian_def sample_env_def)

lemma start_trace: "trace (start_state bs n)"
  by (simp add: start_state_def)

lemma wf_end_ctx: "wf_ctx end_ctx"
  using wf_sample_ctx by (simp add: end_ctx_def wf_ctx_def)

lemma end_init: "\<exists>r. reginfo_init sample_env end_ctx a = Inr r"
  by (simp add: reginfo_init_def get_arch_memory_def sample_env_def Let_def)

lemma read_mem_4: "read_mem uc a 4 = [uc_mem uc a, uc_mem uc (a + 1), uc_mem uc (a + 2), uc_mem uc (a + 3)]"
  by (simp add: read_mem_def upt_rec)

lemma end_op: "reginfo_init sample_env end_ctx a = Inr r \<Longrightarrow> get_risuop r = OP_TESTEND"
proof -
  assume "reginfo_init sample_env end_ctx a = Inr r"
  from reginfo_init_cases(5) [OF this wf_end_ctx] have "faulting_insn r = fetch_insn sample_env end_ctx 0x1000"
    by (simp add: end_ctx_def sample_ctx_def)
  also have "\<dots> = of_mem_bytes True (read_mem end_ctx 0x1000 4)"
    by (simp add: fetch_insn_def insn_in_image_def get_arch_start_address_def sample_env_def arch_to_host_32_def)
  also have "\<dots> = 0x5af1"
    by (simp add: read_mem_4 end_ctx_def sample_ctx_def of_mem_bytes_def)
  finally have "faulting_insn r = 0x5af1" .
  then show ?thesis by (simp add: get_risuop_def op_of_int_def)
qed

lemma end_run:
  assumes "trace st" "roomy 2 (plan (comm st))"
  shows "\<exists>stF. runs (master_sigill (ppc_arch sample_env opts False)) (\<lambda>_. Signal SIGILL 0 end_ctx) (Running uc st) (Stopped RES_END stF)"
proof -
  let ?A = "ppc_arch sample_env opts False" and ?st = "st\<lparr>signal_count := signal_count st + 1\<rparr>"
  obtain r where r: "reginfo_init sample_env end_ctx 0 = Inr r" using end_init by blast
  note op = end_op [OF r]
  have "\<not> swaps_header ?A" by (simp add: ppc_swaps sample_big_endian)
  with ppc.send_registers [of sample_env opts False end_ctx 0 r ?st 0] r op wf_end_ctx assms obtain st' where
    "send_register_info ?A end_ctx 0 ?st = Inr (RES_END, end_ctx, st')"
    by (auto simp: numeral_2_eq_2)
  then have "master_sigill ?A SIGILL 0 end_ctx st = Inr (Longjmp RES_END, st'\<lparr>signal_pc := uc_pc_of ?A end_ctx 0\<rparr>)"
    by (simp add: master_sigill_def leave_handler_def Let_def)
  then have "step (master_sigill ?A) (\<lambda>_. Signal SIGILL 0 end_ctx) (Running uc st) (Stopped RES_END (st'\<lparr>signal_pc := uc_pc_of ?A end_ctx 0\<rparr>))"
    by (intro step.jumped) simp_all
  then show ?thesis by blast
qed

theorem trace_replays_witness:
  "\<exists>stF bs n stE. tx (comm stF) = bs \<and>
     runs (master_sigill (ppc_arch sample_env (default_opts APPLE) False)) (\<lambda>_. Signal SIGILL 0 end_ctx)
       (Running end_ctx (start_state [] 2)) (Stopped RES_END stF) \<and>
     runs (apprentice_sigill (ppc_arch sample_env (default_opts APPLE) False)) (\<lambda>_. Signal SIGILL 0 end_ctx)
       (Running end_ctx (start_state bs n)) (Stopped RES_END stE) \<and> print_stats stE = print_stats stF"
proof -
  obtain stF where run: "runs (master_sigill (ppc_arch sample_env (default_opts APPLE) False)) (\<lambda>_. Signal SIGILL 0 end_ctx)
      (Running end_ctx (start_state [] 2)) (Stopped RES_END stF)"
    using end_run [of "start_state [] 2"] by (auto simp: start_state_def numeral_2_eq_2)
  have "\<exists>rec n. tx (comm stF) = tx (comm (start_state [] 2)) @ rec \<and>
    (\<forall>stA rest.
       trace stA \<and> is_setup stA = is_setup (start_state [] 2) \<and> memblock stA = memblock (start_state [] 2) \<and>
       arch_memblock stA = arch_memblock (start_state [] 2) \<and>
       wf_reginfo (ri_master stA) \<and> length (other_memblock stA) = MEMBLOCKLEN \<and>
       rx (comm stA) = rec @ rest \<and> roomy n (plan (comm stA)) \<longrightarrow>
       (\<exists>stE. runs (apprentice_sigill (ppc_arch sample_env (default_opts APPLE) False)) (\<lambda>_. Signal SIGILL 0 end_ctx)
          (Running end_ctx stA) (Stopped RES_END stE) \<and> rx (comm stE) = rest \<and> same_progress (start_state [] 2) stF stA stE))"
    by (rule trace_replays [OF _ _ run wf_end_ctx]) (auto simp: sample_big_endian wf_end_ctx start_trace dest: end_op)
  then obtain rec n where rec: "tx (comm stF) = tx (comm (start_state [] 2)) @ rec" and rep: "\<And>stA rest.
       trace stA \<and> is_setup stA = is_setup (start_state [] 2) \<and> memblock stA = memblock (start_state [] 2) \<and>
       arch_memblock stA = arch_memblock (start_state [] 2) \<and>
       wf_reginfo (ri_master stA) \<and> length (other_memblock stA) = MEMBLOCKLEN \<and>
       rx (comm stA) = rec @ rest \<and> roomy n (plan (comm stA)) \<Longrightarrow>
       \<exists>stE. runs (apprentice_sigill (ppc_arch sample_env (default_opts APPLE) False)) (\<lambda>_. Signal SIGILL 0 end_ctx)
          (Running end_ctx stA) (Stopped RES_END stE) \<and> rx (comm stE) = rest \<and> same_progress (start_state [] 2) stF stA stE"
    by blast
  obtain stE where stE: "runs (apprentice_sigill (ppc_arch sample_env (default_opts APPLE) False)) (\<lambda>_. Signal SIGILL 0 end_ctx)
      (Running end_ctx (start_state rec n)) (Stopped RES_END stE)" "same_progress (start_state [] 2) stF (start_state rec n) stE"
    using rep [of "start_state rec n" "[]"] by (auto simp: start_state_def)
  have "tx (comm stF) = rec" using rec by (simp add: start_state_def)
  moreover have "print_stats stE = print_stats stF"
    using stE(2) by (simp add: same_progress_def print_stats_def start_state_def)
  ultimately show ?thesis using run stE(1) by blast
qed

text \<open>
  C9: a register difference stops the session at once and is reported: when the next record holds an
  image that does not compare equal to the apprentice's own, the handler leaves with \<^verbatim>\<open>RES_MISMATCH_REG\<close>, and
  the apprentice exits with a failure after printing both images and a non-empty list of differences.
\<close>

theorem mismatch_stops_with_report:
  assumes "reginfo_init env uc a = Inr ra" and "trace st" and "\<not> is_setup st" and "wf_reginfo (ri_master st)" and "wf_reginfo rm"
    and "get_risuop ra \<in> {OP_COMPARE, OP_TESTEND, OP_SIGILL}" and "get_risuop rm \<in> {OP_COMPARE, OP_TESTEND, OP_SIGILL}"
    and "roomy 2 (plan (comm st))"
    and "rx (comm st) = header_bytes (host_big_endian env) (record_header (ppc_arch env opts lem) ucM rm 444) @
      reginfo_bytes (host_big_endian env) (reginfo_host_to_arch env rm) @ rest"
    and "reginfo_is_eq opts (signal_count st + 1) rm ra = Inr (False, ra')"
  shows "\<exists>st' text. apprentice_sigill (ppc_arch env opts lem) SIGILL a uc st = Inr (Longjmp RES_MISMATCH_REG, st') \<and>
    apprentice (ppc_arch env opts lem) RES_MISMATCH_REG st' = Inr (text @ reginfo_dump_mismatch opts rm ra', EXIT_FAILURE) \<and>
    reginfo_dump_mismatch opts rm ra' \<noteq> []"
proof -
  obtain st' where st': "apprentice_sigill (ppc_arch env opts lem) SIGILL a uc st = Inr (Longjmp RES_MISMATCH_REG, st')"
    "ri_master st' = rm" "ri_apprentice st' = ra'"
    using ppc.mismatch_detected [of env opts lem uc a ra st rm ucM rest ra'] assms by auto
  have "\<exists>text. apprentice (ppc_arch env opts lem) RES_MISMATCH_REG st' = Inr (text @ reginfo_dump_mismatch opts rm ra', EXIT_FAILURE)"
    unfolding apprentice_def Let_def st'(2,3) ppc_arch_simps RisuResult.case
    by (intro exI, subst append_assoc [symmetric])+ simp
  then show ?thesis using st'(1) reginfo_is_eq_False_reported [OF assms(10)] by blast
qed

lemma end_prev:
  assumes "reginfo_init sample_env end_ctx 0 = Inr r"
  shows "prev_insn r = 0" "second_prev_insn r = 0"
  using assms
  by (auto simp: reginfo_init_def get_uc_pc_def fetch_insn_def insn_in_image_def get_arch_start_address_def sample_env_def
      end_ctx_def sample_ctx_def arch_to_host_32_def Let_def split: if_splits)

theorem mismatch_stops_with_report_witness:
  "\<exists>st a' text st'. apprentice_sigill (ppc_arch sample_env (default_opts APPLE) False) SIGILL 0 end_ctx st = Inr (Longjmp RES_MISMATCH_REG, st') \<and>
     apprentice (ppc_arch sample_env (default_opts APPLE) False) RES_MISMATCH_REG st' = Inr (text, EXIT_FAILURE)"
proof -
  obtain ra where ra: "reginfo_init sample_env end_ctx 0 = Inr ra" using end_init by blast
  define rm where "rm = ra\<lparr>fpscr := fpscr ra + 1\<rparr>"
  define bs where "bs = header_bytes (host_big_endian sample_env) (record_header (ppc_arch sample_env (default_opts APPLE) False) end_ctx rm 444) @
      reginfo_bytes (host_big_endian sample_env) (reginfo_host_to_arch sample_env rm) @ []"
  let ?st = "start_state bs 2\<lparr>signal_count := 1\<rparr>"
  have wf: "wf_reginfo ra" "wf_reginfo rm"
    using reginfo_init_cases(4) [OF ra wf_end_ctx] by (simp_all add: rm_def wf_reginfo_def)
  have op: "get_risuop ra = OP_TESTEND" "get_risuop rm = OP_TESTEND"
    using end_op [OF ra] by (simp_all add: rm_def get_risuop_def)
  have "strict_opts (default_opts APPLE)" "plain_insn rm"
    using end_prev [OF ra] by (simp_all add: strict_opts_def default_opts_def plain_insn_def insn_is_def rm_def)
  then have ne: "reginfo_is_eq (default_opts APPLE) (signal_count ?st + 1) rm ra = Inr (False, ra)"
    using wf by (simp add: reginfo_is_eq_strict regs_agree_def rm_def)
  have st: "trace ?st" "\<not> is_setup ?st" "wf_reginfo (ri_master ?st)" "roomy 2 (plan (comm ?st))" "rx (comm ?st) = bs"
    by (simp_all add: start_state_def)
  from mismatch_stops_with_report [OF ra st(1-3) wf(2) _ _ st(4) trans [OF st(5) bs_def] ne] op
  show ?thesis by blast
qed





text \<open>
  C30: an operation mismatch is always printable: whenever the apprentice stops with \<^verbatim>\<open>RES_MISMATCH_OP\<close>, over a
  socket or a trace file, both operations have names, so that the report does not reach the \<^verbatim>\<open>abort\<close> of
  \<^verbatim>\<open>op_name\<close>.
\<close>

theorem mismatch_op_has_names:
  assumes "recv_and_compare_register_info (ppc_arch env opts lem) uc a st = Inr (RES_MISMATCH_OP, uc', st')"
  shows "\<exists>text. apprentice (ppc_arch env opts lem) RES_MISMATCH_OP st' = Inr (text, EXIT_FAILURE)"
  by (rule ppc.mismatch_op_report [OF assms])

lemma op_mismatch_occurs:
  "\<exists>st uc' st'. recv_and_compare_register_info (ppc_arch sample_env opts False) end_ctx 0 st = Inr (RES_MISMATCH_OP, uc', st')"
proof -
  let ?A = "ppc_arch sample_env opts False"
  obtain ra where ra: "reginfo_init sample_env end_ctx 0 = Inr ra" using end_init by blast
  note op = end_op [OF ra]
  define rm where "rm = ra\<lparr>faulting_insn := 0x5af5\<rparr>"
  have opm: "get_risuop rm = OP_SETUPBEGIN" by (simp add: rm_def get_risuop_def op_of_int_def)
  let ?st = "start_state (header_bytes True (record_header ?A end_ctx rm 0)) 1"
  let ?st1 = "count_illegal OP_TESTEND (?st\<lparr>ri_apprentice := ra\<rparr>)"
  obtain s where s: "recv_register_info ?A ?st1 = Inr (RES_OK, ?st1\<lparr>comm := s, header := record_header ?A end_ctx rm 0\<rparr>)"
    using ppc.recv_plain [of ?st1 0 sample_env opts False rm end_ctx "[]"] opm
    by (auto simp: start_state_def count_illegal_def sample_env_def)
  have "header_op (record_header ?A end_ctx rm 0) = OP_SETUPBEGIN"
    using ppc.op_of_record [of sample_env opts False rm] opm by simp
  then have "recv_and_compare_register_info ?A end_ctx 0 ?st =
      Inr (RES_MISMATCH_OP, end_ctx, ?st1\<lparr>comm := s, header := record_header ?A end_ctx rm 0\<rparr>)"
    using ra op s start_trace
    by (simp add: recv_and_compare_register_info_def compare_effect_def compare_registers_def Let_def)
  then show ?thesis by blast
qed

theorem mismatch_op_has_names_witness:
  "\<exists>text st'. apprentice (ppc_arch sample_env (default_opts APPLE) False) RES_MISMATCH_OP st' = Inr (text, EXIT_FAILURE)"
  using op_mismatch_occurs [of "default_opts APPLE"] mismatch_op_has_names by blast

text \<open>
  The counters of the final report make sense: in every state a session can stop in, on either side,
  there were at least as many signals as illegal instructions, so the number of checkpoints printed is
  not negative.
\<close>

lemma counters_consistent:
  assumes "runs H cpu (Running uc st) (Stopped r st')"
    and "H = master_sigill (ppc_arch env opts lem) \<or> H = apprentice_sigill (ppc_arch env opts lem)"
    and "illegal_instructions st \<le> signal_count st"
  shows "illegal_instructions st' \<le> signal_count st'"
  using runs_counts [OF assms(1,2)] assms(3) by (simp add: counts_ok_def)

end
