(* ===== verification/Socket_Session.thy ===== *)
theory Socket_Session
  imports PPC_Backend
begin

text \<open>
  A checkpoint over a socket: the master sends a header packet and, when the apprentice has answered it, a payload packet; the
  apprentice answers the last packet of a record with the result of the comparison. The two processes run concurrently, but
  the protocol is strictly alternating, so that what each of them does is a function of the bytes the other one sends.
\<close>

section \<open>Packets\<close>

text \<open>The next \<open>m\<close> system calls transfer whatever they are asked to, up to a memory block with its length.\<close>

fun ample :: "nat \<Rightarrow> sysret list \<Rightarrow> bool" where
  "ample 0 p = True"
| "ample (Suc m) (Xfer k # p) = (MEMBLOCKLEN + 4 \<le> k \<and> ample m p)"
| "ample (Suc m) p = False"

lemma ample_SucE:
  assumes "ample (Suc m) p"
  obtains k q where "p = Xfer k # q" "MEMBLOCKLEN + 4 \<le> k" "ample m q"
  using assms by (cases "(Suc m, p)" rule: ample.cases) auto

lemma ample_replicate [simp]: "ample n (replicate n (Xfer (MEMBLOCKLEN + 4)))"
  by (induction n) simp_all

lemma recv_bytes_ample:
  assumes "rx s = bs @ rest" "length bs = n" "0 < n" "n \<le> MEMBLOCKLEN" "ample (Suc m) (plan s)"
  obtains s' where "recv_bytes n s = Inr (bs, s')" "rx s' = rest" "tx s' = tx s" "ample m (plan s')"
proof -
  obtain k q where p: "plan s = Xfer k # q" "MEMBLOCKLEN + 4 \<le> k" "ample m q" using ample_SucE [OF assms(5)] .
  have "sys_read n s = Some (int n, bs, s\<lparr>rx := rest, plan := q\<rparr>)"
    using assms(1-4) p by (simp add: sys_read_def Let_def min_def)
  then have "recv_bytes n s = Inr (bs, s\<lparr>rx := rest, plan := q\<rparr>)" using assms(3) by (simp add: recv_bytes.simps [of n s])
  with p(3) show thesis by (intro that [of "s\<lparr>rx := rest, plan := q\<rparr>"]) simp_all
qed

lemma recv_packet:
  assumes "rx s = pkt_frame bs @ rest" "0 < length bs" "length bs \<le> MEMBLOCKLEN" "ample (Suc (Suc m)) (plan s)"
  obtains s' where "recv_data_pkt (length bs) s = Inr (RES_OK, bs, s')" "rx s' = rest" "tx s' = tx s" "ample m (plan s')"
proof -
  let ?lb = "mem_bytes True 4 (of_nat (length bs) :: u32)"
  obtain s1 where s1: "recv_bytes 4 s = Inr (?lb, s1)" "rx s1 = bs @ rest" "tx s1 = tx s" "ample (Suc m) (plan s1)"
    using recv_bytes_ample [of s ?lb "bs @ rest" 4 "Suc m"] assms(1, 4) by (auto simp: pkt_frame_def MEMBLOCKLEN_def)
  obtain s2 where s2: "recv_bytes (length bs) s1 = Inr (bs, s2)" "rx s2 = rest" "tx s2 = tx s1" "ample m (plan s2)"
    using recv_bytes_ample [of s1 bs rest "length bs" m] s1 assms(2, 3) by auto
  show thesis by (rule that [of s2]) (use s1 s2 in \<open>simp_all add: recv_data_pkt_def\<close>)
qed

lemma send_packet:
  assumes "rx s = b # rest" "length bs \<le> MEMBLOCKLEN" "ample (Suc (Suc m)) (plan s)"
  obtains s' where "send_data_pkt bs (length bs) s = Inr (res_of_nat (unat b), s')" "rx s' = rest" "tx s' = tx s @ pkt_frame bs" "ample m (plan s')"
proof -
  obtain k q where p: "plan s = Xfer k # q" "MEMBLOCKLEN + 4 \<le> k" "ample (Suc m) q" using ample_SucE [OF assms(3)] .
  obtain k' q' where p': "q = Xfer k' # q'" "MEMBLOCKLEN + 4 \<le> k'" "ample m q'" using ample_SucE [OF p(3)] .
  let ?iov = "[(mem_bytes True 4 (of_nat (length bs) :: u32), 4), (bs, length bs)]"
  have g: "gather ?iov = pkt_frame bs" by (simp add: pkt_frame_def)
  obtain e where w: "safe_writev ?iov s = Inr (0 + int (length (pkt_frame bs)), s\<lparr>tx := tx s @ pkt_frame bs, errno := e, plan := q\<rparr>)"
    using safe_writev_loop_whole [of s 0 k q ?iov 0] p assms(2) unfolding safe_writev_def g by (auto simp: pkt_frame_def)
  show thesis
    by (rule that [of "s\<lparr>tx := tx s @ pkt_frame bs, errno := e, rx := rest, plan := q'\<rparr>"])
      (use w p' assms(1) in \<open>simp_all add: send_data_pkt_def Let_def sys_read_def MEMBLOCKLEN_def\<close>)
qed

lemma send_reply:
  assumes "ample (Suc m) (plan s)"
  obtains s' where "send_response_byte r s = Inr s'" "rx s' = rx s" "tx s' = tx s @ [of_nat (nat_of_res r)]" "ample m (plan s')"
proof -
  obtain k q where p: "plan s = Xfer k # q" "MEMBLOCKLEN + 4 \<le> k" "ample m q" using ample_SucE [OF assms] .
  then show thesis
    by (intro that [of "s\<lparr>tx := tx s @ [of_nat (nat_of_res r)], plan := q\<rparr>"]) (simp_all add: send_response_byte_def sys_write_def MEMBLOCKLEN_def)
qed

lemma ample_mono: "ample (n + m) p \<Longrightarrow> ample m p"
proof (induction m arbitrary: p)
  case (Suc m)
  then have "ample (Suc (n + m)) p" by simp
  then obtain k q where "p = Xfer k # q" "MEMBLOCKLEN + 4 \<le> k" "ample (n + m) q" by (rule ample_SucE)
  with Suc.IH show ?case by simp
qed simp

section \<open>Records\<close>

text \<open>
  What a master puts on the wire for an image (a header packet, and a payload packet if there is a payload), and what the
  apprentice answers: the payload is asked for, and the last packet is answered with the verdict.
\<close>

definition record_size :: "('uc, 'ri) arch \<Rightarrow> RisuOp \<Rightarrow> u32" where
  "record_size A op =
     (if op \<in> {OP_COMPARE, OP_TESTEND, OP_SIGILL} then of_nat (sizeof_ri A)
      else if op = OP_COMPAREMEM then of_nat MEMBLOCKLEN else 0)"

definition record_payload :: "('uc, 'ri) arch \<Rightarrow> 'uc \<Rightarrow> 'ri \<Rightarrow> arch_ptr option \<Rightarrow> byte list option" where
  "record_payload A uc r mb =
     (if risuop_of A r \<in> {OP_COMPARE, OP_TESTEND, OP_SIGILL} then Some (ri_bytes A (ri_host_to_arch A r))
      else if risuop_of A r = OP_COMPAREMEM then map_option (\<lambda>p. mem_read A uc p MEMBLOCKLEN) mb else None)"

definition record_frames :: "('uc, 'ri) arch \<Rightarrow> 'uc \<Rightarrow> 'ri \<Rightarrow> arch_ptr option \<Rightarrow> byte list" where
  "record_frames A uc r mb =
     pkt_frame (header_bytes (host_is_big A) (record_header A uc r (record_size A (risuop_of A r)))) @
     (case record_payload A uc r mb of None \<Rightarrow> [] | Some bs \<Rightarrow> pkt_frame bs)"

text \<open>The apprentice that has received such a record, but for its descriptor.\<close>

definition received :: "('uc, 'ri) arch \<Rightarrow> 'uc \<Rightarrow> 'ri \<Rightarrow> arch_ptr option \<Rightarrow> 'ri risu \<Rightarrow> 'ri risu" where
  "received A uc r mb st =
     (let st = st\<lparr>header := record_header A uc r (record_size A (risuop_of A r))\<rparr>
      in if risuop_of A r \<in> {OP_COMPARE, OP_TESTEND, OP_SIGILL} then st\<lparr>ri_master := r\<rparr>
         else
           (case record_payload A uc r mb of None \<Rightarrow> st | Some bs \<Rightarrow> st\<lparr>other_memblock := bs\<rparr>))"

definition answers :: "RisuOp \<Rightarrow> RisuResult \<Rightarrow> byte list" where
  "answers op res =
     (if op \<in> {OP_COMPARE, OP_TESTEND, OP_SIGILL, OP_COMPAREMEM} then [0] else []) @
     [of_nat (nat_of_res (if res = RES_OK then RES_OK else RES_END))]"

lemma received_simps [simp]:
  "comm (received A uc r mb st) = comm st" "trace (received A uc r mb st) = trace st" "is_setup (received A uc r mb st) = is_setup st"
  "ri_apprentice (received A uc r mb st) = ri_apprentice st" "signal_count (received A uc r mb st) = signal_count st"
  "memblock (received A uc r mb st) = memblock st" "arch_memblock (received A uc r mb st) = arch_memblock st"
  "illegal_instructions (received A uc r mb st) = illegal_instructions st"
  by (auto simp: received_def Let_def split: option.split)

lemma socket_buffers:
  assumes "has_sockets A" "\<not> trace st"
  shows "read_buffer A n st = andThen (recv_data_pkt n (comm st)) (\<lambda>(r, bs, s). Inr (r, bs, st\<lparr>comm := s\<rparr>))"
    and "write_buffer A bs n st = andThen (send_data_pkt bs n (comm st)) (\<lambda>(r, s). Inr (r, st\<lparr>comm := s\<rparr>))"
    and "respond r st = andThen (send_response_byte r (comm st)) (\<lambda>s. Inr (st\<lparr>comm := s\<rparr>))"
  using assms by (simp_all add: read_buffer_def write_buffer_def respond_def)

lemma compare_registers_comm:
  "compare_registers A op uc (st\<lparr>comm := s\<rparr>) = map_sum id (\<lambda>(r, u, t). (r, u, t\<lparr>comm := s\<rparr>)) (compare_registers A op uc st)"
  by (cases "ri_is_eq A (signal_count st) (ri_master st) (ri_apprentice st)") (simp_all add: compare_registers_def Let_def split: prod.split)

lemma compare_effect_comm:
  "compare_effect A op uc (st\<lparr>comm := s\<rparr>) = map_sum id (\<lambda>(r, u, t). (r, u, t\<lparr>comm := s\<rparr>)) (compare_effect A op uc st)"
  by (simp add: compare_effect_def compare_registers_comm Let_def split: option.split)

lemma compare_registers_ok: "compare_registers A op uc st = Inr (RES_OK, uc', st') \<Longrightarrow> header_op (header st) \<noteq> OP_TESTEND"
  by (cases "ri_is_eq A (signal_count st) (ri_master st) (ri_apprentice st)") (auto simp: compare_registers_def Let_def split: if_splits)

lemma compare_effect_ok: "compare_effect A op uc st = Inr (RES_OK, uc', st') \<Longrightarrow> header_op (header st) \<noteq> OP_TESTEND"
  using compare_registers_ok [of A op uc st uc' st']
  by (cases "op \<in> {OP_COMPARE, OP_TESTEND, OP_SIGILL}") (auto simp: compare_effect_def Let_def split: if_splits)

lemma master_effect_result:
  "op_known op \<Longrightarrow> op \<noteq> OP_TESTEND \<Longrightarrow> \<exists>uc' st'. master_effect A op uc st = Inr (RES_OK, uc', st') \<and> comm st' = comm st"
  by (cases op) (auto simp: master_effect_def Let_def)

context arch_backend
begin

lemma recv_header_socket:
  assumes sock: "has_sockets A" "\<not> trace st" and op: "op_known (risuop_of A r)"
    and rx: "rx (comm st) = pkt_frame (header_bytes (host_is_big A) (record_header A uc r sz)) @ rest"
    and room: "ample (Suc (Suc m)) (plan (comm st))"
  obtains s where "recv_register_info A st = recv_payload A (st\<lparr>comm := s, header := record_header A uc r sz\<rparr>)"
    "rx s = rest" "tx s = tx (comm st)" "ample m (plan s)"
proof -
  let ?h = "record_header A uc r sz" and ?hb = "header_bytes (host_is_big A) (record_header A uc r sz)"
  have h: "header_arch_to_host ?h = ?h" "magic ?h = RISU_MAGIC" by (simp_all add: header_arch_to_host_either record_header_def)
  obtain s where s: "recv_data_pkt 16 (comm st) = Inr (RES_OK, ?hb, s)" "rx s = rest" "tx s = tx (comm st)" "ample m (plan s)"
    using recv_packet [OF rx _ _ room] by (auto simp: MEMBLOCKLEN_def)
  have "recv_register_info A st = recv_payload A (st\<lparr>comm := s, header := ?h\<rparr>)"
    using s(1) h by (simp add: recv_register_info_def socket_buffers [OF sock] Let_def)
  with that s show thesis by blast
qed

lemma answer_and_read:
  assumes sock: "has_sockets A" "\<not> trace st" and rx: "rx (comm st) = pkt_frame bs @ rest" "0 < length bs" "length bs \<le> MEMBLOCKLEN"
    and room: "ample (Suc (Suc (Suc m))) (plan (comm st))"
  obtains s1 s2 where "respond RES_OK st = Inr (st\<lparr>comm := s1\<rparr>)"
    "read_buffer A (length bs) (st\<lparr>comm := s1\<rparr>) = Inr (RES_OK, bs, st\<lparr>comm := s2\<rparr>)"
    "rx s2 = rest" "tx s2 = tx (comm st) @ [0]" "ample m (plan s2)"
proof -
  obtain s1 where s1: "send_response_byte RES_OK (comm st) = Inr s1" "rx s1 = rx (comm st)" "tx s1 = tx (comm st) @ [0]" "ample (Suc (Suc m)) (plan s1)"
    using send_reply [OF room, of RES_OK] by auto
  obtain s2 where s2: "recv_data_pkt (length bs) s1 = Inr (RES_OK, bs, s2)" "rx s2 = rest" "tx s2 = tx s1" "ample m (plan s2)"
    using recv_packet [OF _ rx(2, 3) s1(4)] s1(2) rx(1) by metis
  show thesis
    by (rule that [of s1 s2]) (use s1 s2 sock in \<open>simp_all add: socket_buffers\<close>)
qed

lemma recv_registers_socket:
  assumes sock: "has_sockets A" "\<not> trace st" and wf: "wf_ri r" "wf_ri (ri_master st)" "0 < sizeof_ri A"
    and op: "risuop_of A r \<in> {OP_COMPARE, OP_TESTEND, OP_SIGILL}"
    and rx: "rx (comm st) = pkt_frame (header_bytes (host_is_big A) (record_header A uc r (of_nat (sizeof_ri A)))) @
      pkt_frame (ri_bytes A (ri_host_to_arch A r)) @ rest"
    and room: "ample (Suc (Suc (Suc (Suc (Suc m))))) (plan (comm st))"
  obtains s where "recv_register_info A st = Inr (RES_OK, st\<lparr>header := record_header A uc r (of_nat (sizeof_ri A)), comm := s, ri_master := r\<rparr>)"
    "rx s = rest" "tx s = tx (comm st) @ [0]" "ample m (plan s)"
proof -
  let ?h = "record_header A uc r (of_nat (sizeof_ri A))"
  have known: "op_known (risuop_of A r)" using op by auto
  obtain s0 where s0: "recv_register_info A st = recv_payload A (st\<lparr>comm := s0, header := ?h\<rparr>)"
    "rx s0 = pkt_frame (ri_bytes A (ri_host_to_arch A r)) @ rest" "tx s0 = tx (comm st)" "ample (Suc (Suc (Suc m))) (plan s0)"
    using recv_header_socket [OF sock known rx room] .
  let ?st = "st\<lparr>comm := s0, header := ?h\<rparr>"
  have len: "length (ri_bytes A (ri_host_to_arch A r)) = sizeof_ri A" using wf by (intro length_enc to_arch_wf)
  obtain s1 s2 where s: "respond RES_OK ?st = Inr (?st\<lparr>comm := s1\<rparr>)"
    "read_buffer A (sizeof_ri A) (?st\<lparr>comm := s1\<rparr>) = Inr (RES_OK, ri_bytes A (ri_host_to_arch A r), ?st\<lparr>comm := s2\<rparr>)"
    "rx s2 = rest" "tx s2 = tx (comm st) @ [0]" "ample m (plan s2)"
    using answer_and_read [of ?st "ri_bytes A (ri_host_to_arch A r)" rest m] sock s0(2-4) len wf(3) size_small by auto
  have hop: "header_op ?h \<in> {OP_COMPARE, OP_TESTEND, OP_SIGILL}" using op op_of_record [OF known] by simp
  have ri: "ri_arch_to_host A (ri_of_bytes A (fill (ri_bytes A (ri_host_to_arch A r)) (ri_bytes A (ri_master st)))) = r"
    using overwrite_all wf to_arch_wf to_arch_back by simp
  have "recv_payload A ?st = Inr (RES_OK, st\<lparr>header := ?h, comm := s2, ri_master := r\<rparr>)"
    using hop s(1, 2) ri size_exact [OF wf(1)] unat_size by (simp add: recv_payload_def Let_def record_header_def)
  with s0(1) s that show thesis by metis
qed

lemma recv_memory_socket:
  assumes sock: "has_sockets A" "\<not> trace st" and len: "length (other_memblock st) = MEMBLOCKLEN" "length bs = MEMBLOCKLEN"
    and op: "risuop_of A r = OP_COMPAREMEM"
    and rx: "rx (comm st) = pkt_frame (header_bytes (host_is_big A) (record_header A uc r (of_nat MEMBLOCKLEN))) @ pkt_frame bs @ rest"
    and room: "ample (Suc (Suc (Suc (Suc (Suc m))))) (plan (comm st))"
  obtains s where "recv_register_info A st = Inr (RES_OK, st\<lparr>header := record_header A uc r (of_nat MEMBLOCKLEN), comm := s, other_memblock := bs\<rparr>)"
    "rx s = rest" "tx s = tx (comm st) @ [0]" "ample m (plan s)"
proof -
  let ?h = "record_header A uc r (of_nat MEMBLOCKLEN)"
  have known: "op_known (risuop_of A r)" using op by auto
  obtain s0 where s0: "recv_register_info A st = recv_payload A (st\<lparr>comm := s0, header := ?h\<rparr>)"
    "rx s0 = pkt_frame bs @ rest" "tx s0 = tx (comm st)" "ample (Suc (Suc (Suc m))) (plan s0)"
    using recv_header_socket [OF sock known rx room] .
  let ?st = "st\<lparr>comm := s0, header := ?h\<rparr>"
  have pos: "0 < length bs" using len(2) by (simp add: MEMBLOCKLEN_def)
  obtain s1 s2 where s: "respond RES_OK ?st = Inr (?st\<lparr>comm := s1\<rparr>)"
    "read_buffer A MEMBLOCKLEN (?st\<lparr>comm := s1\<rparr>) = Inr (RES_OK, bs, ?st\<lparr>comm := s2\<rparr>)"
    "rx s2 = rest" "tx s2 = tx (comm st) @ [0]" "ample m (plan s2)"
    using answer_and_read [of ?st bs rest m] sock s0(2-4) len pos by auto
  have h: "size ?h = of_nat MEMBLOCKLEN" "header_op ?h = OP_COMPAREMEM" using op op_of_record [OF known] by (simp_all add: record_header_def)
  have "recv_payload A ?st = Inr (RES_OK, st\<lparr>header := ?h, comm := s2, other_memblock := bs\<rparr>)"
    using h s(1, 2) len by (simp add: recv_payload_def Let_def)
  with s0(1) s that show thesis by metis
qed

lemma recv_plain_socket:
  assumes sock: "has_sockets A" "\<not> trace st"
    and op: "risuop_of A r \<in> {OP_SETMEMBLOCK, OP_GETMEMBLOCK, OP_SETUPBEGIN, OP_SETUPEND}"
    and rx: "rx (comm st) = pkt_frame (header_bytes (host_is_big A) (record_header A uc r 0)) @ rest"
    and room: "ample (Suc (Suc m)) (plan (comm st))"
  obtains s where "recv_register_info A st = Inr (RES_OK, st\<lparr>header := record_header A uc r 0, comm := s\<rparr>)"
    "rx s = rest" "tx s = tx (comm st)" "ample m (plan s)"
proof -
  let ?h = "record_header A uc r 0"
  have known: "op_known (risuop_of A r)" using op by auto
  obtain s where s: "recv_register_info A st = recv_payload A (st\<lparr>comm := s, header := ?h\<rparr>)" "rx s = rest" "tx s = tx (comm st)" "ample m (plan s)"
    using recv_header_socket [OF sock known rx room] .
  have "size ?h = 0" "header_op ?h = risuop_of A r" using op_of_record [OF known] by (simp_all add: record_header_def)
  with op have "recv_payload A (st\<lparr>comm := s, header := ?h\<rparr>) = Inr (RES_OK, st\<lparr>header := ?h, comm := s\<rparr>)" by (auto simp: recv_payload_def)
  with s that show thesis by metis
qed

text \<open>The three kinds of records, by what the master has to send.\<close>

lemma record_kinds:
  assumes "op_known (risuop_of A r)" "risuop_of A r = OP_COMPAREMEM \<longrightarrow> mb \<noteq> None"
  obtains (registers) "risuop_of A r \<in> {OP_COMPARE, OP_TESTEND, OP_SIGILL}"
      "record_size A (risuop_of A r) = of_nat (sizeof_ri A)" "record_payload A uc r mb = Some (ri_bytes A (ri_host_to_arch A r))"
  | (memory) bs where "risuop_of A r = OP_COMPAREMEM" "length bs = MEMBLOCKLEN"
      "record_size A (risuop_of A r) = of_nat MEMBLOCKLEN" "record_payload A uc r mb = Some bs"
  | (plain) "risuop_of A r \<in> {OP_SETMEMBLOCK, OP_GETMEMBLOCK, OP_SETUPBEGIN, OP_SETUPEND}"
      "record_size A (risuop_of A r) = 0" "record_payload A uc r mb = None"
proof -
  consider "risuop_of A r \<in> {OP_COMPARE, OP_TESTEND, OP_SIGILL}" | p where "risuop_of A r = OP_COMPAREMEM" "mb = Some p"
    | "risuop_of A r \<in> {OP_SETMEMBLOCK, OP_GETMEMBLOCK, OP_SETUPBEGIN, OP_SETUPEND}"
    using assms by (cases "risuop_of A r") auto
  then show thesis
  proof cases
    case 1
    then show thesis by (intro registers) (auto simp: record_size_def record_payload_def)
  next
    case (2 p)
    then show thesis
      by (intro memory [of "mem_read A uc p MEMBLOCKLEN"]) (simp_all add: mem_read_length record_size_def record_payload_def)
  next
    case 3
    then show thesis by (intro plain) (auto simp: record_size_def record_payload_def)
  qed
qed

lemma payload_of_record:
  assumes "wf_ri r" "op_known (risuop_of A r)"
  obtains rr where "payload A uc (risuop_of A r) (count_illegal (risuop_of A r) (st\<lparr>ri_master := r\<rparr>)) =
      Inr (record_size A (risuop_of A r), record_payload A uc r (memblock st), count_illegal (risuop_of A r) (st\<lparr>ri_master := r\<rparr>)\<lparr>ri_master := rr\<rparr>)"
    "risuop_of A r \<notin> {OP_COMPARE, OP_TESTEND, OP_SIGILL} \<longrightarrow> rr = r"
proof (cases "risuop_of A r \<in> {OP_COMPARE, OP_TESTEND, OP_SIGILL}")
  case True
  from registers_payload [OF assms(1) this] True that show thesis by (simp add: record_size_def record_payload_def)
next
  case False
  with assms(2) show thesis
    by (intro that [of r]; cases "risuop_of A r") (auto simp: payload_def record_size_def record_payload_def)
qed

text \<open>Six calls are enough to receive a record and answer it.\<close>

lemma recv_record:
  assumes sock: "has_sockets A" "\<not> trace st" and wf: "wf_ri r" "wf_ri (ri_master st)" "length (other_memblock st) = MEMBLOCKLEN" "0 < sizeof_ri A"
    and op: "op_known (risuop_of A r)" "risuop_of A r = OP_COMPAREMEM \<longrightarrow> mb \<noteq> None"
    and rx: "rx (comm st) = record_frames A uc r mb @ rest" and room: "ample (6 + m) (plan (comm st))"
  obtains s where "recv_register_info A st = Inr (RES_OK, (received A uc r mb st)\<lparr>comm := s\<rparr>)" "rx s = rest"
    "tx s = tx (comm st) @ (if risuop_of A r \<in> {OP_COMPARE, OP_TESTEND, OP_SIGILL, OP_COMPAREMEM} then [0] else [])" "ample (Suc m) (plan s)"
  using op
proof (cases rule: record_kinds [where uc = uc])
  have room5: "ample (Suc (Suc (Suc (Suc (Suc (Suc m)))))) (plan (comm st))" using room by (simp add: eval_nat_numeral)
  case registers
  obtain s where "recv_register_info A st = Inr (RES_OK, st\<lparr>header := record_header A uc r (of_nat (sizeof_ri A)), comm := s, ri_master := r\<rparr>)"
    "rx s = rest" "tx s = tx (comm st) @ [0]" "ample (Suc m) (plan s)"
    using recv_registers_socket [OF sock wf(1, 2, 4) registers(1) _ room5] rx registers by (auto simp: record_frames_def)
  then show thesis using that [of s] registers by (auto simp: received_def)
next
  have room5: "ample (Suc (Suc (Suc (Suc (Suc (Suc m)))))) (plan (comm st))" using room by (simp add: eval_nat_numeral)
  case (memory bs)
  obtain s where "recv_register_info A st = Inr (RES_OK, st\<lparr>header := record_header A uc r (of_nat MEMBLOCKLEN), comm := s, other_memblock := bs\<rparr>)"
    "rx s = rest" "tx s = tx (comm st) @ [0]" "ample (Suc m) (plan s)"
    using recv_memory_socket [OF sock wf(3) memory(2, 1) _ room5] rx memory by (auto simp: record_frames_def)
  then show thesis using that [of s] memory by (auto simp: received_def)
next
  have room2: "ample (Suc (Suc (Suc m))) (plan (comm st))" using room ample_mono [of 3 "3 + m"] by (simp add: eval_nat_numeral)
  case plain
  obtain s where "recv_register_info A st = Inr (RES_OK, st\<lparr>header := record_header A uc r 0, comm := s\<rparr>)"
    "rx s = rest" "tx s = tx (comm st)" "ample (Suc m) (plan s)"
    using recv_plain_socket [OF sock plain(1) _ room2] rx plain by (auto simp: record_frames_def)
  then show thesis using that [of s] plain by (auto simp: received_def)
qed

lemma received_master:
  "risuop_of A r \<in> {OP_COMPARE, OP_TESTEND, OP_SIGILL} \<Longrightarrow> ri_master (received A uc r mb st) = r"
  "op_known (risuop_of A r) \<Longrightarrow> header_op (header (received A uc r mb st)) = risuop_of A r"
  using op_of_record [of r uc] by (auto simp: received_def Let_def split: option.split)

text \<open>
  The apprentice does what its comparison says about the record it has received, and answers accordingly.
\<close>

lemma apprentice_compares:
  assumes sock: "has_sockets A" "\<not> trace st" and wf: "wf_ri r" "wf_ri (ri_master st)" "length (other_memblock st) = MEMBLOCKLEN" "0 < sizeof_ri A"
    and op: "op_known (risuop_of A r)" "risuop_of A r = OP_COMPAREMEM \<longrightarrow> mb \<noteq> None"
    and ini: "ri_init A ucA a = Inr ra" "\<not> (risuop_of A ra = OP_SIGILL \<and> is_setup st)"
    and rx: "rx (comm st) = record_frames A uc r mb @ rest" and room: "ample (6 + m) (plan (comm st))"
  shows "(\<exists>e. compare_effect A (risuop_of A ra) ucA (received A uc r mb (count_illegal (risuop_of A ra) (st\<lparr>ri_apprentice := ra\<rparr>))) = Inl e \<and>
      recv_and_compare_register_info A ucA a st = Inl e) \<or>
    (\<exists>res ucA' st' s. compare_effect A (risuop_of A ra) ucA (received A uc r mb (count_illegal (risuop_of A ra) (st\<lparr>ri_apprentice := ra\<rparr>))) = Inr (res, ucA', st') \<and>
      recv_and_compare_register_info A ucA a st = Inr (res, ucA', st'\<lparr>comm := s\<rparr>) \<and>
      rx s = rest \<and> tx s = tx (comm st) @ answers (risuop_of A r) res \<and> ample m (plan s))"
proof -
  let ?st = "count_illegal (risuop_of A ra) (st\<lparr>ri_apprentice := ra\<rparr>)"
  let ?st1 = "received A uc r mb ?st"
  have pre: "\<not> trace ?st" "wf_ri (ri_master ?st)" "length (other_memblock ?st) = MEMBLOCKLEN"
    "rx (comm ?st) = record_frames A uc r mb @ rest" "ample (6 + m) (plan (comm ?st))"
    using sock wf rx room by simp_all
  obtain s1 where s1: "recv_register_info A ?st = Inr (RES_OK, ?st1\<lparr>comm := s1\<rparr>)" "rx s1 = rest"
    "tx s1 = tx (comm ?st) @ (if risuop_of A r \<in> {OP_COMPARE, OP_TESTEND, OP_SIGILL, OP_COMPAREMEM} then [0] else [])" "ample (Suc m) (plan s1)"
    using recv_record [OF sock(1) pre(1) wf(1) pre(2, 3) wf(4) op pre(4, 5)] .
  have body: "recv_and_compare_register_info A ucA a st =
      andThen (compare_effect A (risuop_of A ra) ucA (?st1\<lparr>comm := s1\<rparr>)) (\<lambda>(res, uc, st).
        andThen (respond (if res = RES_OK then RES_OK else RES_END) st) (\<lambda>st. Inr (res, uc, st)))"
    using ini s1(1) by (auto simp: recv_and_compare_register_info_def Let_def)
  show ?thesis
  proof (cases "compare_effect A (risuop_of A ra) ucA ?st1")
    case (Inl e)
    then show ?thesis by (simp add: body compare_effect_comm)
  next
    case (Inr y)
    then obtain res ucA' st2 where eff: "compare_effect A (risuop_of A ra) ucA ?st1 = Inr (res, ucA', st2)" by (cases y) auto
    have tr: "\<not> trace st2" using compare_effect_changes [OF eff] sock(2) by simp
    obtain s where s: "send_response_byte (if res = RES_OK then RES_OK else RES_END) s1 = Inr s" "rx s = rx s1"
      "tx s = tx s1 @ [of_nat (nat_of_res (if res = RES_OK then RES_OK else RES_END))]" "ample m (plan s)"
      using send_reply [OF s1(4)] by metis
    have "recv_and_compare_register_info A ucA a st = Inr (res, ucA', st2\<lparr>comm := s\<rparr>)"
      using s(1) tr by (simp add: body compare_effect_comm eff respond_def)
    moreover have "tx s = tx (comm st) @ answers (risuop_of A r) res" using s(3) s1(3) by (simp add: answers_def)
    ultimately show ?thesis using s(2, 4) eff s1(2) by metis
  qed
qed

text \<open>The master, when it is answered this way, goes on exactly if the apprentice does.\<close>

lemma write_packet:
  assumes sock: "has_sockets A" "\<not> trace st" and "length bs \<le> MEMBLOCKLEN" "rx (comm st) = of_nat (nat_of_res q) # rest" "ample (Suc (Suc m)) (plan (comm st))"
    and "q \<in> {RES_OK, RES_END}"
  obtains s where "write_buffer A bs (length bs) st = Inr (q, st\<lparr>comm := s\<rparr>)" "rx s = rest" "tx s = tx (comm st) @ pkt_frame bs" "ample m (plan s)"
proof -
  have q: "res_of_nat (unat (of_nat (nat_of_res q) :: byte)) = q" using assms(6) by (auto simp: res_of_nat_def)
  obtain s where "send_data_pkt bs (length bs) (comm st) = Inr (q, s)" "rx s = rest" "tx s = tx (comm st) @ pkt_frame bs" "ample m (plan s)"
    using send_packet [OF assms(4, 3, 5)] q by metis
  then show thesis using that sock by (simp add: socket_buffers)
qed

lemma send_record_socket:
  assumes sock: "has_sockets A" "\<not> trace st" "\<not> swaps_header A" and known: "op_known (risuop_of A r)"
    and pay: "payload A uc (risuop_of A r) st = Inr (sz, extra, st1)" "\<forall>bs. extra = Some bs \<longrightarrow> length bs = unat sz \<and> unat sz \<le> MEMBLOCKLEN"
    and rx: "rx (comm st) = (if extra = None then [] else [0]) @ [of_nat (nat_of_res q)] @ rest" and room: "ample (4 + m) (plan (comm st))" and q: "q \<in> {RES_OK, RES_END}"
  obtains s where "rx s = rest" "ample m (plan s)" "tx s = tx (comm st) @ pkt_frame (header_bytes (host_is_big A) (record_header A uc r sz)) @ (case extra of None \<Rightarrow> [] | Some bs \<Rightarrow> pkt_frame bs)"
    "send_record A (risuop_of A r) uc (pc_of A uc r) st =
      (if q = RES_OK then master_effect A (risuop_of A r) uc (st1\<lparr>header := record_header A uc r sz, comm := s\<rparr>)
       else Inr (q, uc, st1\<lparr>header := record_header A uc r sz, comm := s\<rparr>))"
proof -
  let ?h = "record_header A uc r sz" and ?hb = "header_bytes (host_is_big A) (record_header A uc r sz)"
  obtain rr where st1: "st1 = st\<lparr>ri_master := rr\<rparr>" using payload_keeps [OF pay(1)] by blast
  let ?st = "st1\<lparr>header := ?h\<rparr>"
  have h: "header_host_to_arch A ((header st1)\<lparr>magic := RISU_MAGIC, pc := pc_of A uc r, risu_op := of_int (int_of_op (risuop_of A r)), size := sz\<rparr>) = ?h"
    by (subst header_host_to_arch_fresh) (use sock(3) in \<open>simp_all add: record_header_def\<close>)
  have room4: "ample (Suc (Suc (Suc (Suc m)))) (plan (comm ?st))" using room st1 by (simp add: eval_nat_numeral)
  show thesis
  proof (cases extra)
    case None
    obtain s where "write_buffer A ?hb (length ?hb) ?st = Inr (q, ?st\<lparr>comm := s\<rparr>)" "rx s = rest" "tx s = tx (comm st) @ pkt_frame ?hb" "ample (Suc (Suc m)) (plan s)"
      using write_packet [OF _ _ _ _ room4 q, of ?hb rest] sock rx None st1 by (auto simp: MEMBLOCKLEN_def)
    with None that ample_mono [of 2 m "plan s"] show thesis by (simp add: send_record_def pay(1) h Let_def)
  next
    case (Some bs)
    with pay(2) have len: "length bs = unat sz" "length bs \<le> MEMBLOCKLEN" by auto
    have hb: "length ?hb \<le> MEMBLOCKLEN" by (simp add: MEMBLOCKLEN_def)
    have rx1: "rx (comm ?st) = of_nat (nat_of_res RES_OK) # of_nat (nat_of_res q) # rest" using rx Some st1 by simp
    obtain s1 where s1: "write_buffer A ?hb (length ?hb) ?st = Inr (RES_OK, ?st\<lparr>comm := s1\<rparr>)" "rx s1 = of_nat (nat_of_res q) # rest"
      "tx s1 = tx (comm ?st) @ pkt_frame ?hb" "ample (Suc (Suc m)) (plan s1)"
      using write_packet [OF sock(1) _ hb rx1 room4] sock(2) st1 by auto
    obtain s2 where s2: "write_buffer A bs (unat sz) (?st\<lparr>comm := s1\<rparr>) = Inr (q, ?st\<lparr>comm := s2\<rparr>)" "rx s2 = rest" "tx s2 = tx s1 @ pkt_frame bs" "ample m (plan s2)"
      using write_packet [of "?st\<lparr>comm := s1\<rparr>" bs q rest m] sock q len s1(2, 4) st1 by auto
    have "size ?h = sz" by (simp add: record_header_def)
    with s1(1) s2(1) Some have "send_record A (risuop_of A r) uc (pc_of A uc r) st =
      (if q = RES_OK then master_effect A (risuop_of A r) uc (?st\<lparr>comm := s2\<rparr>) else Inr (q, uc, ?st\<lparr>comm := s2\<rparr>))"
      by (simp add: send_record_def pay(1) h Let_def)
    moreover have "tx s2 = tx (comm st) @ pkt_frame ?hb @ pkt_frame bs" using s1(3) s2(3) st1 by simp
    ultimately show thesis using that [of s2] s2(2, 4) Some by simp
  qed
qed

lemma master_follows:
  assumes sock: "has_sockets A" "\<not> trace st" "\<not> swaps_header A" and wf: "wf_ri r"
    and op: "op_known (risuop_of A r)" "risuop_of A r = OP_COMPAREMEM \<longrightarrow> memblock st \<noteq> None"
    and ini: "ri_init A uc a = Inr r" "\<not> (risuop_of A r = OP_SIGILL \<and> is_setup st)"
    and rx: "rx (comm st) = answers (risuop_of A r) res @ rest" and room: "ample (4 + m) (plan (comm st))"
  obtains rr s where "rx s = rest" "tx s = tx (comm st) @ record_frames A uc r (memblock st)" "ample m (plan s)"
    "risuop_of A r \<notin> {OP_COMPARE, OP_TESTEND, OP_SIGILL} \<longrightarrow> rr = r"
    "send_register_info A uc a st =
      (let st' = count_illegal (risuop_of A r) (st\<lparr>ri_master := rr, header := record_header A uc r (record_size A (risuop_of A r)), comm := s\<rparr>)
       in if res = RES_OK then master_effect A (risuop_of A r) uc st' else Inr (RES_END, uc, st'))"
proof -
  let ?st = "count_illegal (risuop_of A r) (st\<lparr>ri_master := r\<rparr>)" and ?q = "if res = RES_OK then RES_OK else RES_END"
  have sockc: "\<not> trace ?st" and roomc: "ample (4 + m) (plan (comm ?st))" and q: "?q \<in> {RES_OK, RES_END}" using sock(2) room by simp_all
  obtain rr where pay: "payload A uc (risuop_of A r) ?st = Inr (record_size A (risuop_of A r), record_payload A uc r (memblock st), ?st\<lparr>ri_master := rr\<rparr>)"
    and rr: "risuop_of A r \<notin> {OP_COMPARE, OP_TESTEND, OP_SIGILL} \<longrightarrow> rr = r"
    using payload_of_record [OF wf op(1)] .
  have "(\<forall>bs. record_payload A uc r (memblock st) = Some bs \<longrightarrow>
      length bs = unat (record_size A (risuop_of A r)) \<and> unat (record_size A (risuop_of A r)) \<le> MEMBLOCKLEN) \<and>
    (record_payload A uc r (memblock st) = None \<longleftrightarrow> risuop_of A r \<notin> {OP_COMPARE, OP_TESTEND, OP_SIGILL, OP_COMPAREMEM})"
    using op
  proof (cases rule: record_kinds [where uc = uc])
    case registers
    with wf show ?thesis by (auto simp: unat_size size_small length_enc to_arch_wf)
  qed (auto simp: MEMBLOCKLEN_def)
  then have len: "\<forall>bs. record_payload A uc r (memblock st) = Some bs \<longrightarrow>
      length bs = unat (record_size A (risuop_of A r)) \<and> unat (record_size A (risuop_of A r)) \<le> MEMBLOCKLEN"
    and rxc: "rx (comm ?st) = (if record_payload A uc r (memblock st) = None then [] else [0]) @ [of_nat (nat_of_res ?q)] @ rest"
    using rx by (auto simp: answers_def)
  obtain s where s: "rx s = rest" "ample m (plan s)" "tx s = tx (comm ?st) @ record_frames A uc r (memblock st)"
    "send_record A (risuop_of A r) uc (pc_of A uc r) ?st =
      (if ?q = RES_OK then master_effect A (risuop_of A r) uc (?st\<lparr>ri_master := rr, header := record_header A uc r (record_size A (risuop_of A r)), comm := s\<rparr>)
       else Inr (?q, uc, ?st\<lparr>ri_master := rr, header := record_header A uc r (record_size A (risuop_of A r)), comm := s\<rparr>))"
    using send_record_socket [OF sock(1) sockc sock(3) op(1) pay len rxc roomc q] unfolding record_frames_def [symmetric] .
  have "?st\<lparr>ri_master := rr, header := record_header A uc r (record_size A (risuop_of A r)), comm := s\<rparr> =
      count_illegal (risuop_of A r) (st\<lparr>ri_master := rr, header := record_header A uc r (record_size A (risuop_of A r)), comm := s\<rparr>)"
    by (simp add: count_illegal_def)
  with that [of s rr] s rr show thesis by (simp add: send_register_active [OF ini] Let_def)
qed

end

section \<open>A checkpoint over a socket\<close>

text \<open>
  C5: over a socket the two sides stay in step at every checkpoint, whatever their registers and memories are. The apprentice
  consumes exactly the frames of the master's record and answers with \<open>answers\<close>: an acknowledgement between header and
  payload, and whether it goes on. The master, given these answers, sends exactly the frames, consumes exactly the answers, and
  goes on (\<^verbatim>\<open>RES_OK\<close>) if the apprentice's comparison succeeded; otherwise it ends (\<^verbatim>\<open>RES_END\<close>). The apprentice has
  compared with the image the master has taken.
\<close>

theorem socket_checkpoint:
  assumes "platform env \<noteq> RISU_MACOS9" "lem \<noteq> get_arch_big_endian env" "\<not> trace stM" "\<not> trace stA"
    and "wf_ctx ucM" "reginfo_init env ucM aM = Inr rM" "op_known (get_risuop rM)" "reginfo_init env ucA aA = Inr rA"
    and "\<not> (get_risuop rM = OP_SIGILL \<and> is_setup stM)" "\<not> (get_risuop rA = OP_SIGILL \<and> is_setup stA)"
    and "get_risuop rM = OP_COMPAREMEM \<longrightarrow> memblock stM \<noteq> None"
    and "wf_reginfo (ri_master stA)" "length (other_memblock stA) = MEMBLOCKLEN"
    and "rx (comm stA) = record_frames (ppc_arch env opts lem) ucM rM (memblock stM) @ restA" "ample 6 (plan (comm stA))"
    and "recv_and_compare_register_info (ppc_arch env opts lem) ucA aA stA = Inr (res, ucA', stA')"
    and "rx (comm stM) = answers (get_risuop rM) res @ restM" "ample 4 (plan (comm stM))"
  shows "rx (comm stA') = restA \<and> tx (comm stA') = tx (comm stA) @ answers (get_risuop rM) res \<and>
    (get_risuop rM \<in> {OP_COMPARE, OP_TESTEND, OP_SIGILL} \<longrightarrow> ri_master stA' = rM) \<and>
    (\<exists>ucM' stM'. send_register_info (ppc_arch env opts lem) ucM aM stM = Inr (if res = RES_OK then RES_OK else RES_END, ucM', stM') \<and>
      tx (comm stM') = tx (comm stM) @ record_frames (ppc_arch env opts lem) ucM rM (memblock stM) \<and> rx (comm stM') = restM)"
proof -
  have wf: "wf_reginfo rM" using reginfo_init_cases(4) [OF assms(6, 5)] .
  from assms wf obtain st s where
    A: "compare_effect (ppc_arch env opts lem) (get_risuop rA) ucA
        (received (ppc_arch env opts lem) ucM rM (memblock stM) (count_illegal (get_risuop rA) (stA\<lparr>ri_apprentice := rA\<rparr>))) = Inr (res, ucA', st)"
      "stA' = st\<lparr>comm := s\<rparr>" "rx s = restA" "tx s = tx (comm stA) @ answers (get_risuop rM) res"
    using ppc.apprentice_compares [of env opts lem stA rM "memblock stM" ucA aA rA ucM restA 0] unfolding ppc_arch_simps by auto
  have keeps: "get_risuop rM \<in> {OP_COMPARE, OP_TESTEND, OP_SIGILL} \<longrightarrow> ri_master stA' = rM"
    using compare_effect_keeps [OF A(1)] A(2) ppc.received_master(1) [of env opts lem rM] by auto
  have ok: "res = RES_OK \<longrightarrow> get_risuop rM \<noteq> OP_TESTEND"
    using compare_effect_ok A(1) ppc.received_master(2) [of env opts lem rM] assms(7) by (metis ppc_arch_simps(15))
  have pre: "has_sockets (ppc_arch env opts lem)" "\<not> swaps_header (ppc_arch env opts lem)" "ample (4 + 0) (plan (comm stM))"
    using assms(1, 2, 18) by (simp_all add: ppc_swaps)
  obtain rr s' where M: "rx s' = restM" "tx s' = tx (comm stM) @ record_frames (ppc_arch env opts lem) ucM rM (memblock stM)"
    "send_register_info (ppc_arch env opts lem) ucM aM stM =
      (let st' = count_illegal (get_risuop rM) (stM\<lparr>ri_master := rr, header := record_header (ppc_arch env opts lem) ucM rM (record_size (ppc_arch env opts lem) (get_risuop rM)), comm := s'\<rparr>)
       in if res = RES_OK then master_effect (ppc_arch env opts lem) (get_risuop rM) ucM st' else Inr (RES_END, ucM, st'))"
    using ppc.master_follows [OF pre(1) assms(3) pre(2) wf, unfolded ppc_arch_simps, OF assms(7, 11, 6, 9, 17) pre(3)] by metis
  have "\<exists>ucM' stM'. send_register_info (ppc_arch env opts lem) ucM aM stM = Inr (if res = RES_OK then RES_OK else RES_END, ucM', stM') \<and> comm stM' = s'"
    using master_effect_result [OF assms(7)] ok unfolding M(3) Let_def by (cases "res = RES_OK") fastforce+
  with A keeps M(1, 2) show ?thesis by auto
qed

definition socket_state :: "byte list \<Rightarrow> reginfo risu" where
  "socket_state bs = (start_state [] 0)\<lparr>trace := False, comm := \<lparr>rx = bs, tx = [], errno = 0, plan = replicate 6 (Xfer (MEMBLOCKLEN + 4))\<rparr>\<rparr>"

lemma socket_state_simps [simp]:
  "\<not> trace (socket_state bs)" "\<not> is_setup (socket_state bs)" "rx (comm (socket_state bs)) = bs" "tx (comm (socket_state bs)) = []"
  "length (other_memblock (socket_state bs)) = MEMBLOCKLEN" "wf_reginfo (ri_master (socket_state bs))"
  "memblock (socket_state bs) = None"
  by (simp_all add: socket_state_def start_state_def blank_reginfo_def wf_reginfo_def risu_reg_index)

lemma socket_state_ample: "ample 6 (plan (comm (socket_state bs)))" "ample 4 (plan (comm (socket_state bs)))"
  using ample_replicate [of 6] ample_mono [of 2 4] by (simp_all add: socket_state_def)

lemma end_checkpoint_compared:
  assumes "reginfo_init sample_env end_ctx 0 = Inr r"
  shows "\<exists>st'. recv_and_compare_register_info (ppc_arch sample_env opts False) end_ctx 0
    (socket_state (record_frames (ppc_arch sample_env opts False) end_ctx r None)) = Inr (RES_END, end_ctx, st')"
proof -
  let ?A = "ppc_arch sample_env opts False"
  let ?s = "socket_state (record_frames ?A end_ctx r None)"
  let ?st = "received ?A end_ctx r None (count_illegal (get_risuop r) (?s\<lparr>ri_apprentice := r\<rparr>))"
  have op: "get_risuop r = OP_TESTEND" and wf: "wf_reginfo r" using end_op [OF assms] reginfo_init_cases(4) [OF assms wf_end_ctx] .
  have "header_op (header ?st) = OP_TESTEND" "ri_master ?st = r" "ri_apprentice ?st = r" "\<not> is_setup ?st"
    using ppc.received_master [of sample_env opts False r] op by simp_all
  then have "compare_effect ?A OP_TESTEND end_ctx ?st = Inr (RES_END, end_ctx, ?st\<lparr>ri_apprentice := r\<rparr>)"
    using ppc.eq_refl [OF wf] by (auto simp: compare_effect_def compare_registers_def Let_def)
  then show ?thesis
    using ppc.apprentice_compares [of sample_env opts False ?s r None end_ctx 0 r end_ctx "[]" 0] op wf assms socket_state_ample
    by (auto simp: sample_env_def)
qed

theorem socket_checkpoint_witness:
  "\<exists>rM stA' ucM' stM'.
     reginfo_init sample_env end_ctx 0 = Inr rM \<and>
     recv_and_compare_register_info (ppc_arch sample_env (default_opts APPLE) False) end_ctx 0
       (socket_state (record_frames (ppc_arch sample_env (default_opts APPLE) False) end_ctx rM None)) =
       Inr (RES_END, end_ctx, stA') \<and>
     tx (comm stA') = answers OP_TESTEND RES_END \<and> rx (comm stA') = [] \<and> ri_master stA' = rM \<and>
     send_register_info (ppc_arch sample_env (default_opts APPLE) False) end_ctx 0 (socket_state (answers OP_TESTEND RES_END)) = Inr (RES_END, ucM', stM') \<and>
     rx (comm stM') = []"
proof -
  let ?A = "ppc_arch sample_env (default_opts APPLE) False" and ?stM = "socket_state (answers OP_TESTEND RES_END)"
  obtain r where r: "reginfo_init sample_env end_ctx 0 = Inr r" using end_init by blast
  obtain st' where st': "recv_and_compare_register_info ?A end_ctx 0 (socket_state (record_frames ?A end_ctx r None)) = Inr (RES_END, end_ctx, st')"
    using end_checkpoint_compared [OF r] by blast
  have env: "platform sample_env \<noteq> RISU_MACOS9" "False \<noteq> get_arch_big_endian sample_env" by (simp_all add: sample_env_def get_arch_big_endian_def)
  have op: "get_risuop r = OP_TESTEND" using end_op [OF r] .
  have "tx (comm st') = answers OP_TESTEND RES_END \<and> rx (comm st') = [] \<and> ri_master st' = r \<and>
      (\<exists>ucM' stM'. send_register_info ?A end_ctx 0 ?stM = Inr (RES_END, ucM', stM') \<and> rx (comm stM') = [])"
    using socket_checkpoint [OF env _ _ wf_end_ctx r _ r _ _ _ _ _ _ socket_state_ample(1) st' _ socket_state_ample(2), where restA = "[]" and restM = "[]"]
    by (auto simp: op)
  with r st' show ?thesis by blast
qed

end
