(* ===== verification/Session_Spec.thy ===== *)
theory Session_Spec
  imports Socket_Session
begin

text \<open>
  The session as a specification: what happens at the checkpoints of an image, without registers, bytes or a second process.
  The locale \<open>session_side\<close> states that a handler implements it on one side of a transport, and shows that a run
  of such a side ends when the session does. Master and apprentice over a socket are two interpretations of it.
\<close>

section \<open>The session without its transport\<close>

text \<open>
  What a session is about, apart from registers and bytes on the wire: whether a set-up phase is on, the memory block, and the
  two counters.
\<close>

record visit_state =
  v_setup :: bool
  v_memblock :: "arch_ptr option"
  v_arch_memblock :: arch_ptr
  v_signals :: nat
  v_illegal :: nat

definition visit_state :: "'ri risu \<Rightarrow> visit_state" where
  "visit_state st =
     \<lparr>v_setup = is_setup st, v_memblock = memblock st, v_arch_memblock = arch_memblock st,
      v_signals = signal_count st, v_illegal = illegal_instructions st\<rparr>"

text \<open>
  A checkpoint: whether it is the last one, the context in which the image goes on, and the new state. There is none where the
  program would abort, where the image cannot be taken, and for a comparison of memory before a block was set.
\<close>

definition skips :: "RisuOp \<Rightarrow> visit_state \<Rightarrow> bool" where
  "skips op v \<longleftrightarrow> op = OP_SIGILL \<and> v_setup v"

definition visit :: "('uc, 'ri) arch \<Rightarrow> 'uc \<Rightarrow> arch_ptr \<Rightarrow> visit_state \<Rightarrow> (bool \<times> 'uc \<times> visit_state) option" where
  "visit A uc a v =
     (case ri_init A uc a of
        Inl e \<Rightarrow> None
      | Inr r \<Rightarrow>
          (let op = risuop_of A r;
               v = v\<lparr>v_signals := v_signals v + 1, v_illegal := v_illegal v + (if op = OP_SIGILL then 1 else 0)\<rparr>
           in case op of
                OP_COMPARE \<Rightarrow> Some (False, uc, v)
              | OP_SIGILL \<Rightarrow> Some (False, uc, v)
              | OP_TESTEND \<Rightarrow> Some (True, uc, v)
              | OP_COMPAREMEM \<Rightarrow> if v_memblock v = None then None else Some (False, uc, v)
              | OP_SETMEMBLOCK \<Rightarrow>
                  Some (False, uc, v\<lparr>v_arch_memblock := paramreg_of A r, v_memblock := arch_memory A (paramreg_of A r)\<rparr>)
              | OP_GETMEMBLOCK \<Rightarrow> Some (False, uc_set_paramreg A uc (paramreg_of A r + v_arch_memblock v), v)
              | OP_SETUPBEGIN \<Rightarrow> Some (False, uc, v\<lparr>v_setup := True\<rparr>)
              | OP_SETUPEND \<Rightarrow> Some (False, uc, v\<lparr>v_setup := False\<rparr>)
              | OP_UNKNOWN _ \<Rightarrow> None))"

text \<open>The visits of an image that runs to its end; each of them with the context, the address, the state and whether it is the last.\<close>

type_synonym 'uc visit_event = "'uc \<times> arch_ptr \<times> visit_state \<times> bool"

inductive completes ::
  "('uc, 'ri) arch \<Rightarrow> ('uc \<Rightarrow> 'uc event) \<Rightarrow> 'uc \<Rightarrow> visit_state \<Rightarrow> 'uc visit_event list \<Rightarrow> visit_state \<Rightarrow> bool"
  for A cpu where
  last: "cpu uc = Signal SIGILL a uc1 \<Longrightarrow> visit A uc1 a v = Some (True, uc2, v') \<Longrightarrow>
    completes A cpu uc v [(uc1, a, v, True)] v'"
| more: "cpu uc = Signal SIGILL a uc1 \<Longrightarrow> visit A uc1 a v = Some (False, uc2, v1) \<Longrightarrow>
    completes A cpu (uc_advance A uc2) v1 tr v' \<Longrightarrow> completes A cpu uc v ((uc1, a, v, False) # tr) v'"

text \<open>What the master says at a visit, and what the apprentice answers.\<close>

definition says :: "('uc, 'ri) arch \<Rightarrow> 'uc visit_event \<Rightarrow> byte list" where
  "says A e =
     (case e of (uc, a, v, fin) \<Rightarrow>
       (case ri_init A uc a of
          Inl _ \<Rightarrow> []
        | Inr r \<Rightarrow> if skips (risuop_of A r) v then [] else record_frames A uc r (v_memblock v)))"

definition replies :: "('uc, 'ri) arch \<Rightarrow> 'uc visit_event \<Rightarrow> byte list" where
  "replies A e =
     (case e of (uc, a, v, fin) \<Rightarrow>
       (case ri_init A uc a of
          Inl _ \<Rightarrow> []
        | Inr r \<Rightarrow> if skips (risuop_of A r) v then [] else answers (risuop_of A r) (if fin then RES_END else RES_OK)))"

lemma visit_cases:
  assumes "visit A uc a v = Some (fin, uc', v')"
  obtains r where "ri_init A uc a = Inr r" "op_known (risuop_of A r)" "risuop_of A r = OP_COMPAREMEM \<longrightarrow> v_memblock v \<noteq> None"
    "fin \<longleftrightarrow> risuop_of A r = OP_TESTEND"
  using assms by (auto simp: visit_def Let_def split: sum.splits RisuOp.splits if_splits)

lemma visit_state_simps [simp]:
  "v_setup (visit_state st) = is_setup st" "v_memblock (visit_state st) = memblock st" "v_arch_memblock (visit_state st) = arch_memblock st"
  "v_signals (visit_state st) = signal_count st" "v_illegal (visit_state st) = illegal_instructions st"
  "visit_state (st\<lparr>ri_master := r\<rparr>) = visit_state st" "visit_state (st\<lparr>ri_apprentice := r\<rparr>) = visit_state st"
  "visit_state (st\<lparr>header := h\<rparr>) = visit_state st" "visit_state (st\<lparr>comm := s\<rparr>) = visit_state st"
  "visit_state (st\<lparr>signal_pc := p\<rparr>) = visit_state st" "visit_state (received A uc q mb st) = visit_state st"
  by (simp_all add: visit_state_def)

text \<open>The second \<^verbatim>\<open>switch\<close> of the master is the visit of the session.\<close>

lemma master_effect_visit:
  assumes "visit A uc a (visit_state st) = Some (False, uc', v')" "ri_init A uc a = Inr r" "\<not> skips (risuop_of A r) (visit_state st)"
    and "risuop_of A r \<notin> {OP_COMPARE, OP_TESTEND, OP_SIGILL} \<longrightarrow> rr = r"
  shows "\<exists>st'. master_effect A (risuop_of A r) uc (count_illegal (risuop_of A r) (st\<lparr>signal_count := signal_count st + 1, ri_master := rr, header := h, comm := s\<rparr>)) =
      Inr (RES_OK, uc', st') \<and> visit_state st' = v' \<and> trace st' = trace st \<and> comm st' = s"
  using assms by (cases "risuop_of A r") (auto simp: visit_def master_effect_def count_illegal_def visit_state_def Let_def split: if_splits)

context arch_backend
begin

lemma master_serves:
  assumes v: "visit A uc a (visit_state st) = Some (fin, uc', v')" and wf: "wf_uc uc" and sock: "has_sockets A" "\<not> trace st" "\<not> swaps_header A"
    and rx: "rx (comm st) = replies A (uc, a, visit_state st, fin) @ rest" and room: "ample (4 + m) (plan (comm st))"
  shows "\<exists>st'. master_sigill A SIGILL a uc st = Inr (if fin then Longjmp RES_END else Resume (uc_advance A uc'), st') \<and>
    visit_state st' = v' \<and> \<not> trace st' \<and> rx (comm st') = rest \<and> tx (comm st') = tx (comm st) @ says A (uc, a, visit_state st, fin) \<and>
    ample m (plan (comm st'))"
proof -
  obtain r where r: "ri_init A uc a = Inr r" "op_known (risuop_of A r)" "risuop_of A r = OP_COMPAREMEM \<longrightarrow> memblock st \<noteq> None"
    "fin \<longleftrightarrow> risuop_of A r = OP_TESTEND" using visit_cases [OF v] by auto
  let ?st = "st\<lparr>signal_count := signal_count st + 1\<rparr>"
  show ?thesis
  proof (cases "skips (risuop_of A r) (visit_state st)")
    case True
    then have "send_register_info A uc a ?st = Inr (RES_OK, uc, count_illegal (risuop_of A r) (?st\<lparr>ri_master := r\<rparr>))"
      using send_skips_setup [OF r(1), of ?st] by (simp add: skips_def)
    with True v r rx room sock(2) ample_mono [of 4 m] show ?thesis
      by (auto simp: master_sigill_def leave_handler_def visit_def skips_def says_def replies_def count_illegal_def visit_state_def Let_def)
  next
    case False
    then have act: "\<not> (risuop_of A r = OP_SIGILL \<and> is_setup ?st)" by (simp add: skips_def)
    have pre: "\<not> trace ?st" "risuop_of A r = OP_COMPAREMEM \<longrightarrow> memblock ?st \<noteq> None" "ample (4 + m) (plan (comm ?st))"
      "rx (comm ?st) = answers (risuop_of A r) (if fin then RES_END else RES_OK) @ rest"
      using sock(2) r rx room False by (simp_all add: replies_def)
    obtain rr s where s: "rx s = rest" "tx s = tx (comm ?st) @ record_frames A uc r (memblock ?st)" "ample m (plan s)"
      "risuop_of A r \<notin> {OP_COMPARE, OP_TESTEND, OP_SIGILL} \<longrightarrow> rr = r"
      "send_register_info A uc a ?st =
        (let st' = count_illegal (risuop_of A r) (?st\<lparr>ri_master := rr, header := record_header A uc r (record_size A (risuop_of A r)), comm := s\<rparr>)
         in if (if fin then RES_END else RES_OK) = RES_OK then master_effect A (risuop_of A r) uc st' else Inr (RES_END, uc, st'))"
      using master_follows [OF sock(1) pre(1) sock(3) init_wf [OF wf r(1)] r(2) pre(2) r(1) act pre(4, 3)] .
    have out: "says A (uc, a, visit_state st, fin) = record_frames A uc r (memblock st)" using r(1) False by (simp add: says_def)
    show ?thesis
    proof (cases fin)
      case True
      with s(5) have "send_register_info A uc a ?st = Inr (RES_END, uc, count_illegal (risuop_of A r) (?st\<lparr>ri_master := rr, header := record_header A uc r (record_size A (risuop_of A r)), comm := s\<rparr>))"
        by simp
      with True v r s sock(2) out show ?thesis
        by (auto simp: master_sigill_def leave_handler_def visit_def count_illegal_def visit_state_def Let_def)
    next
      case False
      then have "visit A uc a (visit_state st) = Some (False, uc', v')" using v by simp
      from master_effect_visit [OF this r(1) \<open>\<not> skips _ _\<close> s(4)]
      obtain st' where "master_effect A (risuop_of A r) uc
          (count_illegal (risuop_of A r) (?st\<lparr>ri_master := rr, header := record_header A uc r (record_size A (risuop_of A r)), comm := s\<rparr>)) = Inr (RES_OK, uc', st')"
        "visit_state st' = v'" "trace st' = trace st" "comm st' = s" by auto
      with False s sock(2) out show ?thesis by (simp add: master_sigill_def leave_handler_def Let_def)
    qed
  qed
qed

text \<open>The comparison of an image with itself is the visit of the session.\<close>

lemma compare_registers_visit:
  assumes wf: "wf_ri r" and up: "ri_update A r uc = uc" and hop: "header_op (header st) = op" and op: "op \<in> {OP_COMPARE, OP_TESTEND, OP_SIGILL}"
    and m: "ri_master st = r" "ri_apprentice st = r"
  shows "compare_effect A op uc st = Inr (if op = OP_TESTEND then RES_END else RES_OK, uc, st)"
proof -
  have "(if is_setup st then Inr (True, st) else andThen (ri_is_eq A (signal_count st) (ri_master st) (ri_apprentice st)) (\<lambda>(eq, a). Inr (eq, st\<lparr>ri_apprentice := a\<rparr>))) =
      (Inr (True, st) :: fault + _)" using eq_refl [OF wf] m by simp
  then have "compare_registers A op uc st = Inr (if op = OP_TESTEND then RES_END else RES_OK, uc, st)"
    using op up hop m by (auto simp: compare_registers_def Let_def)
  then show ?thesis using op by (simp add: compare_effect_def)
qed

lemma compare_effect_visit:
  assumes v: "visit A uc a (visit_state st) = Some (fin, uc', v')" and r: "ri_init A uc a = Inr r" and wf: "wf_uc uc"
    and st: "wf_ri (ri_master st)" "length (other_memblock st) = MEMBLOCKLEN"
  shows "\<exists>st'. compare_effect A (risuop_of A r) uc
      (received A uc r (memblock st) (count_illegal (risuop_of A r) (st\<lparr>signal_count := signal_count st + 1, ri_apprentice := r\<rparr>))) =
      Inr (if fin then RES_END else RES_OK, uc', st') \<and>
    visit_state st' = v' \<and> trace st' = trace st \<and> wf_ri (ri_master st') \<and> length (other_memblock st') = MEMBLOCKLEN"
proof -
  let ?op = "risuop_of A r"
  let ?st = "received A uc r (memblock st) (count_illegal ?op (st\<lparr>signal_count := signal_count st + 1, ri_apprentice := r\<rparr>))"
  have known: "op_known ?op" and mb: "?op = OP_COMPAREMEM \<longrightarrow> memblock st \<noteq> None" and fin: "fin \<longleftrightarrow> ?op = OP_TESTEND" using visit_cases [OF v] r by auto
  note hop = received_master(2) [OF known]
  have wr: "wf_ri r" using init_wf [OF wf r] .
  show ?thesis
    using known mb
  proof (cases rule: record_kinds [where uc = uc])
    case registers
    have "compare_effect A ?op uc ?st = Inr (if ?op = OP_TESTEND then RES_END else RES_OK, uc, ?st)"
      using compare_registers_visit [OF wr update_restores [OF wf r] hop registers(1)] received_master(1) [OF registers(1)] by simp
    with registers v r fin wr st show ?thesis
      by (auto simp: visit_def received_def count_illegal_def visit_state_def Let_def)
  next
    case (memory bs)
    then obtain p where p: "memblock st = Some p" "mem_read A uc p MEMBLOCKLEN = bs" by (auto simp: record_payload_def)
    have "other_memblock ?st = bs" using memory by (simp add: received_def Let_def)
    then have "compare_effect A ?op uc ?st = Inr (RES_OK, uc, ?st)" using memory(1) hop p by (simp add: compare_effect_def Let_def)
    with memory v r fin st show ?thesis
      by (auto simp: visit_def received_def count_illegal_def visit_state_def Let_def split: if_splits)
  next
    case plain
    with v r fin st hop [of uc "memblock st" "count_illegal ?op (st\<lparr>signal_count := signal_count st + 1, ri_apprentice := r\<rparr>)"] show ?thesis
      by (cases ?op) (auto simp: compare_effect_def visit_def count_illegal_def visit_state_def received_def Let_def)
  qed
qed

lemma apprentice_serves:
  assumes v: "visit A uc a (visit_state st) = Some (fin, uc', v')" and wf: "wf_uc uc" and sock: "has_sockets A" "\<not> trace st" "0 < sizeof_ri A"
    and st: "wf_ri (ri_master st)" "length (other_memblock st) = MEMBLOCKLEN"
    and rx: "rx (comm st) = says A (uc, a, visit_state st, fin) @ rest" and room: "ample (6 + m) (plan (comm st))"
  shows "\<exists>st'. apprentice_sigill A SIGILL a uc st = Inr (if fin then Longjmp RES_END else Resume (uc_advance A uc'), st') \<and>
    visit_state st' = v' \<and> \<not> trace st' \<and> wf_ri (ri_master st') \<and> length (other_memblock st') = MEMBLOCKLEN \<and>
    rx (comm st') = rest \<and> tx (comm st') = tx (comm st) @ replies A (uc, a, visit_state st, fin) \<and> ample m (plan (comm st'))"
proof -
  obtain r where r: "ri_init A uc a = Inr r" "op_known (risuop_of A r)" "risuop_of A r = OP_COMPAREMEM \<longrightarrow> memblock st \<noteq> None"
    "fin \<longleftrightarrow> risuop_of A r = OP_TESTEND" using visit_cases [OF v] by auto
  let ?st = "st\<lparr>signal_count := signal_count st + 1\<rparr>"
  show ?thesis
  proof (cases "skips (risuop_of A r) (visit_state st)")
    case True
    then have "recv_and_compare_register_info A uc a ?st = Inr (RES_OK, uc, count_illegal (risuop_of A r) (?st\<lparr>ri_apprentice := r\<rparr>))"
      using recv_skips_setup [OF r(1), of ?st] by (simp add: skips_def)
    with True v r rx room sock(2) st ample_mono [of 6 m] show ?thesis
      by (auto simp: apprentice_sigill_def leave_handler_def visit_def skips_def says_def replies_def count_illegal_def visit_state_def Let_def)
  next
    case False
    then have act: "\<not> (risuop_of A r = OP_SIGILL \<and> is_setup ?st)" by (simp add: skips_def)
    have pre: "\<not> trace ?st" "wf_ri (ri_master ?st)" "length (other_memblock ?st) = MEMBLOCKLEN" "ample (6 + m) (plan (comm ?st))"
      "rx (comm ?st) = record_frames A uc r (memblock st) @ rest"
      using sock(2) st r rx room False by (simp_all add: says_def)
    have out: "replies A (uc, a, visit_state st, fin) = answers (risuop_of A r) (if fin then RES_END else RES_OK)" using r(1) False by (simp add: replies_def)
    obtain st1 where st1: "compare_effect A (risuop_of A r) uc
        (received A uc r (memblock st) (count_illegal (risuop_of A r) (?st\<lparr>ri_apprentice := r\<rparr>))) = Inr (if fin then RES_END else RES_OK, uc', st1)"
      "visit_state st1 = v'" "trace st1 = trace st" "wf_ri (ri_master st1)" "length (other_memblock st1) = MEMBLOCKLEN"
      using compare_effect_visit [OF v r(1) wf st] by auto
    obtain s where s: "recv_and_compare_register_info A uc a ?st = Inr (if fin then RES_END else RES_OK, uc', st1\<lparr>comm := s\<rparr>)" "rx s = rest"
      "tx s = tx (comm ?st) @ answers (risuop_of A r) (if fin then RES_END else RES_OK)" "ample m (plan s)"
      using apprentice_compares [OF sock(1) pre(1) init_wf [OF wf r(1)] pre(2, 3) sock(3) r(2, 3) r(1) act pre(5, 4)] st1(1) by auto
    have "apprentice_sigill A SIGILL a uc st = Inr (if fin then Longjmp RES_END else Resume (uc_advance A uc'),
        if fin then st1\<lparr>comm := s, signal_pc := uc_pc_of A uc' a\<rparr> else st1\<lparr>comm := s\<rparr>)"
      using s(1) by (simp add: apprentice_sigill_def leave_handler_def)
    with s st1 sock(2) out show ?thesis by auto
  qed
qed

end

section \<open>The contract of a side\<close>

text \<open>
  A side of a session: at every visit its handler consumes what the other side says, says its own part, and follows the session.
\<close>

locale session_side = arch_backend A wf_ri wf_uc
  for A :: "('uc, 'ri) arch" and wf_ri :: "'ri \<Rightarrow> bool" and wf_uc :: "'uc \<Rightarrow> bool" +
  fixes handle :: "('uc, 'ri) handler"
    and inv :: "'ri risu \<Rightarrow> bool"
    and hears :: "'uc visit_event \<Rightarrow> byte list"
    and tells :: "'uc visit_event \<Rightarrow> byte list"
    and calls :: nat
  assumes serves: "visit A uc a (visit_state st) = Some (fin, uc', v') \<Longrightarrow> wf_uc uc \<Longrightarrow> inv st \<Longrightarrow>
    rx (comm st) = hears (uc, a, visit_state st, fin) @ rest \<Longrightarrow> ample (calls + m) (plan (comm st)) \<Longrightarrow>
    \<exists>st'. handle SIGILL a uc st = Inr (if fin then Longjmp RES_END else Resume (uc_advance A uc'), st') \<and>
      visit_state st' = v' \<and> inv st' \<and> rx (comm st') = rest \<and> tx (comm st') = tx (comm st) @ tells (uc, a, visit_state st, fin) \<and>
      ample m (plan (comm st'))"
begin

lemma visit_wf: "visit A uc a v = Some (fin, uc', v') \<Longrightarrow> wf_uc uc \<Longrightarrow> wf_uc uc'"
  by (auto simp: visit_def Let_def paramreg_wf split: sum.splits RisuOp.splits if_splits)

theorem session_ends:
  assumes "completes A cpu uc v tr v'" and cpu: "\<And>u sig a u'. wf_uc u \<Longrightarrow> cpu u = Signal sig a u' \<Longrightarrow> wf_uc u'" and "wf_uc uc"
    and "inv st" "visit_state st = v" "rx (comm st) = concat (map hears tr) @ rest" "ample (calls * length tr) (plan (comm st))"
  shows "\<exists>st'. runs handle cpu (Running uc st) (Stopped RES_END st') \<and> visit_state st' = v' \<and> rx (comm st') = rest \<and>
    tx (comm st') = tx (comm st) @ concat (map tells tr)"
  using assms(1, 3-)
proof (induction arbitrary: st rule: completes.induct)
  case (last uc a uc1 v uc2 v')
  have "wf_uc uc1" using cpu last by blast
  with last serves [of uc1 a st True uc2 v' rest 0] obtain st' where
    st': "handle SIGILL a uc1 st = Inr (Longjmp RES_END, st')" "visit_state st' = v'" "rx (comm st') = rest"
      "tx (comm st') = tx (comm st) @ tells (uc1, a, v, True)" by auto
  have "step handle cpu (Running uc st) (Stopped RES_END st')" using step.jumped [of cpu uc SIGILL a uc1 handle st RES_END st'] last(1) st'(1) by simp
  with st' show ?case by (intro exI [of _ st']) auto
next
  case (more uc a uc1 v uc2 v1 tr v')
  have wf1: "wf_uc uc1" using cpu more by blast
  have wf2: "wf_uc (uc_advance A uc2)" using visit_wf [OF more(2) wf1] by (rule advance_wf)
  have "ample (calls + calls * length tr) (plan (comm st))" using more.prems by simp
  with more wf1 serves [of uc1 a st False uc2 v1 "concat (map hears tr) @ rest" "calls * length tr"] obtain st1 where
    st1: "handle SIGILL a uc1 st = Inr (Resume (uc_advance A uc2), st1)" "visit_state st1 = v1" "inv st1" "rx (comm st1) = concat (map hears tr) @ rest"
      "tx (comm st1) = tx (comm st) @ tells (uc1, a, v, False)" "ample (calls * length tr) (plan (comm st1))" by auto
  have step: "step handle cpu (Running uc st) (Running (uc_advance A uc2) st1)"
    using step.resumed [of cpu uc SIGILL a uc1 handle st "uc_advance A uc2" st1] more(1) st1(1) by simp
  obtain st' where "runs handle cpu (Running (uc_advance A uc2) st1) (Stopped RES_END st')" "visit_state st' = v'" "rx (comm st') = rest"
    "tx (comm st') = tx (comm st1) @ concat (map tells tr)"
    using more.IH [OF wf2 st1(3, 2, 4, 6)] by blast
  with step st1(5) show ?case by (intro exI [of _ st']) (auto intro: converse_rtranclp_into_rtranclp)
qed

end

text \<open>Over a socket the handlers of the PowerPC build are such sides, and each hears what the other one tells.\<close>

definition socket_master :: "('uc, 'ri) arch \<Rightarrow> 'ri risu \<Rightarrow> bool" where
  "socket_master A st \<longleftrightarrow> has_sockets A \<and> \<not> swaps_header A \<and> \<not> trace st"

definition socket_apprentice :: "('uc, 'ri) arch \<Rightarrow> ('ri \<Rightarrow> bool) \<Rightarrow> 'ri risu \<Rightarrow> bool" where
  "socket_apprentice A wf_ri st \<longleftrightarrow> has_sockets A \<and> \<not> trace st \<and> wf_ri (ri_master st) \<and> length (other_memblock st) = MEMBLOCKLEN"

interpretation ppc_master: session_side "ppc_arch env opts lem" wf_reginfo wf_ctx
    "master_sigill (ppc_arch env opts lem)" "socket_master (ppc_arch env opts lem)" "replies (ppc_arch env opts lem)" "says (ppc_arch env opts lem)" 4
  for env opts lem
  by unfold_locales (use ppc.master_serves in \<open>auto simp: socket_master_def\<close>)

interpretation ppc_apprentice: session_side "ppc_arch env opts lem" wf_reginfo wf_ctx
    "apprentice_sigill (ppc_arch env opts lem)" "socket_apprentice (ppc_arch env opts lem) wf_reginfo" "says (ppc_arch env opts lem)" "replies (ppc_arch env opts lem)" 6
  for env opts lem
  by unfold_locales (use ppc.apprentice_serves in \<open>auto simp: socket_apprentice_def\<close>)

section \<open>A session over a socket\<close>

text \<open>
  C6: a session over a socket implements the session without its transport. If the image, run on some processor, comes to its
  end after the visits \<open>tr\<close>, then a master on this processor that is given the apprentice's replies and an apprentice
  on the same processor that is given what the master says both return \<^verbatim>\<open>RES_END\<close>, having consumed exactly what the other
  has sent. Both have then seen the same signals and illegal instructions, so that they print the same statistics. Four
  system calls for each visit are enough for the master and six for the apprentice.
\<close>

theorem socket_session:
  assumes "completes (ppc_arch env opts lem) cpu uc v tr v'" and "\<And>u sig a u'. wf_ctx u \<Longrightarrow> cpu u = Signal sig a u' \<Longrightarrow> wf_ctx u'" and "wf_ctx uc"
    and "platform env \<noteq> RISU_MACOS9" "lem \<noteq> get_arch_big_endian env" "\<not> trace stM" "\<not> trace stA"
    and "wf_reginfo (ri_master stA)" "length (other_memblock stA) = MEMBLOCKLEN" "visit_state stM = v" "visit_state stA = v"
    and "rx (comm stM) = concat (map (replies (ppc_arch env opts lem)) tr) @ restM" "ample (4 * length tr) (plan (comm stM))"
    and "rx (comm stA) = concat (map (says (ppc_arch env opts lem)) tr) @ restA" "ample (6 * length tr) (plan (comm stA))"
  shows "\<exists>stM' stA'.
    runs (master_sigill (ppc_arch env opts lem)) cpu (Running uc stM) (Stopped RES_END stM') \<and>
    tx (comm stM') = tx (comm stM) @ concat (map (says (ppc_arch env opts lem)) tr) \<and> rx (comm stM') = restM \<and> visit_state stM' = v' \<and>
    runs (apprentice_sigill (ppc_arch env opts lem)) cpu (Running uc stA) (Stopped RES_END stA') \<and>
    tx (comm stA') = tx (comm stA) @ concat (map (replies (ppc_arch env opts lem)) tr) \<and> rx (comm stA') = restA \<and> visit_state stA' = v' \<and>
    print_stats stM' = print_stats stA'"
proof -
  have M: "socket_master (ppc_arch env opts lem) stM" and A: "socket_apprentice (ppc_arch env opts lem) wf_reginfo stA"
    using assms(4-9) by (simp_all add: socket_master_def socket_apprentice_def ppc_swaps)
  obtain stM' where "runs (master_sigill (ppc_arch env opts lem)) cpu (Running uc stM) (Stopped RES_END stM')" "visit_state stM' = v'"
    "rx (comm stM') = restM" "tx (comm stM') = tx (comm stM) @ concat (map (says (ppc_arch env opts lem)) tr)"
    using ppc_master.session_ends [OF assms(1) _ assms(3) M assms(10, 12, 13)] assms(2) by blast
  moreover obtain stA' where "runs (apprentice_sigill (ppc_arch env opts lem)) cpu (Running uc stA) (Stopped RES_END stA')" "visit_state stA' = v'"
    "rx (comm stA') = restA" "tx (comm stA') = tx (comm stA) @ concat (map (replies (ppc_arch env opts lem)) tr)"
    using ppc_apprentice.session_ends [OF assms(1) _ assms(3) A assms(11, 14, 15)] assms(2) by blast
  moreover from calculation have "print_stats stM' = print_stats stA'" by (auto simp: print_stats_def visit_state_def)
  ultimately show ?thesis by blast
qed

text \<open>The image of the examples ends at its first checkpoint.\<close>

lemma end_completes:
  "\<exists>v'. completes (ppc_arch sample_env opts lem) (\<lambda>_. Signal SIGILL 0 end_ctx) end_ctx v [(end_ctx, 0, v, True)] v'"
proof -
  obtain r where r: "reginfo_init sample_env end_ctx 0 = Inr r" using end_init by blast
  have "visit (ppc_arch sample_env opts lem) end_ctx 0 v = Some (True, end_ctx, v\<lparr>v_signals := v_signals v + 1\<rparr>)"
    using r end_op [OF r] by (simp add: visit_def)
  then show ?thesis by (intro exI completes.last) auto
qed

theorem socket_session_witness:
  "\<exists>stM stA stM' stA'.
     runs (master_sigill (ppc_arch sample_env (default_opts APPLE) False)) (\<lambda>_. Signal SIGILL 0 end_ctx) (Running end_ctx stM) (Stopped RES_END stM') \<and>
     runs (apprentice_sigill (ppc_arch sample_env (default_opts APPLE) False)) (\<lambda>_. Signal SIGILL 0 end_ctx) (Running end_ctx stA) (Stopped RES_END stA') \<and>
     tx (comm stM') = rx (comm stA) \<and> tx (comm stA') = rx (comm stM) \<and> print_stats stM' = print_stats stA'"
proof -
  let ?A = "ppc_arch sample_env (default_opts APPLE) False" and ?v = "visit_state (socket_state [])"
  let ?tr = "[(end_ctx, 0, ?v, True)]"
  let ?stM = "socket_state (concat (map (replies ?A) ?tr))" and ?stA = "socket_state (concat (map (says ?A) ?tr))"
  obtain v' where c: "completes ?A (\<lambda>_. Signal SIGILL 0 end_ctx) end_ctx ?v ?tr v'" using end_completes by blast
  have v: "visit_state ?stM = ?v" "visit_state ?stA = ?v" by (simp_all add: socket_state_def)
  have ok: "platform sample_env \<noteq> RISU_MACOS9" "False \<noteq> get_arch_big_endian sample_env" "ample (4 * length ?tr) (plan (comm ?stM))" "ample (6 * length ?tr) (plan (comm ?stA))"
    using socket_state_ample by (simp_all add: sample_env_def get_arch_big_endian_def)
  from socket_session [OF c _ wf_end_ctx ok(1, 2) _ _ _ _ v _ ok(3) _ ok(4), where restM = "[]" and restA = "[]"] wf_end_ctx
  have "\<exists>stM' stA'. runs (master_sigill ?A) (\<lambda>_. Signal SIGILL 0 end_ctx) (Running end_ctx ?stM) (Stopped RES_END stM') \<and>
      runs (apprentice_sigill ?A) (\<lambda>_. Signal SIGILL 0 end_ctx) (Running end_ctx ?stA) (Stopped RES_END stA') \<and>
      tx (comm stM') = rx (comm ?stA) \<and> tx (comm stA') = rx (comm ?stM) \<and> print_stats stM' = print_stats stA'" by auto
  then show ?thesis by blast
qed

end
