(* ===== verification/PPC_Stack.thy ===== *)
theory PPC_Stack
  imports Session_Spec
begin

text \<open>
  The PowerPC build with \<^verbatim>\<open>SAVESTACK\<close>: the register image also carries the 256 bytes around the stack pointer, which travel with
  it and are not compared. It is a second instance of the interface of the harness, so that the session behaves as it does
  without the stack.
\<close>

record reginfo_stack = reginfo +
  stack :: "byte list"

definition with_stack :: "reginfo \<Rightarrow> byte list \<Rightarrow> reginfo_stack" where
  "with_stack ri bs = reginfo.extend ri \<lparr>stack = bs\<rparr>"

definition plain :: "reginfo_stack \<Rightarrow> reginfo" where
  "plain ri = reginfo.truncate ri"

lemma with_stack_simps [simp]:
  "plain (with_stack ri bs) = ri" "stack (with_stack ri bs) = bs" "with_stack (plain r) (stack r) = r"
  by (simp_all add: plain_def with_stack_def reginfo.defs reginfo_stack.defs)

definition ss_reginfo_init :: "ppc_env \<Rightarrow> ppc_ctx \<Rightarrow> u32 \<Rightarrow> fault + reginfo_stack" where
  "ss_reginfo_init env uc siaddr =
     andThen (reginfo_init env uc siaddr) (\<lambda>ri.
       case get_arch_memory env (gregs ri ! 1) of
         None \<Rightarrow> Inl Out_Of_Bounds
       | Some r1_ptr \<Rightarrow> Inr (with_stack ri (read_mem uc (r1_ptr - 256 div 2) 256)))"

definition ss_reginfo_bytes :: "bool \<Rightarrow> reginfo_stack \<Rightarrow> byte list" where
  "ss_reginfo_bytes big ri = reginfo_bytes big (plain ri) @ stack ri"

definition ss_reginfo_of_bytes :: "bool \<Rightarrow> byte list \<Rightarrow> reginfo_stack" where
  "ss_reginfo_of_bytes big bs = with_stack (reginfo_of_bytes big (take 444 bs)) (drop 444 bs)"

definition ss_wf :: "reginfo_stack \<Rightarrow> bool" where
  "ss_wf ri \<longleftrightarrow> wf_reginfo (plain ri) \<and> length (stack ri) = 256"

text \<open>The other functions work on the part that the plain build has as well.\<close>

definition ss_lift :: "(reginfo \<Rightarrow> reginfo) \<Rightarrow> reginfo_stack \<Rightarrow> reginfo_stack" where
  "ss_lift f ri = with_stack (f (plain ri)) (stack ri)"

definition ss_reginfo_is_eq :: "ppc_opts \<Rightarrow> nat \<Rightarrow> reginfo_stack \<Rightarrow> reginfo_stack \<Rightarrow> fault + bool \<times> reginfo_stack" where
  "ss_reginfo_is_eq opts n m a =
     andThen (reginfo_is_eq opts n (plain m) (plain a)) (\<lambda>(eq, b). Inr (eq, with_stack b (stack a)))"

definition ppc_stack_arch :: "ppc_env \<Rightarrow> ppc_opts \<Rightarrow> bool \<Rightarrow> (ppc_ctx, reginfo_stack) arch" where
  "ppc_stack_arch env opts lem =
     \<lparr>little_endian_macro = lem, host_is_big = host_big_endian env, has_sockets = (platform env \<noteq> RISU_MACOS9),
      big_endian = get_arch_big_endian env, start_address = get_arch_start_address env,
      ri_init = ss_reginfo_init env, ri_update = (\<lambda>ri. reginfo_update opts (plain ri)), ri_is_eq = ss_reginfo_is_eq opts,
      ri_size = (\<lambda>_. 700), sizeof_ri = 700,
      ri_bytes = ss_reginfo_bytes (host_big_endian env), ri_of_bytes = ss_reginfo_of_bytes (host_big_endian env),
      ri_host_to_arch = ss_lift (reginfo_host_to_arch env), ri_arch_to_host = ss_lift (reginfo_arch_to_host env),
      risuop_of = (\<lambda>ri. get_risuop (plain ri)), pc_of = (\<lambda>uc ri. get_pc env uc (plain ri)),
      paramreg_of = (\<lambda>ri. get_reginfo_paramreg (plain ri)),
      uc_pc_of = get_uc_pc, uc_set_paramreg = set_ucontext_paramreg, uc_advance = advance_pc env,
      arch_memory = get_arch_memory env, mem_read = read_mem,
      ri_dump = (\<lambda>ri. reginfo_dump (platform env) (plain ri)),
      ri_dump_mismatch = (\<lambda>m a. reginfo_dump_mismatch opts (plain m) (plain a))\<rparr>"

lemma ss_init_plain:
  "ss_reginfo_init env uc a = Inr ri \<Longrightarrow> reginfo_init env uc a = Inr (plain ri) \<and> length (stack ri) = 256"
  by (auto simp: ss_reginfo_init_def read_mem_def split: option.splits)

interpretation ppc_stack: arch_backend "ppc_stack_arch env opts lem" ss_wf wf_ctx for env opts lem
proof unfold_locales
  fix uc a r
  show "wf_ctx uc \<Longrightarrow> ri_init (ppc_stack_arch env opts lem) uc a = Inr r \<Longrightarrow> ss_wf r"
    by (auto simp: ppc_stack_arch_def ss_wf_def dest!: ss_init_plain reginfo_init_cases(4))
  show "wf_ctx uc \<Longrightarrow> ri_init (ppc_stack_arch env opts lem) uc a = Inr r \<Longrightarrow> ri_update (ppc_stack_arch env opts lem) r uc = uc"
    by (auto simp: ppc_stack_arch_def reginfo_update_init dest!: ss_init_plain)
  show "ri_is_eq (ppc_stack_arch env opts lem) n r r = Inr (True, r)" for n
    by (simp add: ppc_stack_arch_def ss_reginfo_is_eq_def reginfo_is_eq_agree)
  show "ri_is_eq (ppc_stack_arch env opts lem) n m r = Inr (b, r') \<Longrightarrow>
      risuop_of (ppc_stack_arch env opts lem) r' = risuop_of (ppc_stack_arch env opts lem) r" for n m b r'
    by (auto simp: ppc_stack_arch_def ss_reginfo_is_eq_def dest: reginfo_is_eq_keeps_op)
qed (simp_all add: ppc_stack_arch_def ss_reginfo_of_bytes_def ss_reginfo_bytes_def reginfo_of_bytes_bytes ss_wf_def ss_lift_def length_reginfo_bytes MEMBLOCKLEN_def read_mem_def)

interpretation ppc_stack_master: session_side "ppc_stack_arch env opts lem" ss_wf wf_ctx
    "master_sigill (ppc_stack_arch env opts lem)" "socket_master (ppc_stack_arch env opts lem)"
    "replies (ppc_stack_arch env opts lem)" "says (ppc_stack_arch env opts lem)" 4
  for env opts lem
  by unfold_locales (use ppc_stack.master_serves in \<open>auto simp: socket_master_def\<close>)

interpretation ppc_stack_apprentice: session_side "ppc_stack_arch env opts lem" ss_wf wf_ctx
    "apprentice_sigill (ppc_stack_arch env opts lem)" "socket_apprentice (ppc_stack_arch env opts lem) ss_wf"
    "says (ppc_stack_arch env opts lem)" "replies (ppc_stack_arch env opts lem)" 6
  for env opts lem
  by unfold_locales (use ppc_stack.apprentice_serves in \<open>auto simp: socket_apprentice_def ppc_stack_arch_def\<close>)

end
