(* ===== verification/Argfile.thy ===== *)
theory Argfile
  imports Text_Output
begin

text \<open>
  The word splitter of the Mac OS 9 console (\<^verbatim>\<open>argcargv\<close> of \<^verbatim>\<open>src/risu_main.c\<close>). It takes one line of a
  NUL-terminated buffer apart into words, honouring quotes and backslash escapes: a first pass counts
  the words, a second pass copies them, unquoted and NUL-terminated, over the text they came from and
  stores a pointer to each. The model keeps the buffer as a list of characters that the second pass
  overwrites while it is still being read, pointers as offsets, and every access outside of the buffer
  or of the pointer array as an error. The reference is a lexer on immutable lists.
\<close>

section \<open>The buffer and its cursors\<close>

definition NUL :: char where "NUL = CHR 0x00"
definition dquote :: char where "dquote = CHR 0x22"
definition squote :: char where "squote = CHR 0x27"
definition backslash :: char where "backslash = CHR 0x5C"

definition is_blank :: "char \<Rightarrow> bool" where
  "is_blank c = (c = CHR 0x09 \<or> c = CHR 0x20)"

definition is_newline :: "char \<Rightarrow> bool" where
  "is_newline c = (c = CHR 0x0A \<or> c = CHR 0x0D)"

text \<open>
  \<open>text_buf\<close> is the object \<open>buf\<close> points into, \<open>src\<close> and \<open>dst\<close> are the offsets of the pointers \<open>s\<close> and \<open>d\<close>,
  \<open>argv_slots\<close> is the array allocated by \<^verbatim>\<open>calloc\<close> with \<open>None\<close> for a null pointer.
\<close>

record splitter =
  text_buf :: string
  src :: nat
  dst :: nat
  argc :: nat
  argv_slots :: "nat option list"
  printed :: "string list"

definition at_char :: "splitter \<Rightarrow> fault + char" where
  "at_char st = (if src st < length (text_buf st) then Inr (text_buf st ! src st) else Inl Out_Of_Bounds)"

definition next_src :: "splitter \<Rightarrow> splitter" where
  "next_src st = st\<lparr>src := src st + 1\<rparr>"

text \<open>\<^verbatim>\<open>if (p) *d++ = c;\<close>\<close>

definition put :: "bool \<Rightarrow> char \<Rightarrow> splitter \<Rightarrow> fault + splitter" where
  "put p c st =
     (if \<not> p then Inr st
      else if dst st < length (text_buf st)
      then Inr (st\<lparr>text_buf := (text_buf st)[dst st := c], dst := dst st + 1\<rparr>)
      else Inl Out_Of_Bounds)"

definition say :: "string \<Rightarrow> splitter \<Rightarrow> splitter" where
  "say msg st = st\<lparr>printed := printed st @ [msg]\<rparr>"

text \<open>\<^verbatim>\<open>if (p) argv[argc] = d; argc++;\<close>\<close>

definition start_word :: "bool \<Rightarrow> splitter \<Rightarrow> fault + splitter" where
  "start_word p st =
     (if \<not> p then Inr (st\<lparr>argc := argc st + 1\<rparr>)
      else if argc st < length (argv_slots st)
      then Inr (st\<lparr>argv_slots := (argv_slots st)[argc st := Some (dst st)], argc := argc st + 1\<rparr>)
      else Inl Out_Of_Bounds)"

definition missing_quote :: "char \<Rightarrow> string" where
  "missing_quote q = ''Missing terminating '' @ [q] @ '' quote'' @ nl"

definition missing_escaped :: string where
  "missing_escaped = ''Missing '' @ [backslash] @ '' quoted character'' @ nl"

definition unescape :: "char \<Rightarrow> char" where
  "unescape c =
     (if c = backslash then backslash else if c = CHR ''t'' then CHR 0x09
      else if c = CHR ''n'' then CHR 0x0A else if c = CHR ''r'' then CHR 0x0D else c)"

lemma put_keeps:
  "put p c st = Inr st' \<Longrightarrow>
     src st' = src st \<and> length (text_buf st') = length (text_buf st) \<and> argc st' = argc st \<and>
     argv_slots st' = argv_slots st \<and> printed st' = printed st"
  by (auto simp: put_def split: if_splits)

lemma next_src_simps [simp]:
  "src (next_src st) = Suc (src st)" "text_buf (next_src st) = text_buf st" "dst (next_src st) = dst st"
  "argc (next_src st) = argc st" "argv_slots (next_src st) = argv_slots st" "printed (next_src st) = printed st"
  by (simp_all add: next_src_def)

lemma say_simps [simp]:
  "src (say m st) = src st" "text_buf (say m st) = text_buf st" "dst (say m st) = dst st"
  "argc (say m st) = argc st" "argv_slots (say m st) = argv_slots st" "printed (say m st) = printed st @ [m]"
  by (simp_all add: say_def)

lemma at_char_say [simp]: "at_char (say m st) = at_char st"
  by (simp add: at_char_def)

lemma at_char_Inr: "at_char st = Inr c \<longleftrightarrow> src st < length (text_buf st) \<and> text_buf st ! src st = c"
  by (auto simp: at_char_def)

section \<open>One pass over the buffer\<close>

text \<open>\<^verbatim>\<open>while ((*s == 9) || (*s == ' ')) s++;\<close>\<close>

function skip_blanks :: "splitter \<Rightarrow> fault + splitter" where
  "skip_blanks st =
     (case at_char st of
        Inl e \<Rightarrow> Inl e
      | Inr c \<Rightarrow> if is_blank c then skip_blanks (next_src st) else Inr st)"
  by pat_completeness auto
termination
  by (relation "measure (\<lambda>st. length (text_buf st) - src st)") (auto simp: at_char_Inr)

text \<open>\<^verbatim>\<open>while (*s && *s != q) { if (p) *d++ = *s; s++; }\<close>\<close>

function copy_quoted :: "bool \<Rightarrow> char \<Rightarrow> splitter \<Rightarrow> fault + splitter" where
  "copy_quoted p q st =
     (case at_char st of
        Inl e \<Rightarrow> Inl e
      | Inr c \<Rightarrow>
          if c \<noteq> NUL \<and> c \<noteq> q
          then (case put p c st of Inl e \<Rightarrow> Inl e | Inr st1 \<Rightarrow> copy_quoted p q (next_src st1))
          else Inr st)"
  by pat_completeness auto
termination
  by (relation "measure (\<lambda>(p, q, st). length (text_buf st) - src st)") (auto simp: at_char_Inr dest!: put_keeps)

declare skip_blanks.simps [simp del] copy_quoted.simps [simp del]

lemma skip_blanks_keeps:
  "skip_blanks st = Inr st' \<Longrightarrow>
     src st \<le> src st' \<and> st' = st\<lparr>src := src st'\<rparr> \<and> (\<exists>c. at_char st' = Inr c \<and> \<not> is_blank c)"
proof (induction st rule: skip_blanks.induct)
  case (1 st)
  then obtain c where c: "at_char st = Inr c" by (cases "at_char st") (auto simp: skip_blanks.simps)
  show ?case
  proof (cases "is_blank c")
    case True
    with 1 c have "src (next_src st) \<le> src st' \<and> st' = (next_src st)\<lparr>src := src st'\<rparr> \<and> (\<exists>c. at_char st' = Inr c \<and> \<not> is_blank c)"
      by (simp add: skip_blanks.simps [of st])
    then show ?thesis by (auto simp: next_src_def)
  next
    case False
    with 1(2) c show ?thesis by (auto simp: skip_blanks.simps)
  qed
qed

lemma skip_blanks_text: "skip_blanks st = Inr st' \<Longrightarrow> text_buf st' = text_buf st"
  by (drule skip_blanks_keeps) (metis select_convs(1) surjective update_convs(2))

lemma copy_quoted_keeps:
  "copy_quoted p q st = Inr st' \<Longrightarrow>
     src st \<le> src st' \<and> length (text_buf st') = length (text_buf st) \<and> (\<exists>c. at_char st' = Inr c \<and> (c = NUL \<or> c = q))"
proof (induction p q st rule: copy_quoted.induct)
  case (1 p q st)
  then obtain c where c: "at_char st = Inr c" by (cases "at_char st") (auto simp: copy_quoted.simps)
  show ?case
  proof (cases "c \<noteq> NUL \<and> c \<noteq> q")
    case True
    with 1(2) c obtain st1 where s1: "put p c st = Inr st1" "copy_quoted p q (next_src st1) = Inr st'"
      by (cases "put p c st") (auto simp: copy_quoted.simps [of p q st])
    with 1(1) [OF c True s1] put_keeps [OF s1(1)] show ?thesis by auto
  next
    case False
    with 1(2) c show ?thesis by (auto simp: copy_quoted.simps)
  qed
qed

text \<open>
  The loop over the characters of a word. The flag tells whether it was left by \<^verbatim>\<open>goto donewords\<close> at the
  end of the line; the three other exits (a blank, the end of the text, a quote or escape that the text
  ends in) continue after the loop.
\<close>

function word_loop :: "bool \<Rightarrow> splitter \<Rightarrow> fault + bool \<times> splitter" where
  "word_loop p st =
     (case at_char st of
        Inl e \<Rightarrow> Inl e
      | Inr c \<Rightarrow>
          if c = NUL then Inr (False, st)
          else if c = dquote \<or> c = squote then
            (case copy_quoted p c (next_src st) of
               Inl e \<Rightarrow> Inl e
             | Inr st1 \<Rightarrow>
                 if at_char st1 = Inr c then word_loop p (next_src st1)
                 else word_loop p (say (missing_quote c) st1))
          else if c = backslash then
            (case at_char (next_src st) of
               Inl e \<Rightarrow> Inl e
             | Inr c1 \<Rightarrow>
                 if c1 \<noteq> NUL then
                   (case put p (unescape c1) (next_src st) of
                      Inl e \<Rightarrow> Inl e
                    | Inr st1 \<Rightarrow> word_loop p (next_src st1))
                 else word_loop p (say missing_escaped (next_src st)))
          else if is_blank c then Inr (False, next_src st)
          else if is_newline c then
            (case put p NUL (next_src st) of Inl e \<Rightarrow> Inl e | Inr st1 \<Rightarrow> Inr (True, st1))
          else
            (case put p c st of Inl e \<Rightarrow> Inl e | Inr st1 \<Rightarrow> word_loop p (next_src st1)))"
  by pat_completeness auto
termination
  by (relation "measure (\<lambda>(p, st). length (text_buf st) - src st)")
    (auto simp: at_char_Inr dest!: put_keeps copy_quoted_keeps)

declare word_loop.simps [simp del]

lemma word_loop_keeps:
  "word_loop p st = Inr (b, st') \<Longrightarrow> at_char st = Inr c \<Longrightarrow>
     length (text_buf st') = length (text_buf st) \<and> src st \<le> src st' \<and> (c \<noteq> NUL \<longrightarrow> src st < src st')"
proof (induction p st arbitrary: c rule: word_loop.induct)
  case (1 p st)
  note IH = "1.IH" and c = "1.prems"(2)
  consider (nul) "c = NUL" | (quote) "c \<noteq> NUL" "c = dquote \<or> c = squote"
    | (esc) "c \<noteq> NUL" "\<not> (c = dquote \<or> c = squote)" "c = backslash"
    | (end_word) "c \<noteq> NUL" "\<not> (c = dquote \<or> c = squote)" "c \<noteq> backslash" "is_blank c \<or> is_newline c"
    | (plain) "c \<noteq> NUL" "\<not> (c = dquote \<or> c = squote)" "c \<noteq> backslash" "\<not> is_blank c" "\<not> is_newline c"
    by blast
  then show ?case
  proof cases
    case nul
    with "1.prems" show ?thesis by (simp add: word_loop.simps)
  next
    case quote
    with "1.prems" obtain st1 where s1: "copy_quoted p c (next_src st) = Inr st1"
      by (cases "copy_quoted p c (next_src st)") (auto simp: word_loop.simps [of p st])
    from copy_quoted_keeps [OF s1] obtain c1 where c1: "at_char st1 = Inr c1" "c1 = NUL \<or> c1 = c"
      "Suc (src st) \<le> src st1" "length (text_buf st1) = length (text_buf st)" by auto
    show ?thesis
    proof (cases "c1 = c")
      case True
      with "1.prems" quote s1 c1 have w: "word_loop p (next_src st1) = Inr (b, st')"
        by (simp add: word_loop.simps [of p st])
      then obtain c2 where "at_char (next_src st1) = Inr c2"
        by (cases "at_char (next_src st1)") (auto simp: word_loop.simps [of p "next_src st1"])
      with IH(1) [OF c quote s1 _ w] c1 True show ?thesis by auto
    next
      case False
      with "1.prems" quote s1 c1 have w: "word_loop p (say (missing_quote c) st1) = Inr (b, st')"
        by (simp add: word_loop.simps [of p st])
      have "at_char (say (missing_quote c) st1) = Inr c1" using c1(1) by simp
      with IH(2) [OF c quote s1 _ w] c1 False show ?thesis by auto
    qed
  next
    case esc
    with "1.prems" obtain c1 where c1: "at_char (next_src st) = Inr c1"
      by (cases "at_char (next_src st)") (auto simp: word_loop.simps [of p st])
    show ?thesis
    proof (cases "c1 = NUL")
      case True
      with "1.prems" esc c1 have w: "word_loop p (say missing_escaped (next_src st)) = Inr (b, st')"
        by (simp add: word_loop.simps [of p st])
      have "at_char (say missing_escaped (next_src st)) = Inr c1" using c1 by simp
      with IH(4) [OF c esc c1 _ w] True show ?thesis by auto
    next
      case False
      with "1.prems" esc c1 obtain st1 where s1: "put p (unescape c1) (next_src st) = Inr st1"
        and w: "word_loop p (next_src st1) = Inr (b, st')"
        by (cases "put p (unescape c1) (next_src st)") (auto simp: word_loop.simps [of p st])
      obtain c2 where "at_char (next_src st1) = Inr c2"
        using w by (cases "at_char (next_src st1)") (auto simp: word_loop.simps [of p "next_src st1"])
      with IH(3) [OF c esc c1 False s1 w] put_keeps [OF s1] show ?thesis by auto
    qed
  next
    case end_word
    with "1.prems" show ?thesis
      by (cases "put p NUL (next_src st)") (auto simp: word_loop.simps [of p st] split: if_splits dest!: put_keeps)
  next
    case plain
    with "1.prems" obtain st1 where s1: "put p c st = Inr st1" and w: "word_loop p (next_src st1) = Inr (b, st')"
      by (cases "put p c st") (auto simp: word_loop.simps [of p st])
    obtain c2 where "at_char (next_src st1) = Inr c2"
      using w by (cases "at_char (next_src st1)") (auto simp: word_loop.simps [of p "next_src st1"])
    with IH(5) [OF c plain s1 w] put_keeps [OF s1] show ?thesis by auto
  qed
qed

lemma start_word_keeps:
  "start_word p st = Inr st' \<Longrightarrow> src st' = src st \<and> text_buf st' = text_buf st \<and> dst st' = dst st"
  by (auto simp: start_word_def split: if_splits)

text \<open>The block of one word: its pointer, its characters, and the terminator unless the line ended.\<close>

definition one_word :: "bool \<Rightarrow> splitter \<Rightarrow> fault + bool \<times> splitter" where
  "one_word p st =
     andThen (start_word p st) (\<lambda>st1.
     andThen (word_loop p st1) (\<lambda>(line_ended, st2).
       if line_ended then Inr (True, st2)
       else andThen (put p NUL st2) (\<lambda>st3. Inr (False, st3))))"

lemma one_word_keeps:
  assumes "one_word p st = Inr (b, st')" "at_char st = Inr c" "c \<noteq> NUL"
  shows "length (text_buf st') = length (text_buf st) \<and> src st < src st'"
proof -
  from assms(1) obtain st1 b1 st2 where s: "start_word p st = Inr st1" "word_loop p st1 = Inr (b1, st2)"
    "st' = st2 \<or> put p NUL st2 = Inr st'"
    by (auto simp: one_word_def split: if_splits)
  have "at_char st1 = Inr c" using start_word_keeps [OF s(1)] assms(2) by (simp add: at_char_Inr)
  with word_loop_keeps [OF s(2)] start_word_keeps [OF s(1)] s(3) assms(3) put_keeps show ?thesis by fastforce
qed

text \<open>The loop over the words of a line.\<close>

function words_loop :: "bool \<Rightarrow> splitter \<Rightarrow> fault + splitter" where
  "words_loop p st =
     (case at_char st of
        Inl e \<Rightarrow> Inl e
      | Inr c0 \<Rightarrow>
          if c0 = NUL then Inr st
          else
            (case skip_blanks st of
               Inl e \<Rightarrow> Inl e
             | Inr st1 \<Rightarrow>
                 (case at_char st1 of
                    Inl e \<Rightarrow> Inl e
                  | Inr c \<Rightarrow>
                      if is_newline c then Inr (next_src st1)
                      else if c \<noteq> NUL then
                        (case one_word p st1 of
                           Inl e \<Rightarrow> Inl e
                         | Inr (line_ended, st2) \<Rightarrow> if line_ended then Inr st2 else words_loop p st2)
                      else words_loop p st1)))"
  by pat_completeness auto
termination
proof (relation "measure (\<lambda>(p, st). length (text_buf st) - src st)", goal_cases)
  case (2 p st c0 st1 c r b st2)
  then show ?case
    using one_word_keeps [of p st1 b st2 c] skip_blanks_keeps [OF 2(3)] skip_blanks_text [OF 2(3)]
    by (auto simp: at_char_Inr)
next
  case (3 p st c0 st1 c)
  have "src st \<le> src st1" using skip_blanks_keeps [OF 3(3)] by blast
  moreover have t: "text_buf st1 = text_buf st" by (rule skip_blanks_text [OF 3(3)])
  moreover have "src st \<noteq> src st1" using 3 t by (auto simp: at_char_Inr)
  ultimately show ?case using 3 by (auto simp: at_char_Inr)
qed simp

declare words_loop.simps [simp del]

text \<open>
  The two passes. The first counts; when the caller wants the words, an array of that many null pointers
  is allocated (the allocation is taken to succeed) and the second pass fills it.
\<close>

definition first_pass :: "string \<Rightarrow> fault + splitter" where
  "first_pass buf = words_loop False \<lparr>text_buf = buf, src = 0, dst = 0, argc = 0, argv_slots = [], printed = []\<rparr>"

definition second_pass :: "splitter \<Rightarrow> fault + splitter" where
  "second_pass st =
     words_loop True (st\<lparr>src := 0, dst := 0, argc := 0, argv_slots := replicate (argc st) None\<rparr>)"

definition argcargv :: "bool \<Rightarrow> string option \<Rightarrow> fault + splitter option" where
  "argcargv want_argv buf =
     (case buf of
        None \<Rightarrow> Inr None
      | Some text \<Rightarrow>
          andThen (first_pass text) (\<lambda>st.
          andThen (if want_argv then second_pass st else Inr st) (\<lambda>st'. Inr (Some st'))))"

lemma not_NUL [simp]: "dquote \<noteq> NUL" "squote \<noteq> NUL" "backslash \<noteq> NUL" "\<not> is_newline NUL" "\<not> is_blank NUL"
  by (simp_all add: dquote_def squote_def backslash_def NUL_def is_newline_def is_blank_def)

lemma unescape_not_NUL [simp]: "unescape c = NUL \<longleftrightarrow> c = NUL" "NUL = unescape c \<longleftrightarrow> c = NUL"
  by (auto simp: unescape_def NUL_def backslash_def)

section \<open>Reference lexer\<close>

text \<open>What follows an opening quote: the quoted text, the remaining text, and a message when the quote is not closed.\<close>

fun lex_quoted :: "char \<Rightarrow> string \<Rightarrow> string \<times> string \<times> string list" where
  "lex_quoted q [] = ([], [], [missing_quote q])"
| "lex_quoted q (c # cs) =
     (if c = q then ([], cs, [])
      else let (w, rest, msgs) = lex_quoted q cs in (c # w, rest, msgs))"

lemma lex_quoted_shorter: "lex_quoted q cs = (w, rest, msgs) \<Longrightarrow> length w + length rest \<le> length cs"
  by (induction q cs arbitrary: w rest msgs rule: lex_quoted.induct) (auto split: if_splits prod.splits)

lemma lex_quoted_chars: "lex_quoted q cs = (tok, rest, msgs) \<Longrightarrow> set tok \<union> set rest \<subseteq> set cs"
  by (induction q cs arbitrary: tok rest msgs rule: lex_quoted.induct) (fastforce split: if_splits prod.splits)+

datatype word_end = End_Of_Text | End_Of_Word | End_Of_Line

text \<open>One word: its characters, the text after it, why it ended, and the messages.\<close>

function lex_word :: "string \<Rightarrow> string \<times> string \<times> word_end \<times> string list" where
  "lex_word [] = ([], [], End_Of_Text, [])"
| "lex_word (c # cs) =
     (if c = dquote \<or> c = squote then
        (let (w, rest, msgs) = lex_quoted c cs; (w', rest', e, msgs') = lex_word rest
         in (w @ w', rest', e, msgs @ msgs'))
      else if c = backslash then
        (case cs of
           [] \<Rightarrow> ([], [], End_Of_Text, [missing_escaped])
         | x # xs \<Rightarrow> let (w, rest, e, msgs) = lex_word xs in (unescape x # w, rest, e, msgs))
      else if is_blank c then ([], cs, End_Of_Word, [])
      else if is_newline c then ([], cs, End_Of_Line, [])
      else let (w, rest, e, msgs) = lex_word cs in (c # w, rest, e, msgs))"
  by pat_completeness auto
termination
  by (relation "measure length") (auto dest: lex_quoted_shorter [OF sym])

declare lex_word.simps(2) [simp del]

lemma lex_word_shorter: "lex_word cs = (w, rest, e, msgs) \<Longrightarrow>
   length w + length rest \<le> length cs \<and> (cs \<noteq> [] \<longrightarrow> length rest < length cs) \<and> (e = End_Of_Text \<longrightarrow> rest = []) \<and>
     set rest \<subseteq> set cs \<and> (NUL \<notin> set cs \<longrightarrow> NUL \<notin> set w)"
proof (induction cs arbitrary: w rest e msgs rule: lex_word.induct)
  case (2 c cs)
  obtain qw qr qm where q: "lex_quoted c cs = (qw, qr, qm)" by (cases "lex_quoted c cs")
  obtain w1 r1 e1 m1 where l1: "lex_word qr = (w1, r1, e1, m1)" by (cases "lex_word qr")
  obtain w2 r2 e2 m2 where l2: "lex_word cs = (w2, r2, e2, m2)" by (cases "lex_word cs")
  consider (quote) "c = dquote \<or> c = squote" | (esc) "\<not> (c = dquote \<or> c = squote)" "c = backslash"
    | (blank) "\<not> (c = dquote \<or> c = squote)" "c \<noteq> backslash" "is_blank c \<or> is_newline c"
    | (plain) "\<not> (c = dquote \<or> c = squote)" "c \<noteq> backslash" "\<not> is_blank c" "\<not> is_newline c" by blast
  then show ?case
  proof cases
    case quote
    with 2(1) [OF quote q [symmetric] refl refl l1] lex_quoted_shorter [OF q] lex_quoted_chars [OF q] 2(4) q l1 show ?thesis
      by (auto simp: lex_word.simps(2))
  next
    case esc
    show ?thesis
    proof (cases cs)
      case Nil
      with esc 2(4) show ?thesis by (simp add: lex_word.simps(2))
    next
      case (Cons x xs)
      obtain w3 r3 e3 m3 where l3: "lex_word xs = (w3, r3, e3, m3)" by (cases "lex_word xs")
      from 2(2) [OF esc Cons l3] esc Cons l3 2(4) show ?thesis by (auto simp: lex_word.simps(2))
    qed
  next
    case blank
    with 2(4) show ?thesis by (auto simp: lex_word.simps(2) split: if_splits)
  next
    case plain
    from 2(3) [OF plain l2] plain l2 2(4) show ?thesis by (auto simp: lex_word.simps(2))
  qed
qed simp

text \<open>One line: its words, the text of the following lines, and the messages.\<close>

function lex_line :: "string \<Rightarrow> string list \<times> string \<times> string list" where
  "lex_line cs =
     (case dropWhile is_blank cs of
        [] \<Rightarrow> ([], [], [])
      | c # cs' \<Rightarrow>
          if is_newline c then ([], cs', [])
          else
            (let (w, rest, e, msgs) = lex_word (c # cs')
             in if e = End_Of_Line then ([w], rest, msgs)
                else let (ws, rest', msgs') = lex_line rest in (w # ws, rest', msgs @ msgs')))"
  by pat_completeness auto
termination
proof (relation "measure length", goal_cases)
  case (2 cs c cs' x w y rest z e msgs)
  have "length (c # cs') \<le> length cs" using 2(1) by (metis length_dropWhile_le)
  with 2(3-) lex_word_shorter [of "c # cs'" w rest e msgs] show ?case by auto
qed simp

declare lex_line.simps [simp del]

section \<open>The passes implement the lexer\<close>

text \<open>
  In the middle of a pass the buffer holds the words written so far, \<open>k\<close> stale characters between the
  write and the read position, the text still to be read, its terminator and whatever follows.
\<close>

definition reading :: "bool \<Rightarrow> nat \<Rightarrow> splitter \<Rightarrow> string \<Rightarrow> string \<Rightarrow> string \<Rightarrow> bool" where
  "reading p k st w t j \<longleftrightarrow>
     (\<exists>g. length g = k \<and> text_buf st = w @ g @ t @ NUL # j) \<and> src st = length w + k \<and> (p \<longrightarrow> dst st = length w)"

definition written :: "bool \<Rightarrow> string \<Rightarrow> string" where
  "written p cs = (if p then cs else [])"

definition bystanders :: "bool \<Rightarrow> splitter \<Rightarrow> splitter \<Rightarrow> bool" where
  "bystanders p st st' \<longleftrightarrow>
     argc st' = argc st \<and> argv_slots st' = argv_slots st \<and> (\<not> p \<longrightarrow> text_buf st' = text_buf st)"

lemma written_simps [simp]:
  "written True cs = cs" "written False cs = []" "written p [] = []" "written p (a @ b) = written p a @ written p b"
  by (simp_all add: written_def)

lemma reading_at_char:
  "reading p k st w (c # t) j \<Longrightarrow> at_char st = Inr c"
  "reading p k st w [] j \<Longrightarrow> at_char st = Inr NUL"
  by (auto simp: reading_def at_char_Inr nth_append)

lemma reading_next: "reading p k st w (c # t) j \<Longrightarrow> reading p (Suc k) (next_src st) w t j"
  unfolding reading_def by (force intro: exI [of _ "_ @ [c]"])

lemma reading_say [simp]: "reading p k (say m st) w t j = reading p k st w t j"
  by (simp add: reading_def)

lemma bystanders_trans: "bystanders p a b \<Longrightarrow> bystanders p b c \<Longrightarrow> bystanders p a c"
  by (auto simp: bystanders_def)

lemma bystanders_simps [simp]: "bystanders p st st" "bystanders p st (next_src st')= bystanders p st st'"
  "bystanders p st (say m st') = bystanders p st st'"
  by (simp_all add: bystanders_def)

text \<open>Writing a character in exchange for the one that is being read, and writing into the gap.\<close>

lemma reading_put:
  assumes "reading p k st w (c # t) j"
  obtains st1 k' where "put p x st = Inr st1" "reading p k' (next_src st1) (w @ written p [x]) t j"
    "bystanders p st st1" "printed st1 = printed st"
proof (cases p)
  case False
  with reading_next [OF assms] that [of st "Suc k"] show thesis by (simp add: put_def)
next
  case True
  obtain g where g: "length g = k" "text_buf st = w @ g @ c # t @ NUL # j" and s: "src st = length w + k" "dst st = length w"
    using assms True by (auto simp: reading_def)
  let ?st1 = "st\<lparr>text_buf := (text_buf st)[dst st := x], dst := dst st + 1\<rparr>"
  have "(text_buf st)[dst st := x] = (w @ [x]) @ tl (g @ [c]) @ t @ NUL # j"
    using g s by (cases g) (simp_all add: list_update_append)
  then have "reading p k (next_src ?st1) (w @ written p [x]) t j"
    unfolding reading_def using g s True by (intro conjI exI [of _ "tl (g @ [c])"]) auto
  then show thesis
    using that [of ?st1 k] True g s by (simp add: put_def bystanders_def)
qed

lemma reading_put_gap:
  assumes "reading p (Suc k) st w t j"
  obtains st1 k' where "put p x st = Inr st1" "reading p k' st1 (w @ written p [x]) t j"
    "bystanders p st st1" "printed st1 = printed st"
proof (cases p)
  case False
  with assms that [of st "Suc k"] show thesis by (simp add: put_def)
next
  case True
  obtain y g where g: "length g = k" "text_buf st = w @ y # g @ t @ NUL # j" and s: "src st = length w + Suc k" "dst st = length w"
    using assms True by (auto simp: reading_def length_Suc_conv)
  let ?st1 = "st\<lparr>text_buf := (text_buf st)[dst st := x], dst := dst st + 1\<rparr>"
  have "reading p k ?st1 (w @ written p [x]) t j"
    unfolding reading_def using g s True by (auto simp: list_update_append)
  then show thesis
    using that [of ?st1 k] True g s by (simp add: put_def bystanders_def)
qed

lemma skip_blanks_reads:
  assumes "reading p k st w t j"
  obtains st' k' where "skip_blanks st = Inr st'" "reading p k' st' w (dropWhile is_blank t) j" "bystanders p st st'"
    "printed st' = printed st"
  using assms
proof (induction t arbitrary: st k thesis)
  case Nil
  have "\<not> is_blank NUL" by (simp add: is_blank_def NUL_def)
  with Nil.prems(1) [of st k] Nil.prems(2) reading_at_char(2) [OF Nil.prems(2)] show ?case
    by (simp add: skip_blanks.simps [of st])
next
  case (Cons c t)
  note c = reading_at_char(1) [OF Cons.prems(2)]
  show ?case
  proof (cases "is_blank c")
    case True
    obtain st' k' where "skip_blanks (next_src st) = Inr st'" "reading p k' st' w (dropWhile is_blank t) j"
      "bystanders p (next_src st) st'" "printed st' = printed (next_src st)"
      using Cons.IH [OF _ reading_next [OF Cons.prems(2)]] by blast
    then show ?thesis using Cons.prems(1) [of st' k'] c True
      by (simp add: skip_blanks.simps [of st] bystanders_def)
  next
    case False
    with Cons.prems(1) [of st k] Cons.prems(2) c show ?thesis by (simp add: skip_blanks.simps [of st])
  qed
qed

lemma copy_quoted_reads:
  assumes "reading p k st w t j" "NUL \<notin> set t" "lex_quoted q t = (tok, rest, msgs)"
  obtains st' k' where "copy_quoted p q st = Inr st'" "bystanders p st st'" "printed st' = printed st"
    "reading p k' st' (w @ written p tok) (if msgs = [] then q # rest else rest) j"
    "msgs = [] \<or> rest = [] \<and> msgs = [missing_quote q]"
  using assms
proof (induction t arbitrary: st k w tok thesis)
  case Nil
  show ?case
    by (rule Nil.prems(1) [of st k]) (use Nil.prems reading_at_char(2) [OF Nil.prems(2)] in \<open>auto simp: copy_quoted.simps [of p q st]\<close>)
next
  case (Cons c t)
  note c = reading_at_char(1) [OF Cons.prems(2)]
  show ?case
  proof (cases "c = q")
    case True
    show ?thesis
      by (rule Cons.prems(1) [of st k]) (use Cons.prems(2-) c True in \<open>auto simp: copy_quoted.simps [of p q st]\<close>)
  next
    case False
    then obtain tok' where tok: "lex_quoted q t = (tok', rest, msgs)" "tok = c # tok'"
      using Cons.prems(4) by (auto split: prod.splits)
    obtain st1 k1 where s1: "put p c st = Inr st1" "reading p k1 (next_src st1) (w @ written p [c]) t j"
      "bystanders p st st1" "printed st1 = printed st" using reading_put [OF Cons.prems(2)] by blast
    have nul: "NUL \<notin> set t" using Cons.prems(3) by simp
    obtain st' k' where "copy_quoted p q (next_src st1) = Inr st'" "bystanders p (next_src st1) st'" "printed st' = printed (next_src st1)"
      "reading p k' st' ((w @ written p [c]) @ written p tok') (if msgs = [] then q # rest else rest) j"
      "msgs = [] \<or> rest = [] \<and> msgs = [missing_quote q]"
      using Cons.IH [OF _ s1(2) nul tok(1)] by blast
    moreover have "copy_quoted p q st = copy_quoted p q (next_src st1)"
      using c False s1(1) Cons.prems(3) by (auto simp: copy_quoted.simps [of p q st])
    ultimately show ?thesis using Cons.prems(1) [of st' k'] s1 tok(2)
      by (cases p) (auto simp: bystanders_def)
  qed
qed


text \<open>The characters of the current word, from anywhere inside of it.\<close>

definition word_done :: "bool \<Rightarrow> splitter \<Rightarrow> string \<Rightarrow> string \<Rightarrow> string \<Rightarrow> word_end \<Rightarrow> string list \<Rightarrow> string \<Rightarrow> bool" where
  "word_done p st w tok rest e msgs j \<longleftrightarrow>
     (\<exists>st' k'. word_loop p st = Inr (e = End_Of_Line, st') \<and> bystanders p st st' \<and> printed st' = printed st @ msgs \<and>
        reading p k' st' (w @ written p (tok @ (if e = End_Of_Line then [NUL] else []))) rest j \<and>
        (e = End_Of_Word \<longrightarrow> 0 < k'))"

lemma word_done_step:
  assumes "word_loop p st = word_loop p st1" "bystanders p st st1" "printed st1 = printed st @ m1"
    and "word_done p st1 (w @ written p c) tok rest e m2 j"
  shows "word_done p st w (c @ tok) rest e (m1 @ m2) j"
  using assms bystanders_trans unfolding word_done_def by fastforce

lemma word_loop_reads:
  assumes "reading p k st w t j" "NUL \<notin> set t" "lex_word t = (tok, rest, e, msgs)"
  shows "word_done p st w tok rest e msgs j"
  using assms
proof (induction t arbitrary: st k w tok rest e msgs rule: lex_word.induct)
  case 1
  then show ?case using reading_at_char(2) [OF 1(1)]
    by (auto simp: word_done_def word_loop.simps [of p st] intro!: exI [of _ k])
next
  case (2 c t)
  note c = reading_at_char(1) [OF "2.prems"(1)]
  have nul: "c \<noteq> NUL" "NUL \<notin> set t" using "2.prems"(2) by auto
  consider (quote) "c = dquote \<or> c = squote" | (esc) "\<not> (c = dquote \<or> c = squote)" "c = backslash"
    | (blank) "\<not> (c = dquote \<or> c = squote)" "c \<noteq> backslash" "is_blank c"
    | (newline) "\<not> (c = dquote \<or> c = squote)" "c \<noteq> backslash" "\<not> is_blank c" "is_newline c"
    | (plain) "\<not> (c = dquote \<or> c = squote)" "c \<noteq> backslash" "\<not> is_blank c" "\<not> is_newline c" by blast
  then show ?case
  proof cases
    case quote
    obtain qw qr qm where q: "lex_quoted c t = (qw, qr, qm)" by (cases "lex_quoted c t")
    obtain w1 r1 e1 m1 where l1: "lex_word qr = (w1, r1, e1, m1)" by (cases "lex_word qr")
    have res: "tok = qw @ w1" "rest = r1" "e = e1" "msgs = qm @ m1"
      using "2.prems"(3) quote q l1 by (auto simp: lex_word.simps(2))
    have nulq: "NUL \<notin> set qr" using lex_quoted_chars [OF q] nul by auto
    obtain st1 k1 where s1: "copy_quoted p c (next_src st) = Inr st1" "bystanders p (next_src st) st1"
      "printed st1 = printed (next_src st)" "reading p k1 st1 (w @ written p qw) (if qm = [] then c # qr else qr) j"
      "qm = [] \<or> qr = [] \<and> qm = [missing_quote c]"
      using copy_quoted_reads [OF reading_next [OF "2.prems"(1)] nul(2) q] by blast
    have by1: "bystanders p st st1" using s1(2) by (simp add: bystanders_def)
    show ?thesis
    proof (cases "qm = []")
      case True
      with s1(4) have r: "reading p k1 st1 (w @ written p qw) (c # qr) j" by simp
      have "word_loop p st = word_loop p (next_src st1)"
        using c nul quote s1(1) reading_at_char(1) [OF r] by (simp add: word_loop.simps [of p st])
      then show ?thesis
        unfolding res using by1 s1(3) "2.IH"(1) [OF quote q [symmetric] refl refl reading_next [OF r] nulq l1]
        by (intro word_done_step [where ?st1.0 = "next_src st1"]) (auto simp: True)
    next
      case False
      with s1(4,5) have r: "reading p k1 st1 (w @ written p qw) qr j" "qr = []" "qm = [missing_quote c]" by auto
      have "word_loop p st = word_loop p (say (missing_quote c) st1)"
        using c nul quote s1(1) reading_at_char(2) [of p k1 st1] r by (auto simp: word_loop.simps [of p st])
      then show ?thesis
        unfolding res using by1 s1(3) r "2.IH"(1) [OF quote q [symmetric] refl refl, of k1 "say (missing_quote c) st1"] nulq l1
        by (intro word_done_step [where ?st1.0 = "say (missing_quote c) st1"]) auto
    qed
  next
    case esc
    note r1 = reading_next [OF "2.prems"(1)]
    show ?thesis
    proof (cases t)
      case Nil
      with "2.prems"(3) esc have res: "tok = []" "rest = []" "e = End_Of_Text" "msgs = [missing_escaped]"
        by (auto simp: lex_word.simps(2))
      have "word_loop p st = word_loop p (say missing_escaped (next_src st))"
        using c nul esc reading_at_char(2) r1 Nil by (simp add: word_loop.simps [of p st])
      also have "\<dots> = Inr (False, say missing_escaped (next_src st))"
        using reading_at_char(2) r1 Nil by (simp add: word_loop.simps)
      finally show ?thesis unfolding res word_done_def using r1 Nil by auto
    next
      case (Cons x xs)
      obtain w1 re1 e1 m1 where l1: "lex_word xs = (w1, re1, e1, m1)" by (cases "lex_word xs")
      have res: "tok = [unescape x] @ w1" "rest = re1" "e = e1" "msgs = [] @ m1"
        using "2.prems"(3) esc Cons l1 by (auto simp: lex_word.simps(2))
      obtain st1 k1 where s1: "put p (unescape x) (next_src st) = Inr st1"
        "reading p k1 (next_src st1) (w @ written p [unescape x]) xs j" "bystanders p (next_src st) st1" "printed st1 = printed (next_src st)"
        using reading_put [OF r1 [unfolded Cons]] by blast
      have "word_loop p st = word_loop p (next_src st1)"
        using c nul esc Cons s1(1) reading_at_char(1) [OF r1 [unfolded Cons]] by (auto simp: word_loop.simps [of p st])
      then show ?thesis
        unfolding res using s1 nul Cons "2.IH"(2) [OF esc Cons s1(2) _ l1]
        by (intro word_done_step [where ?st1.0 = "next_src st1"]) (auto simp: bystanders_def)
    qed
  next
    case blank
    with "2.prems"(3) c nul reading_next [OF "2.prems"(1)] show ?thesis
      by (auto simp: lex_word.simps(2) word_done_def word_loop.simps [of p st] intro!: exI [of _ "Suc k"])
  next
    case newline
    with "2.prems"(3) have res: "tok = []" "rest = t" "e = End_Of_Line" "msgs = []" by (auto simp: lex_word.simps(2))
    obtain st1 k1 where s1: "put p NUL (next_src st) = Inr st1" "reading p k1 st1 (w @ written p [NUL]) t j"
      "bystanders p (next_src st) st1" "printed st1 = printed (next_src st)"
      using reading_put_gap [OF reading_next [OF "2.prems"(1)]] by blast
    show ?thesis unfolding res word_done_def
      using newline c nul s1 by (auto simp: word_loop.simps [of p st] bystanders_def intro!: exI [of _ k1])
  next
    case plain
    obtain w1 r1 e1 m1 where l1: "lex_word t = (w1, r1, e1, m1)" by (cases "lex_word t")
    have res: "tok = [c] @ w1" "rest = r1" "e = e1" "msgs = [] @ m1"
      using "2.prems"(3) plain l1 by (auto simp: lex_word.simps(2))
    obtain st1 k1 where s1: "put p c st = Inr st1" "reading p k1 (next_src st1) (w @ written p [c]) t j"
      "bystanders p st st1" "printed st1 = printed st" using reading_put [OF "2.prems"(1)] by blast
    have "word_loop p st = word_loop p (next_src st1)"
      using c nul plain s1(1) by (simp add: word_loop.simps [of p st])
    then show ?thesis
      unfolding res using s1 nul "2.IH"(3) [OF plain s1(2) nul(2) l1]
      by (intro word_done_step [where ?st1.0 = "next_src st1"]) auto
  qed
qed


text \<open>A line: the words one after the other with their terminators, and a pointer to each.\<close>

definition laid_out :: "string list \<Rightarrow> string" where
  "laid_out toks = concat (map (\<lambda>t. t @ [NUL]) toks)"

fun offsets :: "nat \<Rightarrow> string list \<Rightarrow> nat list" where
  "offsets b [] = []"
| "offsets b (t # ts) = b # offsets (b + length t + 1) ts"

definition line_done :: "bool \<Rightarrow> splitter \<Rightarrow> splitter \<Rightarrow> string \<Rightarrow> string list \<Rightarrow> string \<Rightarrow> string list \<Rightarrow> string \<Rightarrow> bool" where
  "line_done p st st' w toks rest msgs j \<longleftrightarrow>
     argc st' = argc st + length toks \<and> printed st' = printed st @ msgs \<and>
     length (text_buf st') = length (text_buf st) \<and> drop (src st') (text_buf st') = rest @ NUL # j \<and>
     src st' < length (text_buf st') \<and>
     (if p then (\<exists>g. text_buf st' = w @ laid_out toks @ g) \<and>
          argv_slots st' = take (argc st) (argv_slots st) @ map Some (offsets (length w) toks) @ drop (argc st + length toks) (argv_slots st)
      else text_buf st' = text_buf st \<and> argv_slots st' = argv_slots st)"

lemma reading_done: "reading p k st w t j \<Longrightarrow> drop (src st) (text_buf st) = t @ NUL # j \<and> src st < length (text_buf st)"
  by (auto simp: reading_def)

lemma line_done_none:
  assumes "reading p k st1 w t j" "bystanders p st st1" "printed st1 = printed st" "length (text_buf st1) = length (text_buf st)"
  shows "line_done p st st1 w [] t [] j"
proof -
  have "\<exists>g. text_buf st1 = w @ g" using assms(1) by (auto simp: reading_def)
  with assms reading_done [OF assms(1)] show ?thesis by (auto simp: line_done_def laid_out_def bystanders_def)
qed

lemma start_word_reads:
  assumes "reading p k st w t j" "p \<longrightarrow> argc st < length (argv_slots st)"
  obtains st' where "start_word p st = Inr st'" "reading p k st' w t j" "printed st' = printed st" "text_buf st' = text_buf st"
    "argc st' = Suc (argc st)" "argv_slots st' = (if p then (argv_slots st)[argc st := Some (length w)] else argv_slots st)"
proof (cases p)
  case True
  with assms show thesis
    by (intro that [of "st\<lparr>argv_slots := (argv_slots st)[argc st := Some (dst st)], argc := argc st + 1\<rparr>"])
      (auto simp: start_word_def reading_def)
next
  case False
  with assms show thesis
    by (intro that [of "st\<lparr>argc := argc st + 1\<rparr>"]) (auto simp: start_word_def reading_def)
qed

text \<open>The terminator that follows a word: in the gap, or over the terminator of the text.\<close>

lemma put_terminator:
  assumes "reading p k st w t j" "0 < k \<or> t = []"
  obtains st' k' where "put p NUL st = Inr st'" "bystanders p st st'" "printed st' = printed st"
    "length (text_buf st') = length (text_buf st)"
    "reading p k' st' (w @ written p [NUL]) t j \<or>
       p \<and> t = [] \<and> text_buf st' = w @ NUL # j \<and> src st' = length w"
proof (cases k)
  case 0
  show thesis
  proof (cases p)
    case False
    with assms(1) that [of st k] show thesis by (simp add: put_def)
  next
    case True
    with 0 assms have *: "text_buf st = w @ NUL # j" "src st = length w" "dst st = length w" "t = []"
      by (auto simp: reading_def)
    let ?st' = "st\<lparr>text_buf := (text_buf st)[dst st := NUL], dst := dst st + 1\<rparr>"
    have "put p NUL st = Inr ?st'" using * True by (simp add: put_def)
    then show thesis using that [of ?st' 0] * True by (simp add: bystanders_def list_update_append)
  qed
next
  case (Suc k0)
  then obtain st1 k' where "put p NUL st = Inr st1" "reading p k' st1 (w @ written p [NUL]) t j"
    "bystanders p st st1" "printed st1 = printed st" using reading_put_gap assms(1) by metis
  then show thesis using that [of st1 k'] put_keeps by auto
qed

lemma laid_out_simps [simp]: "laid_out [] = []" "laid_out (t # ts) = t @ NUL # laid_out ts"
  by (simp_all add: laid_out_def)

lemma one_word_reads:
  assumes r: "reading p k st w (c # t) j" and nul: "NUL \<notin> set (c # t)" and l: "lex_word (c # t) = (tok, rest, e, m)"
    and room: "p \<longrightarrow> argc st < length (argv_slots st)"
  obtains st' k' where "one_word p st = Inr (e = End_Of_Line, st')" "argc st' = Suc (argc st)" "printed st' = printed st @ m"
    "argv_slots st' = (if p then (argv_slots st)[argc st := Some (length w)] else argv_slots st)"
    "length (text_buf st') = length (text_buf st)" "\<not> p \<longrightarrow> text_buf st' = text_buf st"
    "if e = End_Of_Line then reading p k' st' (w @ written p (tok @ [NUL])) rest j
     else reading p k' st' (w @ written p (tok @ [NUL])) rest j \<or>
       p \<and> rest = [] \<and> text_buf st' = w @ tok @ NUL # j \<and> src st' = length (w @ tok)"
proof -
  obtain st2 where s2: "start_word p st = Inr st2" "reading p k st2 w (c # t) j" "printed st2 = printed st" "text_buf st2 = text_buf st"
    "argc st2 = Suc (argc st)" "argv_slots st2 = (if p then (argv_slots st)[argc st := Some (length w)] else argv_slots st)"
    using start_word_reads [OF r room] by blast
  obtain st3 k3 where s3: "word_loop p st2 = Inr (e = End_Of_Line, st3)" "bystanders p st2 st3" "printed st3 = printed st2 @ m"
    "reading p k3 st3 (w @ written p (tok @ (if e = End_Of_Line then [NUL] else []))) rest j" "e = End_Of_Word \<longrightarrow> 0 < k3"
    using word_loop_reads [OF s2(2) nul l] unfolding word_done_def by blast
  have len3: "length (text_buf st3) = length (text_buf st2)"
    using word_loop_keeps [OF s3(1) reading_at_char(1) [OF s2(2)]] by simp
  show thesis
  proof (cases "e = End_Of_Line")
    case True
    with s2 s3 len3 show thesis by (intro that [of st3 k3]) (auto simp: one_word_def bystanders_def)
  next
    case False
    then have "0 < k3 \<or> rest = []" using s3(5) lex_word_shorter [OF l] by (cases e) auto
    moreover have "reading p k3 st3 (w @ written p tok) rest j" using s3(4) False by simp
    ultimately obtain st4 k4 where s4: "put p NUL st3 = Inr st4" "bystanders p st3 st4" "printed st4 = printed st3"
      "length (text_buf st4) = length (text_buf st3)"
      "reading p k4 st4 ((w @ written p tok) @ written p [NUL]) rest j \<or>
         p \<and> rest = [] \<and> text_buf st4 = (w @ written p tok) @ NUL # j \<and> src st4 = length (w @ written p tok)"
      using put_terminator by metis
    show thesis
    proof (rule that [of st4 k4])
      show "if e = End_Of_Line then reading p k4 st4 (w @ written p (tok @ [NUL])) rest j
        else reading p k4 st4 (w @ written p (tok @ [NUL])) rest j \<or>
          p \<and> rest = [] \<and> text_buf st4 = w @ tok @ NUL # j \<and> src st4 = length (w @ tok)"
        using s4(5) False by (cases p) auto
    qed (use s2 s3 s4 len3 False in \<open>auto simp: one_word_def bystanders_def\<close>)
  qed
qed

text \<open>A word in front of a line.\<close>

lemma line_done_first:
  assumes s2: "argc st2 = Suc (argc st1)" "printed st2 = printed st1 @ m" "length (text_buf st2) = length (text_buf st1)"
      "argv_slots st2 = (if p then (argv_slots st1)[argc st1 := Some (length w)] else argv_slots st1)"
      "\<not> p \<longrightarrow> text_buf st2 = text_buf st1"
    and d: "line_done p st2 st' (w @ written p (tok @ [NUL])) toks rest msgs j"
    and room: "p \<longrightarrow> argc st1 + Suc (length toks) \<le> length (argv_slots st1)"
  shows "line_done p st1 st' w (tok # toks) rest (m @ msgs) j"
proof (cases p)
  case True
  define n where "n = argc st1"
  have "take (Suc n) ((argv_slots st1)[n := Some (length w)]) = take n (argv_slots st1) @ [Some (length w)]"
    using room True unfolding n_def by (simp add: take_Suc_conv_app_nth)
  with True s2 d room show ?thesis
    unfolding n_def by (auto simp: line_done_def)
next
  case False
  with s2 d show ?thesis by (auto simp: line_done_def)
qed

lemma line_done_shift:
  "line_done p st1 st' w toks rest msgs j \<Longrightarrow> bystanders p st st1 \<Longrightarrow> printed st1 = printed st \<Longrightarrow>
     length (text_buf st1) = length (text_buf st) \<Longrightarrow> line_done p st st' w toks rest msgs j"
  by (cases p) (auto simp: line_done_def bystanders_def)

lemma lex_line_first:
  assumes "dropWhile is_blank t = c # t1" "\<not> is_newline c" "lex_word (c # t1) = (tok, r, e, m)" "lex_line t = (toks, rest, msgs)"
  shows "if e = End_Of_Line then toks = [tok] \<and> rest = r \<and> msgs = m
    else \<exists>toks' msgs'. lex_line r = (toks', rest, msgs') \<and> toks = tok # toks' \<and> msgs = m @ msgs'"
  using assms by (auto simp: lex_line.simps [of t] split: if_splits prod.splits)

lemma words_loop_at_end: "at_char st = Inr NUL \<Longrightarrow> words_loop p st = Inr st"
  by (simp add: words_loop.simps)

lemma line_done_overwritten:
  assumes "text_buf st = w @ NUL # j" "src st = length w"
  shows "line_done True st st (w @ [NUL]) [] [] [] j"
  using assms by (auto simp: line_done_def)


lemma words_loop_blank:
  assumes r: "reading p k st w t j" and "NUL \<notin> set t" "dropWhile is_blank t = []"
    and s1: "skip_blanks st = Inr st1" "reading p k1 st1 w (dropWhile is_blank t) j"
  shows "words_loop p st = Inr st1"
proof -
  have end1: "at_char st1 = Inr NUL" using reading_at_char(2) s1(2) assms(3) by simp
  show ?thesis
  proof (cases t)
    case Nil
    then have "st1 = st" using s1(1) reading_at_char(2) r by (simp add: skip_blanks.simps [of st])
    then show ?thesis using end1 words_loop_at_end by simp
  next
    case (Cons c0 t0)
    then show ?thesis using reading_at_char(1) r assms(2) s1(1) end1 words_loop_at_end
      by (auto simp: words_loop.simps [of p st])
  qed
qed

lemma words_loop_unfold:
  assumes r: "reading p k st w t j" and "NUL \<notin> set t" "dropWhile is_blank t = c # t1"
    and s1: "skip_blanks st = Inr st1" "reading p k1 st1 w (dropWhile is_blank t) j"
  shows "is_newline c \<Longrightarrow> words_loop p st = Inr (next_src st1)"
    and "\<not> is_newline c \<Longrightarrow> one_word p st1 = Inr (b, st2) \<Longrightarrow>
      words_loop p st = (if b then Inr st2 else words_loop p st2)"
proof -
  obtain c0 t0 where t: "t = c0 # t0" using assms(3) by (cases t) auto
  have c: "at_char st1 = Inr c" "c \<noteq> NUL" "at_char st = Inr c0" "c0 \<noteq> NUL"
    using reading_at_char(1) r assms(2,3) s1(2) t set_dropWhileD [of c is_blank t] by auto
  show "is_newline c \<Longrightarrow> words_loop p st = Inr (next_src st1)"
    using c s1(1) by (simp add: words_loop.simps [of p st])
  show "\<not> is_newline c \<Longrightarrow> one_word p st1 = Inr (b, st2) \<Longrightarrow> words_loop p st = (if b then Inr st2 else words_loop p st2)"
    using c s1(1) by (simp add: words_loop.simps [of p st])
qed

lemma words_loop_reads:
  assumes "reading p k st w t j" "NUL \<notin> set t" "lex_line t = (toks, rest, msgs)"
    "p \<longrightarrow> argc st + length toks \<le> length (argv_slots st)"
  shows "\<exists>st'. words_loop p st = Inr st' \<and> line_done p st st' w toks rest msgs j"
  using assms
proof (induction t arbitrary: st k w toks rest msgs rule: lex_line.induct)
  case (1 t)
  obtain st1 k1 where s1: "skip_blanks st = Inr st1" "reading p k1 st1 w (dropWhile is_blank t) j" "bystanders p st st1"
    "printed st1 = printed st" using skip_blanks_reads [OF "1.prems"(1)] by blast
  have len1: "length (text_buf st1) = length (text_buf st)" using skip_blanks_text [OF s1(1)] by simp
  show ?case
  proof (cases "dropWhile is_blank t")
    case Nil
    with words_loop_blank [OF "1.prems"(1,2) Nil s1(1,2)] line_done_none [OF s1(2,3,4) len1] "1.prems"(3)
    show ?thesis by (simp add: lex_line.simps [of t])
  next
    case (Cons c t1)
    note unf = words_loop_unfold [OF "1.prems"(1,2) Cons s1(1,2)]
    show ?thesis
    proof (cases "is_newline c")
      case True
      with unf(1) line_done_none [OF reading_next [OF s1(2) [unfolded Cons]]] s1(3,4) len1 "1.prems"(3) Cons
      show ?thesis by (simp add: lex_line.simps [of t])
    next
      case False
      obtain tok r e m where l: "lex_word (c # t1) = (tok, r, e, m)" by (cases "lex_word (c # t1)")
      have nul: "NUL \<notin> set (c # t1)" using "1.prems"(2) Cons by (metis set_dropWhileD)
      then have nulr: "NUL \<notin> set r" using lex_word_shorter [OF l] by auto
      note lf = lex_line_first [OF Cons False l "1.prems"(3)]
      have room: "p \<longrightarrow> argc st1 < length (argv_slots st1)"
        using "1.prems"(4) s1(3) lf by (auto simp: bystanders_def split: if_splits)
      obtain st2 k2 where s2: "one_word p st1 = Inr (e = End_Of_Line, st2)" "argc st2 = Suc (argc st1)" "printed st2 = printed st1 @ m"
        "argv_slots st2 = (if p then (argv_slots st1)[argc st1 := Some (length w)] else argv_slots st1)"
        "length (text_buf st2) = length (text_buf st1)" "\<not> p \<longrightarrow> text_buf st2 = text_buf st1"
        "if e = End_Of_Line then reading p k2 st2 (w @ written p (tok @ [NUL])) r j
         else reading p k2 st2 (w @ written p (tok @ [NUL])) r j \<or>
           p \<and> r = [] \<and> text_buf st2 = w @ tok @ NUL # j \<and> src st2 = length (w @ tok)"
        using one_word_reads [OF s1(2) [unfolded Cons] nul l room] by blast
      have "\<exists>st'. words_loop p st = Inr st' \<and> line_done p st1 st' w toks rest msgs j"
      proof (cases "e = End_Of_Line")
        case True
        have "line_done p st2 st2 (w @ written p (tok @ [NUL])) [] r [] j"
          using s2(7) True by (intro line_done_none [of p k2]) auto
        from line_done_first [OF s2(2,3,5,4,6) this] room lf True unf(2) [OF False s2(1)] show ?thesis by auto
      next
        case eol: False
        then obtain toks' msgs' where lr: "lex_line r = (toks', rest, msgs')" "toks = tok # toks'" "msgs = m @ msgs'"
          using lf by auto
        have room2: "p \<longrightarrow> argc st1 + Suc (length toks') \<le> length (argv_slots st1)"
          using "1.prems"(4) s1(3) lr(2) by (simp add: bystanders_def)
        have "\<exists>st'. words_loop p st2 = Inr st' \<and> line_done p st2 st' (w @ written p (tok @ [NUL])) toks' rest msgs' j"
        proof (cases "reading p k2 st2 (w @ written p (tok @ [NUL])) r j")
          case True
          show ?thesis
            by (rule "1.IH" [OF Cons False l [symmetric] refl refl refl eol True nulr lr(1)]) (use s2 room2 in auto)
        next
          case False
          with s2(7) eol have *: "p" "r = []" "text_buf st2 = (w @ tok) @ NUL # j" "src st2 = length (w @ tok)" by auto
          then have "words_loop p st2 = Inr st2" by (intro words_loop_at_end) (simp add: at_char_Inr)
          moreover have "toks' = []" "rest = []" "msgs' = []" using lr(1) *(2) by (auto simp: lex_line.simps)
          ultimately show ?thesis using line_done_overwritten [OF *(3,4)] *(1) by auto
        qed
        with line_done_first [OF s2(2,3,5,4,6) _ room2] lr unf(2) [OF False s2(1)] eol show ?thesis by auto
      qed
      with line_done_shift s1(3,4) len1 show ?thesis by blast
    qed
  qed
qed


lemma lex_line_no_NUL: "lex_line t = (toks, rest, msgs) \<Longrightarrow> NUL \<notin> set t \<Longrightarrow> tok \<in> set toks \<Longrightarrow> NUL \<notin> set tok"
proof (induction t arbitrary: toks rest msgs rule: lex_line.induct)
  case (1 t)
  show ?case
  proof (cases "dropWhile is_blank t")
    case Nil
    with "1.prems" show ?thesis by (simp add: lex_line.simps [of t])
  next
    case (Cons c t1)
    obtain w r e m where l: "lex_word (c # t1) = (w, r, e, m)" by (cases "lex_word (c # t1)")
    have nul: "NUL \<notin> set (c # t1)" using "1.prems"(2) Cons by (metis set_dropWhileD)
    show ?thesis
    proof (cases "is_newline c")
      case True
      with "1.prems" Cons show ?thesis by (simp add: lex_line.simps [of t])
    next
      case False
      have "NUL \<notin> set r" "NUL \<notin> set w" using lex_word_shorter [OF l] nul by auto
      with lex_line_first [OF Cons False l "1.prems"(1)] "1.IH" [OF Cons False l [symmetric] refl refl refl] "1.prems"(3)
      show ?thesis by (auto split: if_splits)
    qed
  qed
qed

section \<open>Reading the words back\<close>

definition c_string :: "string \<Rightarrow> nat \<Rightarrow> string" where
  "c_string buf off = takeWhile (\<lambda>c. c \<noteq> NUL) (drop off buf)"

definition argv_words :: "splitter \<Rightarrow> string option list" where
  "argv_words st = map (map_option (c_string (text_buf st))) (argv_slots st)"

lemma c_string_at: "NUL \<notin> set t \<Longrightarrow> c_string (w @ t @ NUL # g) (length w) = t"
  by (auto simp: c_string_def takeWhile_append)

lemma laid_out_words:
  "(\<And>t. t \<in> set toks \<Longrightarrow> NUL \<notin> set t) \<Longrightarrow> buf = w @ laid_out toks @ g \<Longrightarrow> map (c_string buf) (offsets (length w) toks) = toks"
proof (induction toks arbitrary: w)
  case (Cons t ts)
  have "map (c_string buf) (offsets (length (w @ t @ [NUL])) ts) = ts"
    using Cons.IH [of "w @ t @ [NUL]"] Cons.prems by simp
  moreover have "c_string buf (length w) = t" using Cons.prems c_string_at by simp
  ultimately show ?case by simp
qed simp

lemma first_pass_reads:
  assumes "NUL \<notin> set t" "lex_line t = (toks, rest, msgs)"
  obtains st where "first_pass (t @ NUL # j) = Inr st" "argc st = length toks" "printed st = msgs" "text_buf st = t @ NUL # j"
    "drop (src st) (text_buf st) = rest @ NUL # j"
proof -
  have "reading False 0 \<lparr>text_buf = t @ NUL # j, src = 0, dst = 0, argc = 0, argv_slots = [], printed = []\<rparr> [] t j"
    by (simp add: reading_def)
  from words_loop_reads [OF this assms] that show thesis by (auto simp: first_pass_def line_done_def)
qed

lemma second_pass_reads:
  assumes "NUL \<notin> set t" "lex_line t = (toks, rest, msgs)" "text_buf st = t @ NUL # j" "argc st = length toks"
  obtains st' where "second_pass st = Inr st'" "argc st' = length toks" "printed st' = printed st @ msgs"
    "length (text_buf st') = length (t @ NUL # j)" "drop (src st') (text_buf st') = rest @ NUL # j" "argv_words st' = map Some toks"
proof -
  let ?st = "st\<lparr>src := 0, dst := 0, argc := 0, argv_slots := replicate (argc st) None\<rparr>"
  have "reading True 0 ?st [] t j" using assms(3) by (simp add: reading_def)
  from words_loop_reads [OF this assms(1,2)] obtain st' where st': "words_loop True ?st = Inr st'" "line_done True ?st st' [] toks rest msgs j"
    using assms(4) by auto
  then obtain g where g: "text_buf st' = [] @ laid_out toks @ g" "argv_slots st' = map Some (offsets 0 toks)"
    using assms(4) by (auto simp: line_done_def)
  have "map (c_string (text_buf st')) (offsets (length ([] :: string)) toks) = toks"
    using lex_line_no_NUL [OF assms(2,1)] g(1) laid_out_words [of toks "text_buf st'" "[]" g] by blast
  then have "argv_words st' = map Some toks"
    by (simp add: argv_words_def g(2) comp_def) (drule arg_cong [where f = "map Some"], simp add: comp_def)
  with st' assms(3) that [of st'] show thesis by (simp add: line_done_def second_pass_def)
qed

text \<open>C17: \<^verbatim>\<open>argcargv\<close> splits a line as the reference lexer does, although it copies the words over the text it is still
  reading: it returns, every entry of \<^verbatim>\<open>argv\<close> points to its word, the text from the returned position on (the following
  lines, the terminator and what lies behind it) is untouched, and without \<^verbatim>\<open>argv\<close> it only counts.\<close>

theorem argcargv_refines_lexer:
  assumes "NUL \<notin> set t" "lex_line t = (toks, rest, msgs)"
  shows "(\<exists>st. argcargv True (Some (t @ NUL # j)) = Inr (Some st) \<and> argc st = length toks \<and> argv_words st = map Some toks \<and>
      length (text_buf st) = length (t @ NUL # j) \<and> drop (src st) (text_buf st) = rest @ NUL # j \<and> printed st = msgs @ msgs) \<and>
    (\<exists>st. argcargv False (Some (t @ NUL # j)) = Inr (Some st) \<and> argc st = length toks \<and> text_buf st = t @ NUL # j \<and>
      drop (src st) (text_buf st) = rest @ NUL # j \<and> printed st = msgs)"
proof -
  obtain st where st: "first_pass (t @ NUL # j) = Inr st" "argc st = length toks" "printed st = msgs" "text_buf st = t @ NUL # j"
    "drop (src st) (text_buf st) = rest @ NUL # j" using first_pass_reads [OF assms] by blast
  then have "\<exists>st. argcargv False (Some (t @ NUL # j)) = Inr (Some st) \<and> argc st = length toks \<and> text_buf st = t @ NUL # j \<and>
      drop (src st) (text_buf st) = rest @ NUL # j \<and> printed st = msgs"
    by (simp add: argcargv_def)
  moreover have "\<exists>st. argcargv True (Some (t @ NUL # j)) = Inr (Some st) \<and> argc st = length toks \<and> argv_words st = map Some toks \<and>
      length (text_buf st) = length (t @ NUL # j) \<and> drop (src st) (text_buf st) = rest @ NUL # j \<and> printed st = msgs @ msgs"
    using second_pass_reads [OF assms st(4,2)] st(1,3) by (auto simp: argcargv_def)
  ultimately show ?thesis by blast
qed

text \<open>A line with a quoted word, an escaped blank and a second line.\<close>

theorem argcargv_refines_lexer_witness:
  "\<exists>st. argcargv True (Some (''a '' @ [dquote] @ ''b c'' @ [dquote, backslash] @ '' d'' @ [CHR 0x0A] @ ''e'' @ [NUL])) = Inr (Some st) \<and>
     argv_words st = [Some ''a'', Some ''b c d''] \<and> drop (src st) (text_buf st) = ''e'' @ [NUL]"
proof -
  have "lex_line (''a '' @ [dquote] @ ''b c'' @ [dquote, backslash] @ '' d'' @ [CHR 0x0A] @ ''e'') = ([''a'', ''b c d''], ''e'', [])"
    by (simp add: lex_line.simps lex_word.simps is_blank_def is_newline_def dquote_def squote_def backslash_def unescape_def)
  from argcargv_refines_lexer [OF _ this, of "[]"] show ?thesis
    by (auto simp: NUL_def dquote_def backslash_def)
qed

end
