(* ===== verification/Getopt.thy ===== *)
theory Getopt
  imports Text_Output "HOL-Library.Multiset"
begin

text \<open>
  The option parser in \<^verbatim>\<open>src/compat/getopt.c\<close>, which \<^verbatim>\<open>configure\<close> compiles in when the system has no
  \<^verbatim>\<open>getopt.h\<close>, as on Mac OS 9. Its static variables are the fields of a record, the argument vector is a
  list that \<^verbatim>\<open>exchange\<close> permutes in place, and an access behind the end of the vector is an error. Strings
  are lists without a terminator; \<open>ch\<close> reads the terminator where C would.
\<close>

section \<open>Strings\<close>

definition ch :: "string \<Rightarrow> nat \<Rightarrow> char" where
  "ch s k = (if k < length s then s ! k else CHR 0x00)"

definition code :: "char \<Rightarrow> int" where
  "code c = int (of_char c)"

fun my_strlen :: "string \<Rightarrow> int" where
  "my_strlen [] = 0"
| "my_strlen (c # cs) = my_strlen cs + 1"

fun my_index :: "string \<Rightarrow> char \<Rightarrow> string option" where
  "my_index [] chr = None"
| "my_index (c # cs) chr = (if c = chr then Some (c # cs) else my_index cs chr)"

text \<open>A negative bound never becomes zero, as in \<^verbatim>\<open>my_strcmp\<close>.\<close>

fun my_strncmp :: "string \<Rightarrow> string \<Rightarrow> int \<Rightarrow> int" where
  "my_strncmp [] s2 n = (if n = 0 then 0 else 0 - code (ch s2 0))"
| "my_strncmp (c # cs) s2 n =
     (if n = 0 then 0
      else if s2 \<noteq> [] \<and> hd s2 = c then my_strncmp cs (tl s2) (n - 1)
      else code c - code (ch s2 0))"

definition my_strcmp :: "string \<Rightarrow> string \<Rightarrow> int" where
  "my_strcmp s1 s2 = my_strncmp s1 s2 (-1)"

section \<open>State\<close>

text \<open>
  A description of a long option. \<open>flag\<close> names the variable that the option sets, if any; the array that
  C ends with a null name is a list.
\<close>

record long_option =
  opt_name :: string
  has_arg :: int
  flag :: "string option"
  val :: int

definition no_argument :: int where "no_argument = 0"
definition required_argument :: int where "required_argument = 1"
definition optional_argument :: int where "optional_argument = 2"

datatype ordering = REQUIRE_ORDER | PERMUTE | RETURN_IN_ORDER

record getopt_state =
  args :: "string list"
  optarg :: "string option"
  optind :: nat
  nextchar :: "string option"
  opterr :: bool
  optopt :: char
  order :: ordering
  first_nonopt :: nat
  last_nonopt :: nat
  longind :: nat
  flag_vars :: "string \<Rightarrow> int"
  messages :: "string list"

definition EOF :: int where "EOF = -1"
definition BAD_OPTION :: int where "BAD_OPTION = 0"

abbreviation arg_count :: "getopt_state \<Rightarrow> nat" where
  "arg_count st \<equiv> length (args st)"

definition arg_at :: "getopt_state \<Rightarrow> nat \<Rightarrow> fault + string" where
  "arg_at st i = (if i < arg_count st then Inr (args st ! i) else Inl Out_Of_Bounds)"

text \<open>\<^verbatim>\<open>if (opterr) fprintf(stderr, "%s: ...", argv[0], ...)\<close>\<close>

definition complain :: "string \<Rightarrow> getopt_state \<Rightarrow> fault + getopt_state" where
  "complain text st =
     (if opterr st then andThen (arg_at st 0) (\<lambda>prog. Inr (st\<lparr>messages := messages st @ [prog @ '': '' @ text @ nl]\<rparr>))
      else Inr st)"

section \<open>Permuting the arguments\<close>

text \<open>One of the three loops of \<^verbatim>\<open>exchange\<close>: reverse the elements between two positions.\<close>

function reverse_loop :: "string list \<Rightarrow> nat \<Rightarrow> nat \<Rightarrow> fault + string list" where
  "reverse_loop av i j =
     (if i < j then
        (if j < length av
         then reverse_loop (av[i := av ! j, j := av ! i]) (i + 1) (j - 1)
         else Inl Out_Of_Bounds)
      else Inr av)"
  by pat_completeness auto
termination
  by (relation "measure (\<lambda>(av, i, j). j - i)") auto

declare reverse_loop.simps [simp del]

definition exchange :: "getopt_state \<Rightarrow> fault + getopt_state" where
  "exchange st =
     (let first = first_nonopt st; middle = first_nonopt st + (optind st - last_nonopt st)
      in andThen (reverse_loop (args st) first (optind st - 1)) (\<lambda>av.
         andThen (reverse_loop av first (middle - 1)) (\<lambda>av.
         andThen (reverse_loop av middle (optind st - 1)) (\<lambda>av.
           Inr (st\<lparr>args := av, first_nonopt := middle, last_nonopt := optind st\<rparr>)))))"

section \<open>Finding the next option element\<close>

definition is_nonopt :: "string \<Rightarrow> bool" where
  "is_nonopt a = (ch a 0 \<noteq> CHR ''-'' \<or> ch a 1 = CHR 0x00)"

fun skip_nonopts :: "string list \<Rightarrow> nat \<Rightarrow> nat" where
  "skip_nonopts [] i = i"
| "skip_nonopts (a # av) i = (if is_nonopt a then skip_nonopts av (i + 1) else i)"

text \<open>The first call: positions, and the ordering that the option string or the environment asks for.\<close>

definition start_scan :: "bool \<Rightarrow> string \<Rightarrow> getopt_state \<Rightarrow> getopt_state \<times> string" where
  "start_scan posixly_correct optstring st =
     (if optind st \<noteq> 0 then (st, optstring)
      else
        (let st = st\<lparr>optind := 1, nextchar := None, first_nonopt := 1, last_nonopt := 1\<rparr>
         in if ch optstring 0 = CHR ''-'' then (st\<lparr>order := RETURN_IN_ORDER\<rparr>, tl optstring)
            else if ch optstring 0 = CHR ''+'' then (st\<lparr>order := REQUIRE_ORDER\<rparr>, tl optstring)
            else if posixly_correct then (st\<lparr>order := REQUIRE_ORDER\<rparr>, optstring)
            else (st\<lparr>order := PERMUTE\<rparr>, optstring)))"

definition pass_nonopts :: "getopt_state \<Rightarrow> fault + getopt_state" where
  "pass_nonopts st =
     andThen
       (if first_nonopt st \<noteq> last_nonopt st \<and> last_nonopt st \<noteq> optind st then exchange st
        else Inr (if last_nonopt st \<noteq> optind st then st\<lparr>first_nonopt := optind st\<rparr> else st))
       (\<lambda>st. let i = skip_nonopts (drop (optind st) (args st)) (optind st) in Inr (st\<lparr>optind := i, last_nonopt := i\<rparr>))"

definition pass_double_dash :: "getopt_state \<Rightarrow> fault + getopt_state" where
  "pass_double_dash st =
     (if optind st = arg_count st then Inr st
      else
        andThen (arg_at st (optind st)) (\<lambda>a.
          if my_strcmp a ''--'' \<noteq> 0 then Inr st
          else
            (let st = st\<lparr>optind := optind st + 1\<rparr>
             in andThen
                  (if first_nonopt st \<noteq> last_nonopt st \<and> last_nonopt st \<noteq> optind st then exchange st
                   else Inr (if first_nonopt st = last_nonopt st then st\<lparr>first_nonopt := optind st\<rparr> else st))
                  (\<lambda>st. Inr (st\<lparr>optind := arg_count st, last_nonopt := arg_count st\<rparr>)))))"

text \<open>\<open>Some\<close> is a value that is returned at once, \<open>None\<close> means that \<open>nextchar\<close> is at an option.\<close>

definition next_element :: "bool \<Rightarrow> getopt_state \<Rightarrow> fault + int option \<times> getopt_state" where
  "next_element has_longopts st =
     andThen (if order st = PERMUTE then pass_nonopts st else Inr st) (\<lambda>st.
     andThen (pass_double_dash st) (\<lambda>st.
       if optind st = arg_count st
       then Inr (Some EOF, if first_nonopt st \<noteq> last_nonopt st then st\<lparr>optind := first_nonopt st\<rparr> else st)
       else
         andThen (arg_at st (optind st)) (\<lambda>a.
           if is_nonopt a then
             (if order st = REQUIRE_ORDER then Inr (Some EOF, st)
              else Inr (Some 1, st\<lparr>optarg := Some a, optind := optind st + 1\<rparr>))
           else
             Inr (None, st\<lparr>nextchar := Some (drop (1 + (if has_longopts \<and> ch a 1 = CHR ''-'' then 1 else 0)) a)\<rparr>))))"

section \<open>Long options\<close>

text \<open>The search for an exact match or a unique abbreviation of the \<open>len\<close> characters at \<open>nc\<close>.\<close>

fun find_long :: "long_option list \<Rightarrow> string \<Rightarrow> int \<Rightarrow> nat \<Rightarrow> (long_option \<times> nat) option \<Rightarrow> bool \<Rightarrow>
    (long_option \<times> nat) option \<times> bool \<times> bool" where
  "find_long [] nc len i pfound ambig = (pfound, False, ambig)"
| "find_long (p # ps) nc len i pfound ambig =
     (if my_strncmp (opt_name p) nc len = 0 then
        (if len = my_strlen (opt_name p) then (Some (p, i), True, ambig)
         else if pfound = None then find_long ps nc len (i + 1) (Some (p, i)) ambig
         else find_long ps nc len (i + 1) pfound True)
      else find_long ps nc len (i + 1) pfound ambig)"

definition before_equals :: "string \<Rightarrow> string" where
  "before_equals s = takeWhile (\<lambda>c. c \<noteq> CHR ''='') s"

definition from_equals :: "string \<Rightarrow> string" where
  "from_equals s = dropWhile (\<lambda>c. c \<noteq> CHR ''='') s"

definition missing_arg_code :: "string \<Rightarrow> int" where
  "missing_arg_code optstring = (if ch optstring 0 = CHR '':'' then code (CHR '':'') else BAD_OPTION)"

text \<open>The end of a successful long option: the variable it sets and the value returned.\<close>

definition long_result :: "long_option \<Rightarrow> nat \<Rightarrow> getopt_state \<Rightarrow> int \<times> getopt_state" where
  "long_result p i st =
     (let st = st\<lparr>nextchar := Some [], longind := i\<rparr>
      in case flag p of
           Some v \<Rightarrow> (0, st\<lparr>flag_vars := (flag_vars st)(v := val p)\<rparr>)
         | None \<Rightarrow> (val p, st))"

definition no_argument_allowed :: "string \<Rightarrow> long_option \<Rightarrow> string" where
  "no_argument_allowed a p =
     (if ch a 1 = CHR ''-'' then ''option `--'' else ''option `'' @ [ch a 0]) @ opt_name p @ [CHR 0x27] @ '' doesn'' @
     [CHR 0x27] @ ''t allow an argument''"

text \<open>An option was found: its argument is behind the equals sign, or the next element, or missing.\<close>

definition long_found :: "string \<Rightarrow> long_option \<Rightarrow> nat \<Rightarrow> string \<Rightarrow> getopt_state \<Rightarrow> fault + int \<times> getopt_state" where
  "long_found optstring p i nc st0 =
     (let st = st0\<lparr>optind := optind st0 + 1\<rparr>
      in if from_equals nc \<noteq> [] then
           (if has_arg p \<noteq> 0 then Inr (long_result p i (st\<lparr>optarg := Some (tl (from_equals nc))\<rparr>))
            else
              andThen (arg_at st (optind st - 1)) (\<lambda>a.
              andThen (complain (no_argument_allowed a p) st) (\<lambda>st. Inr (BAD_OPTION, st\<lparr>nextchar := Some []\<rparr>))))
         else if has_arg p = 1 then
           (if optind st < arg_count st
            then andThen (arg_at st (optind st)) (\<lambda>a. Inr (long_result p i (st\<lparr>optarg := Some a, optind := optind st + 1\<rparr>)))
            else
              andThen (arg_at st (optind st - 1)) (\<lambda>a.
              andThen (complain (''option `'' @ a @ [CHR 0x27] @ '' requires an argument'') st)
                (\<lambda>st. Inr (missing_arg_code optstring, st\<lparr>nextchar := Some []\<rparr>))))
         else Inr (long_result p i st))"

text \<open>\<open>None\<close> means that the element is to be read as short options.\<close>

definition try_long :: "string \<Rightarrow> long_option list \<Rightarrow> bool \<Rightarrow> string \<Rightarrow> getopt_state \<Rightarrow> fault + int option \<times> getopt_state" where
  "try_long optstring longopts long_only nc st =
     andThen (arg_at st (optind st)) (\<lambda>a.
       if \<not> (ch a 0 = CHR ''-'' \<and> (ch a 1 = CHR ''-'' \<or> long_only)) then Inr (None, st)
       else
         (case find_long longopts nc (int (length (before_equals nc))) 0 None False of
            (pfound, exact, ambig) \<Rightarrow>
              if ambig \<and> \<not> exact then
                andThen (complain (''option `'' @ a @ [CHR 0x27] @ '' is ambiguous'') st)
                  (\<lambda>st. Inr (Some BAD_OPTION, st\<lparr>nextchar := Some [], optind := optind st + 1\<rparr>))
              else
                (case pfound of
                   Some (p, i) \<Rightarrow> andThen (long_found optstring p i nc st) (\<lambda>(c, st). Inr (Some c, st))
                 | None \<Rightarrow>
                     if \<not> long_only \<or> ch a 1 = CHR ''-'' \<or> my_index optstring (ch nc 0) = None then
                       andThen
                         (if ch a 1 = CHR ''-'' then complain (''unrecognized option `--'' @ nc @ [CHR 0x27]) st
                          else complain (''unrecognized option `'' @ [ch a 0] @ nc @ [CHR 0x27]) st)
                         (\<lambda>st. Inr (Some BAD_OPTION, st\<lparr>nextchar := Some [], optind := optind st + 1\<rparr>))
                     else Inr (None, st))))"

section \<open>Short options\<close>

text \<open>\<^verbatim>\<open>char c = *nextchar++; ... if (*nextchar == 0) ++optind;\<close>\<close>

definition take_char :: "string \<Rightarrow> getopt_state \<Rightarrow> getopt_state" where
  "take_char cs st = st\<lparr>nextchar := Some cs, optind := (if cs = [] then optind st + 1 else optind st)\<rparr>"

text \<open>
  The option character is returned as an unsigned value; where \<^verbatim>\<open>char\<close> is signed this differs for characters from 0x80 on, which
  are in no option string of this program.
\<close>

definition short_option :: "string \<Rightarrow> string \<Rightarrow> getopt_state \<Rightarrow> fault + int \<times> getopt_state" where
  "short_option optstring nc st =
     (case nc of
        [] \<Rightarrow> Inl Out_Of_Bounds
      | c # cs \<Rightarrow>
          (let temp = my_index optstring c; st = take_char cs st
           in if temp = None \<or> c = CHR '':'' then
                andThen (complain (''illegal option -- '' @ [c]) st) (\<lambda>st. Inr (BAD_OPTION, st\<lparr>optopt := c\<rparr>))
              else if ch (the temp) 1 \<noteq> CHR '':'' then Inr (code c, st)
              else if ch (the temp) 2 = CHR '':'' then
                (if cs \<noteq> [] then Inr (code c, st\<lparr>optarg := Some cs, optind := optind st + 1, nextchar := None\<rparr>)
                 else Inr (code c, st\<lparr>optarg := None, nextchar := None\<rparr>))
              else if cs \<noteq> [] then Inr (code c, st\<lparr>optarg := Some cs, optind := optind st + 1, nextchar := None\<rparr>)
              else if optind st = arg_count st then
                andThen (complain (''option requires an argument -- '' @ [c]) st)
                  (\<lambda>st. Inr (missing_arg_code optstring, st\<lparr>optopt := c, nextchar := None\<rparr>))
              else
                andThen (arg_at st (optind st)) (\<lambda>a.
                  Inr (code c, st\<lparr>optarg := Some a, optind := optind st + 1, nextchar := None\<rparr>))))"

section \<open>The entry points\<close>

text \<open>Reading an option at \<open>nextchar\<close>: as a long option if there are any and the element looks like one.\<close>

definition read_option :: "string \<Rightarrow> long_option list option \<Rightarrow> bool \<Rightarrow> getopt_state \<Rightarrow> fault + int \<times> getopt_state" where
  "read_option optstring longopts long_only st =
     andThen (case longopts of Some lo \<Rightarrow> try_long optstring lo long_only (the (nextchar st)) st | None \<Rightarrow> Inr (None, st))
       (\<lambda>(r, st). case r of
          Some c \<Rightarrow> Inr (c, st)
        | None \<Rightarrow> short_option optstring (the (nextchar st)) st)"

definition getopt_internal :: "bool \<Rightarrow> string \<Rightarrow> long_option list option \<Rightarrow> bool \<Rightarrow> getopt_state \<Rightarrow> fault + int \<times> getopt_state" where
  "getopt_internal posixly_correct optstring longopts long_only st0 =
     (case start_scan posixly_correct optstring (st0\<lparr>optarg := None\<rparr>) of
        (st, os) \<Rightarrow>
          andThen (if nextchar st = None \<or> nextchar st = Some [] then next_element (longopts \<noteq> None) st else Inr (None, st))
            (\<lambda>(r, st). case r of Some c \<Rightarrow> Inr (c, st) | None \<Rightarrow> read_option os longopts long_only st))"

definition getopt :: "bool \<Rightarrow> string \<Rightarrow> getopt_state \<Rightarrow> fault + int \<times> getopt_state" where
  "getopt posixly_correct optstring st = getopt_internal posixly_correct optstring None False st"

definition getopt_long :: "bool \<Rightarrow> string \<Rightarrow> long_option list \<Rightarrow> getopt_state \<Rightarrow> fault + int \<times> getopt_state" where
  "getopt_long posixly_correct optstring longopts st = getopt_internal posixly_correct optstring (Some longopts) False st"

section \<open>Comparing and exchanging\<close>

lemma code_eq [simp]: "code c = code d \<longleftrightarrow> c = d"
  by (simp add: code_def)

lemma code_0 [simp]: "code (CHR 0x00) = 0" "code c = 0 \<longleftrightarrow> c = CHR 0x00"
proof -
  show zero: "code (CHR 0x00) = 0" by (simp add: code_def)
  show "code c = 0 \<longleftrightarrow> c = CHR 0x00" using code_eq [of c "CHR 0x00"] unfolding zero .
qed

lemma my_strlen_length [simp]: "my_strlen s = int (length s)"
  by (induction s) simp_all

lemma my_strncmp_prefix:
  "CHR 0x00 \<notin> set s \<Longrightarrow> CHR 0x00 \<notin> set t \<Longrightarrow> k \<le> length t \<Longrightarrow>
     my_strncmp s t (int k) = 0 \<longleftrightarrow> (\<exists>r. s = take k t @ r)"
proof (induction s arbitrary: t k)
  case Nil
  then show ?case by (cases t) (auto simp: ch_def)
next
  case (Cons c s)
  show ?case
  proof (cases k)
    case 0
    then show ?thesis by simp
  next
    case (Suc k')
    with Cons.prems obtain d t' where t: "t = d # t'" by (cases t) auto
    with Cons.IH [of t' k'] Cons.prems Suc show ?thesis by (auto simp: ch_def)
  qed
qed

lemma my_strcmp_eq:
  "CHR 0x00 \<notin> set s \<Longrightarrow> CHR 0x00 \<notin> set t \<Longrightarrow> my_strcmp s t = 0 \<longleftrightarrow> s = t"
proof -
  have "my_strncmp s t n = 0 \<longleftrightarrow> s = t" if "CHR 0x00 \<notin> set s" "CHR 0x00 \<notin> set t" "n < 0" for n
    using that
  proof (induction s arbitrary: t n)
    case Nil
    then show ?case by (cases t) (auto simp: ch_def)
  next
    case (Cons c s)
    then show ?case by (cases t) (auto simp: ch_def)
  qed
  then show "CHR 0x00 \<notin> set s \<Longrightarrow> CHR 0x00 \<notin> set t \<Longrightarrow> my_strcmp s t = 0 \<longleftrightarrow> s = t"
    by (simp add: my_strcmp_def)
qed

lemma reverse_loop_rev: "reverse_loop (pre @ mid @ post) (length pre) (length pre + length mid - 1) = Inr (pre @ rev mid @ post)"
proof (induction "length mid" arbitrary: pre mid post rule: less_induct)
  case less
  show ?case
  proof (cases "length mid < 2")
    case True
    then have "rev mid = mid" by (cases mid; cases "tl mid") auto
    moreover have "\<not> length pre < length pre + length mid - 1" using True by simp
    ultimately show ?thesis by (subst reverse_loop.simps) simp
  next
    case False
    then obtain x ys where x: "mid = x # ys" "ys \<noteq> []" by (cases mid; cases "tl mid") auto
    then obtain m y where m: "mid = x # m @ [y]" by (metis append_butlast_last_id)
    let ?av = "pre @ mid @ post" and ?j = "length pre + length mid - 1"
    have j: "?j = length pre + Suc (length m)" using m by simp
    have "?av ! ?j = y" "?av ! length pre = x" unfolding j using m by (auto simp: nth_append)
    moreover have "?av[length pre := y, ?j := x] = (pre @ [y]) @ m @ [x] @ post"
      unfolding j using m by (simp add: list_update_append)
    moreover have "reverse_loop ((pre @ [y]) @ m @ [x] @ post) (length (pre @ [y])) (length (pre @ [y]) + length m - 1)
        = Inr ((pre @ [y]) @ rev m @ [x] @ post)"
      by (rule less.hyps) (simp add: m)
    moreover have "length (pre @ [y]) + length m - 1 = ?j - 1" using j by simp
    ultimately show ?thesis using m by (subst reverse_loop.simps) simp
  qed
qed

lemma exchange_swaps:
  assumes "args st = pre @ nonopts @ opts @ post" "first_nonopt st = length pre" "last_nonopt st = length (pre @ nonopts)"
    "optind st = length (pre @ nonopts @ opts)"
  shows "exchange st = Inr (st\<lparr>args := pre @ opts @ nonopts @ post, first_nonopt := length (pre @ opts), last_nonopt := optind st\<rparr>)"
proof -
  have "reverse_loop (args st) (first_nonopt st) (optind st - 1) = Inr (pre @ rev opts @ rev nonopts @ post)"
    using reverse_loop_rev [of pre "nonopts @ opts" post] assms by (simp add: add.assoc)
  moreover have "reverse_loop (pre @ rev opts @ rev nonopts @ post) (length pre) (length pre + length opts - 1)
      = Inr (pre @ opts @ rev nonopts @ post)"
    using reverse_loop_rev [of pre "rev opts" "rev nonopts @ post"] by simp
  moreover have "reverse_loop (pre @ opts @ rev nonopts @ post) (length pre + length opts) (length pre + length opts + length nonopts - 1)
      = Inr (pre @ opts @ nonopts @ post)"
    using reverse_loop_rev [of "pre @ opts" "rev nonopts" post] by simp
  moreover have "length pre + length nonopts + length opts - (length pre + length nonopts) = length opts" by simp
  moreover have "length pre + length opts + length nonopts - 1 = optind st - 1" using assms(4) by simp
  ultimately show ?thesis using assms by (simp add: exchange_def Let_def)
qed

lemma skip_nonopts_eq: "skip_nonopts av i = i + length (takeWhile is_nonopt av)"
  by (induction av arbitrary: i) simp_all

section \<open>Reference parser\<close>

text \<open>
  What a command line means, independently of positions and permutations: the options in the order in
  which they appear, with the value returned, the argument, and the variable that is set, and the
  operands in their order.
\<close>

datatype event = Event int "string option" "(string \<times> int) option"

datatype choice = Unknown | Ambiguous | Chosen long_option

definition abbreviated :: "string \<Rightarrow> long_option \<Rightarrow> bool" where
  "abbreviated name p = (take (length name) (opt_name p) = name)"

definition choose_long :: "long_option list \<Rightarrow> string \<Rightarrow> choice" where
  "choose_long lo name =
     (case filter (\<lambda>p. opt_name p = name) lo of
        p # _ \<Rightarrow> Chosen p
      | [] \<Rightarrow>
          (case filter (abbreviated name) lo of
             [] \<Rightarrow> Unknown
           | [p] \<Rightarrow> Chosen p
           | _ \<Rightarrow> Ambiguous))"

definition chosen_event :: "long_option \<Rightarrow> string option \<Rightarrow> event" where
  "chosen_event p a = (case flag p of Some v \<Rightarrow> Event 0 a (Some (v, val p)) | None \<Rightarrow> Event (val p) a None)"

definition long_event :: "string \<Rightarrow> long_option list \<Rightarrow> string \<Rightarrow> string list \<Rightarrow> event \<times> string list" where
  "long_event os lo nc rest =
     (case choose_long lo (before_equals nc) of
        Chosen p \<Rightarrow>
          if from_equals nc \<noteq> [] then
            (if has_arg p \<noteq> 0 then chosen_event p (Some (tl (from_equals nc))) else Event BAD_OPTION None None, rest)
          else if has_arg p = 1 then
            (case rest of
               [] \<Rightarrow> (Event (missing_arg_code os) None None, [])
             | r # rs \<Rightarrow> (chosen_event p (Some r), rs))
          else (chosen_event p None, rest)
      | _ \<Rightarrow> (Event BAD_OPTION None None, rest))"

fun short_events :: "string \<Rightarrow> string \<Rightarrow> string list \<Rightarrow> event list \<times> string list" where
  "short_events os [] rest = ([], rest)"
| "short_events os (c # cs) rest =
     (let more = (\<lambda>e. case short_events os cs rest of (es, rest') \<Rightarrow> (e # es, rest'))
      in case my_index os c of
           None \<Rightarrow> more (Event BAD_OPTION None None)
         | Some t \<Rightarrow>
             if c = CHR '':'' then more (Event BAD_OPTION None None)
             else if ch t 1 \<noteq> CHR '':'' then more (Event (code c) None None)
             else if cs \<noteq> [] then ([Event (code c) (Some cs) None], rest)
             else if ch t 2 = CHR '':'' then ([Event (code c) None None], rest)
             else
               (case rest of
                  [] \<Rightarrow> ([Event (missing_arg_code os) None None], [])
                | r # rs \<Rightarrow> ([Event (code c) (Some r) None], rs)))"

lemma long_event_shorter: "long_event os lo nc rest = (e, rest') \<Longrightarrow> length rest' \<le> length rest"
  by (auto simp: long_event_def split: choice.splits if_splits list.splits)

lemma short_events_shorter: "short_events os cs rest = (es, rest') \<Longrightarrow> length rest' \<le> length rest"
  by (induction os cs rest arbitrary: es rest' rule: short_events.induct)
    (auto simp: Let_def split: option.splits if_splits list.splits prod.splits)

function parse :: "string \<Rightarrow> long_option list \<Rightarrow> string list \<Rightarrow> event list \<times> string list" where
  "parse os lo [] = ([], [])"
| "parse os lo (a # av) =
     (if a = ''--'' then ([], av)
      else if is_nonopt a then (case parse os lo av of (es, operands) \<Rightarrow> (es, a # operands))
      else if ch a 1 = CHR ''-'' then
        (case long_event os lo (drop 2 a) av of (e, av') \<Rightarrow>
           (case parse os lo av' of (es, operands) \<Rightarrow> (e # es, operands)))
      else
        (case short_events os (drop 1 a) av of (es, av') \<Rightarrow>
           (case parse os lo av' of (es', operands) \<Rightarrow> (es @ es', operands))))"
  by pat_completeness auto
termination
  by (relation "measure (\<lambda>(os, lo, av). length av)")
    (auto dest: long_event_shorter [OF sym] short_events_shorter [OF sym] simp: le_imp_less_Suc)

declare parse.simps(2) [simp del]

text \<open>The search loop makes the choice of the reference.\<close>

definition compares :: "long_option list \<Rightarrow> string \<Rightarrow> string \<Rightarrow> bool" where
  "compares lo nc name \<longleftrightarrow>
     (\<forall>q \<in> set lo. (my_strncmp (opt_name q) nc (int (length name)) = 0) = abbreviated name q)"

lemma find_long_exact:
  "filter (\<lambda>p. opt_name p = name) lo = p # ps \<Longrightarrow> compares lo nc name \<Longrightarrow>
     \<exists>i' amb. find_long lo nc (int (length name)) i pf ambig = (Some (p, i'), True, amb)"
proof (induction lo arbitrary: i pf ambig)
  case (Cons q lo)
  have IH: "\<exists>i' amb. find_long lo nc (int (length name)) i pf ambig = (Some (p, i'), True, amb)"
    if "opt_name q \<noteq> name" for i pf ambig
    using Cons.IH Cons.prems that by (simp add: compares_def)
  show ?case
  proof (cases "opt_name q = name")
    case True
    with Cons.prems show ?thesis by (auto simp: compares_def abbreviated_def)
  next
    case False
    then have "\<not> (abbreviated name q \<and> length name = length (opt_name q))" by (auto simp: abbreviated_def)
    with IH [OF False] Cons.prems(2) show ?thesis by (simp add: compares_def)
  qed
qed simp

lemma find_long_second:
  "filter (\<lambda>p. opt_name p = name) lo = [] \<Longrightarrow> compares lo nc name \<Longrightarrow>
     find_long lo nc (int (length name)) i (Some pf) ambig = (Some pf, False, ambig \<or> filter (abbreviated name) lo \<noteq> [])"
proof (induction lo arbitrary: i ambig)
  case (Cons q lo)
  then have ne: "\<not> (abbreviated name q \<and> length name = length (opt_name q))" by (auto simp: abbreviated_def split: if_splits)
  have "compares lo nc name" "filter (\<lambda>p. opt_name p = name) lo = []" using Cons.prems by (auto simp: compares_def split: if_splits)
  with Cons.IH Cons.prems(2) ne show ?case by (auto simp: compares_def)
qed simp

lemma find_long_first:
  "filter (\<lambda>p. opt_name p = name) lo = [] \<Longrightarrow> compares lo nc name \<Longrightarrow>
     (case filter (abbreviated name) lo of
        [] \<Rightarrow> find_long lo nc (int (length name)) i None False = (None, False, False)
      | p # ps \<Rightarrow> \<exists>i'. find_long lo nc (int (length name)) i None False = (Some (p, i'), False, ps \<noteq> []))"
proof (induction lo arbitrary: i)
  case (Cons q lo)
  then have ne: "\<not> (abbreviated name q \<and> length name = length (opt_name q))" by (auto simp: abbreviated_def split: if_splits)
  have rest: "compares lo nc name" "filter (\<lambda>p. opt_name p = name) lo = []" using Cons.prems by (auto simp: compares_def split: if_splits)
  have cmp: "(my_strncmp (opt_name q) nc (int (length name)) = 0) = abbreviated name q" using Cons.prems(2) by (simp add: compares_def)
  show ?case
  proof (cases "abbreviated name q")
    case True
    with ne cmp find_long_second [OF rest(2,1)] show ?thesis by simp
  next
    case False
    with cmp Cons.IH [OF rest(2,1), of "i + 1"] show ?thesis by (cases "filter (abbreviated name) lo") auto
  qed
qed simp

lemma find_long_chooses:
  assumes "compares lo nc name"
  shows "case choose_long lo name of
      Chosen p \<Rightarrow> \<exists>i exact ambig. find_long lo nc (int (length name)) 0 None False = (Some (p, i), exact, ambig) \<and> (exact \<or> \<not> ambig)
    | Ambiguous \<Rightarrow> \<exists>pf. find_long lo nc (int (length name)) 0 None False = (pf, False, True)
    | Unknown \<Rightarrow> find_long lo nc (int (length name)) 0 None False = (None, False, False)"
proof (cases "filter (\<lambda>p. opt_name p = name) lo")
  case (Cons p ps)
  with find_long_exact [OF Cons assms] show ?thesis by (fastforce simp: choose_long_def)
next
  case Nil
  from find_long_first [OF Nil assms, of 0] show ?thesis
    unfolding choose_long_def Nil by (auto split: list.splits)
qed

section \<open>The parser implements the reference\<close>

text \<open>
  The argument vector in the middle of a scan: what has been dealt with, operands that were passed over,
  options read since then, and the rest.
\<close>

definition layout :: "getopt_state \<Rightarrow> string list \<Rightarrow> string list \<Rightarrow> string list \<Rightarrow> string list \<Rightarrow> bool" where
  "layout st pre nonopts opts rest \<longleftrightarrow>
     pre \<noteq> [] \<and> args st = pre @ nonopts @ opts @ rest \<and> first_nonopt st = length pre \<and>
     last_nonopt st = length (pre @ nonopts) \<and> optind st = length (pre @ nonopts @ opts)"

text \<open>The fields that moving through the vector leaves alone.\<close>

definition same_rest :: "getopt_state \<Rightarrow> getopt_state \<Rightarrow> bool" where
  "same_rest st st' \<longleftrightarrow>
     optarg st' = optarg st \<and> nextchar st' = nextchar st \<and> order st' = order st \<and> flag_vars st' = flag_vars st \<and>
     mset (args st') = mset (args st)"

lemma complain_ok:
  "args st \<noteq> [] \<Longrightarrow> \<exists>m. complain t st = Inr (st\<lparr>messages := m\<rparr>)"
  by (auto simp: complain_def arg_at_def intro: exI [of _ "messages st"])

lemma pass_nonopts_layout:
  assumes "layout st pre nonopts opts rest"
  obtains st1 where "pass_nonopts st = Inr st1" "same_rest st st1"
    "layout st1 (pre @ opts) (nonopts @ takeWhile is_nonopt rest) [] (dropWhile is_nonopt rest)"
proof -
  define st0 where "st0 = st\<lparr>args := pre @ opts @ nonopts @ rest, first_nonopt := length (pre @ opts), last_nonopt := optind st\<rparr>"
  let ?i = "optind st + length (takeWhile is_nonopt rest)"
  have "pass_nonopts st = Inr (st0\<lparr>optind := ?i, last_nonopt := ?i\<rparr>)"
  proof (cases "nonopts \<noteq> [] \<and> opts \<noteq> []")
    case True
    then show ?thesis using assms exchange_swaps [of st pre nonopts opts rest]
      by (auto simp: pass_nonopts_def layout_def st0_def skip_nonopts_eq Let_def)
  next
    case False
    then show ?thesis using assms
      by (cases nonopts; cases opts) (auto simp: pass_nonopts_def layout_def st0_def skip_nonopts_eq Let_def)
  qed
  moreover have "layout (st0\<lparr>optind := ?i, last_nonopt := ?i\<rparr>) (pre @ opts) (nonopts @ takeWhile is_nonopt rest) [] (dropWhile is_nonopt rest)"
    using assms by (simp add: layout_def st0_def)
  moreover have "same_rest st (st0\<lparr>optind := ?i, last_nonopt := ?i\<rparr>)"
    using assms by (simp add: layout_def st0_def same_rest_def)
  ultimately show thesis using that by blast
qed

lemma pass_double_dash_other:
  assumes "layout st pre nonopts [] rest" "rest \<noteq> [] \<longrightarrow> my_strcmp (hd rest) ''--'' \<noteq> 0"
  shows "pass_double_dash st = Inr st"
  using assms by (cases rest) (auto simp: pass_double_dash_def layout_def arg_at_def nth_append)

lemma pass_double_dash_layout:
  assumes "layout st pre nonopts [] (''--'' # av)"
  obtains st1 where "pass_double_dash st = Inr st1" "same_rest st st1" "optind st1 = arg_count st1" "last_nonopt st1 = arg_count st1"
    "drop (first_nonopt st1) (args st1) = nonopts @ av" "first_nonopt st1 \<le> arg_count st1"
proof -
  define st0 where "st0 = st\<lparr>optind := optind st + 1\<rparr>"
  define st1 where "st1 = st0\<lparr>args := pre @ [''--''] @ nonopts @ av, first_nonopt := length (pre @ [''--'']), last_nonopt := optind st0\<rparr>"
  have a: "arg_at st (optind st) = Inr ''--''" "optind st \<noteq> arg_count st"
    using assms by (auto simp: layout_def arg_at_def nth_append)
  have "my_strcmp ''--'' ''--'' = 0" by (simp add: my_strcmp_eq)
  moreover have "(if first_nonopt st0 \<noteq> last_nonopt st0 \<and> last_nonopt st0 \<noteq> optind st0 then exchange st0
      else Inr (if first_nonopt st0 = last_nonopt st0 then st0\<lparr>first_nonopt := optind st0\<rparr> else st0)) =
      Inr (if nonopts = [] then st0\<lparr>first_nonopt := optind st0\<rparr> else st1)"
    using assms exchange_swaps [of st0 pre nonopts "[''--'']" av] by (auto simp: layout_def st0_def st1_def)
  ultimately have "pass_double_dash st =
      Inr ((if nonopts = [] then st0\<lparr>first_nonopt := optind st0\<rparr> else st1)\<lparr>optind := arg_count st, last_nonopt := arg_count st\<rparr>)"
    using a assms unfolding pass_double_dash_def st0_def [symmetric]
    by (simp add: Let_def) (auto simp: st0_def st1_def layout_def)
  moreover have "same_rest st st1" "same_rest st st0" using assms by (auto simp: st1_def st0_def same_rest_def layout_def)
  ultimately show thesis
    using that assms by (cases nonopts) (auto simp: layout_def same_rest_def st0_def st1_def)
qed


lemma parse_nonopts:
  "parse os lo rest = (case parse os lo (dropWhile is_nonopt rest) of (es, ops) \<Rightarrow> (es, takeWhile is_nonopt rest @ ops))"
proof (induction rest)
  case (Cons a rest)
  show ?case
  proof (cases "is_nonopt a")
    case True
    then have "a \<noteq> ''--''" by (auto simp: is_nonopt_def ch_def)
    then have "parse os lo (a # rest) = (case parse os lo rest of (es, operands) \<Rightarrow> (es, a # operands))"
      using True by (simp add: parse.simps(2) [of os lo a rest])
    with Cons True show ?thesis by (cases "parse os lo (dropWhile is_nonopt rest)") simp
  next
    case False
    then show ?thesis by (cases "parse os lo (a # rest)") simp
  qed
qed simp

text \<open>Looking for the next element: the end of the scan, or the first character of an option element.\<close>

lemma next_element_ends:
  assumes l: "layout st pre nonopts opts rest" and p: "order st = PERMUTE"
    and fin: "dropWhile is_nonopt rest = [] \<or> (\<exists>av. dropWhile is_nonopt rest = ''--'' # av)"
    and ops: "parse os lo rest = (es, operands)"
  obtains st' where "next_element lng st = Inr (Some EOF, st')" "drop (optind st') (args st') = nonopts @ operands" "es = []"
    "same_rest st st'" "optind st' \<le> arg_count st'"
proof -
  obtain st1 where s1: "pass_nonopts st = Inr st1" "same_rest st st1"
    "layout st1 (pre @ opts) (nonopts @ takeWhile is_nonopt rest) [] (dropWhile is_nonopt rest)"
    using pass_nonopts_layout [OF l] by blast
  obtain ops' where ops': "parse os lo (dropWhile is_nonopt rest) = (es, ops')" "operands = takeWhile is_nonopt rest @ ops'"
    using ops by (auto simp: parse_nonopts [of os lo rest] split: prod.splits)
  obtain st2 where s2: "pass_double_dash st1 = Inr st2" "same_rest st st2" "optind st2 = arg_count st2" "last_nonopt st2 = arg_count st2"
    "drop (first_nonopt st2) (args st2) = nonopts @ operands" "es = []" "first_nonopt st2 \<le> arg_count st2"
  proof (cases "dropWhile is_nonopt rest")
    case Nil
    with pass_double_dash_other [OF s1(3)] s1(3) ops' show thesis
      by (intro that [of st1]) (auto simp: layout_def s1(2))
  next
    case (Cons a av)
    with fin have a: "dropWhile is_nonopt rest = ''--'' # av" by auto
    obtain st2 where "pass_double_dash st1 = Inr st2" "same_rest st1 st2" "optind st2 = arg_count st2" "last_nonopt st2 = arg_count st2"
      "drop (first_nonopt st2) (args st2) = (nonopts @ takeWhile is_nonopt rest) @ av" "first_nonopt st2 \<le> arg_count st2"
      using pass_double_dash_layout [OF s1(3) [unfolded a]] by blast
    with ops' a s1(2) show thesis by (intro that [of st2]) (auto simp: parse.simps same_rest_def)
  qed
  let ?st' = "if first_nonopt st2 \<noteq> last_nonopt st2 then st2\<lparr>optind := first_nonopt st2\<rparr> else st2"
  have "next_element lng st = Inr (Some EOF, ?st')" using s1(1) s2(1,3) p by (simp add: next_element_def)
  moreover have "drop (optind ?st') (args ?st') = nonopts @ operands" using s2(3-5) by auto
  moreover have "same_rest st ?st'" using s2(2) by (auto simp: same_rest_def)
  moreover have "optind ?st' \<le> arg_count ?st'" using s2(3,7) by auto
  ultimately show thesis using s2(6) that by blast
qed

lemma next_element_option:
  assumes l: "layout st pre nonopts opts rest" and p: "order st = PERMUTE"
    and a: "dropWhile is_nonopt rest = a # av" "a \<noteq> ''--''" "CHR 0x00 \<notin> set a"
  obtains st' where "next_element True st = Inr (None, st')"
    "nextchar st' = Some (drop (if ch a 1 = CHR ''-'' then 2 else 1) a)"
    "layout st' (pre @ opts) (nonopts @ takeWhile is_nonopt rest) [] (a # av)"
    "same_rest (st\<lparr>nextchar := nextchar st'\<rparr>) st'"
proof -
  obtain st1 where s1: "pass_nonopts st = Inr st1" "same_rest st st1"
    "layout st1 (pre @ opts) (nonopts @ takeWhile is_nonopt rest) [] (a # av)"
    using pass_nonopts_layout [OF l] a(1) by metis
  have dd: "pass_double_dash st1 = Inr st1" using pass_double_dash_other [OF s1(3)] a(2,3) my_strcmp_eq [of a "''--''"] by auto
  have na: "\<not> is_nonopt a" using a(1) by (metis dropWhile_eq_Cons_conv)
  let ?st' = "st1\<lparr>nextchar := Some (drop (if ch a 1 = CHR ''-'' then 2 else 1) a)\<rparr>"
  have "arg_at st1 (optind st1) = Inr a" "optind st1 \<noteq> arg_count st1"
    using s1(3) by (auto simp: layout_def arg_at_def nth_append)
  then have "next_element True st = Inr (None, ?st')"
    using s1(1) dd p na by (auto simp: next_element_def numeral_2_eq_2)
  moreover have "layout ?st' (pre @ opts) (nonopts @ takeWhile is_nonopt rest) [] (a # av)" using s1(3) by (simp add: layout_def)
  ultimately show thesis using that [of ?st'] s1(2) by (simp add: same_rest_def)
qed

text \<open>An element of short options.\<close>

definition in_cluster :: "getopt_state \<Rightarrow> string \<Rightarrow> string list \<Rightarrow> string list \<Rightarrow> bool" where
  "in_cluster st cl rest nonopts \<longleftrightarrow>
     order st = PERMUTE \<and>
     (if cl = [] then (\<exists>pre opts. layout st pre nonopts opts rest) \<and> (nextchar st = None \<or> nextchar st = Some [])
      else (\<exists>pre opts a. layout st pre nonopts opts (a # rest) \<and> ch a 1 \<noteq> CHR ''-'') \<and> nextchar st = Some cl)"

lemma layout_next: "layout st pre nonopts opts (a # rest) \<Longrightarrow> optind st' = Suc (optind st) \<Longrightarrow> args st' = args st \<Longrightarrow>
    first_nonopt st' = first_nonopt st \<Longrightarrow> last_nonopt st' = last_nonopt st \<Longrightarrow> layout st' pre nonopts (opts @ [a]) rest"
  by (simp add: layout_def)

lemma layout_messages: "layout (st\<lparr>messages := m\<rparr>) pre nonopts opts rest = layout st pre nonopts opts rest"
  by (simp add: layout_def)


lemma in_clusterI:
  "layout st pre nonopts opts rest \<Longrightarrow> order st = PERMUTE \<Longrightarrow> nextchar st = None \<or> nextchar st = Some [] \<Longrightarrow>
     in_cluster st [] rest nonopts"
  by (auto simp: in_cluster_def)

lemma in_cluster_moved:
  assumes "layout st pre nonopts opts (a # rest)" "ch a 1 \<noteq> CHR ''-''" "order st = PERMUTE"
    "args st' = args st" "first_nonopt st' = first_nonopt st" "last_nonopt st' = last_nonopt st" "order st' = order st"
    "optind st' = (if cs = [] then Suc (optind st) else optind st)" "nextchar st' = Some cs \<or> cs = [] \<and> nextchar st' = None"
  shows "in_cluster st' cs rest nonopts"
  using assms layout_next [OF assms(1), of st']
  by (auto simp: in_cluster_def layout_def)

lemma short_option_step:
  assumes ic: "in_cluster st (c # cs) rest nonopts" and oa: "optarg st = None"
    and ev: "short_events os (c # cs) rest = (evs, r)"
  obtains k st' cl' rest' es where "short_option os (c # cs) st = Inr (k, st')" "evs = Event k (optarg st') None # es"
    "in_cluster st' cl' rest' nonopts" "short_events os cl' rest' = (es, r)" "flag_vars st' = flag_vars st" "mset (args st') = mset (args st)"
proof -
  obtain pre opts a where l: "layout st pre nonopts opts (a # rest)" and a: "ch a 1 \<noteq> CHR ''-''" and p: "order st = PERMUTE"
    and nc: "nextchar st = Some (c # cs)" using ic by (auto simp: in_cluster_def)
  define st0 where "st0 = take_char cs st"
  note so = short_option_def [of os "c # cs" st, simplified list.case Let_def, folded st0_def]
  have ne: "args st0 \<noteq> []" using l by (simp add: st0_def take_char_def layout_def)
  obtain es1 r1 where rec: "short_events os cs rest = (es1, r1)" by (cases "short_events os cs rest")
  note moved = in_cluster_moved [OF l a p]
  consider (bad) "my_index os c = None \<or> c = CHR '':''"
    | (plain) t where "my_index os c = Some t" "c \<noteq> CHR '':''" "ch t 1 \<noteq> CHR '':''"
    | (glued) t where "my_index os c = Some t" "c \<noteq> CHR '':''" "ch t 1 = CHR '':''" "cs \<noteq> []"
    | (opt) t where "my_index os c = Some t" "c \<noteq> CHR '':''" "ch t 1 = CHR '':''" "cs = []" "ch t 2 = CHR '':''"
    | (missing) t where "my_index os c = Some t" "c \<noteq> CHR '':''" "ch t 1 = CHR '':''" "cs = []" "ch t 2 \<noteq> CHR '':''" "rest = []"
    | (following) t x rs where "my_index os c = Some t" "c \<noteq> CHR '':''" "ch t 1 = CHR '':''" "cs = []" "ch t 2 \<noteq> CHR '':''" "rest = x # rs"
    by (cases "my_index os c"; cases rest) auto
  then show thesis
  proof cases
    case bad
    obtain m where m: "complain (''illegal option -- '' @ [c]) st0 = Inr (st0\<lparr>messages := m\<rparr>)" using complain_ok [OF ne] by blast
    let ?st' = "st0\<lparr>messages := m, optopt := c\<rparr>"
    have "in_cluster ?st' cs rest nonopts" by (rule moved) (simp_all add: st0_def take_char_def)
    moreover have "evs = Event BAD_OPTION None None # es1 \<and> r1 = r" using bad ev rec by (auto simp: Let_def split: option.splits)
    ultimately show thesis using that [of BAD_OPTION ?st' es1 cs rest] bad m so rec oa
      by (auto simp: st0_def take_char_def)
  next
    case plain
    have "in_cluster st0 cs rest nonopts" by (rule moved) (simp_all add: st0_def take_char_def)
    then show thesis using that [of "code c" st0 es1 cs rest] plain so ev rec oa by (auto simp: st0_def take_char_def Let_def)
  next
    case glued
    let ?st' = "st0\<lparr>optarg := Some cs, optind := optind st0 + 1, nextchar := None\<rparr>"
    have "in_cluster ?st' [] rest nonopts" by (rule moved) (use glued in \<open>simp_all add: st0_def take_char_def\<close>)
    then show thesis using that [of "code c" ?st' "[]" "[]" rest] glued so ev by (auto simp: st0_def take_char_def Let_def)
  next
    case opt
    let ?st' = "st0\<lparr>optarg := None, nextchar := None\<rparr>"
    have "in_cluster ?st' [] rest nonopts" by (rule moved) (use opt in \<open>simp_all add: st0_def take_char_def\<close>)
    then show thesis using that [of "code c" ?st' "[]" "[]" rest] opt so ev by (auto simp: st0_def take_char_def Let_def)
  next
    case missing
    obtain m where m: "complain (''option requires an argument -- '' @ [c]) st0 = Inr (st0\<lparr>messages := m\<rparr>)" using complain_ok [OF ne] by blast
    let ?st' = "st0\<lparr>messages := m, optopt := c, nextchar := None\<rparr>"
    have "in_cluster ?st' [] rest nonopts" by (rule moved) (use missing in \<open>simp_all add: st0_def take_char_def\<close>)
    moreover have "optind st0 = arg_count st0" using l missing by (simp add: st0_def take_char_def layout_def)
    ultimately show thesis using that [of "missing_arg_code os" ?st' "[]" "[]" rest] missing so ev m oa by (auto simp: st0_def take_char_def Let_def)
  next
    case following
    let ?st' = "st0\<lparr>optarg := Some x, optind := optind st0 + 1, nextchar := None\<rparr>"
    have l0: "layout st0 pre nonopts (opts @ [a]) (x # rs)" using layout_next [OF l, of st0] following by (simp add: st0_def take_char_def)
    have "layout ?st' pre nonopts ((opts @ [a]) @ [x]) rs" by (rule layout_next [OF l0]) simp_all
    then have "in_cluster ?st' [] rs nonopts" using p by (intro in_clusterI) (simp_all add: st0_def take_char_def)
    moreover have "optind st0 \<noteq> arg_count st0" "arg_at st0 (optind st0) = Inr x" using l0 by (auto simp: layout_def arg_at_def nth_append)
    ultimately show thesis using that [of "code c" ?st' "[]" "[]" rs] following so ev by (auto simp: st0_def take_char_def Let_def)
  qed
qed


text \<open>An element with a long option.\<close>

lemma compares_ok:
  assumes "CHR 0x00 \<notin> set nc" "\<And>p. p \<in> set lo \<Longrightarrow> CHR 0x00 \<notin> set (opt_name p)"
  shows "compares lo nc (before_equals nc)"
  unfolding compares_def
proof
  fix q
  assume q: "q \<in> set lo"
  let ?k = "length (before_equals nc)"
  have k: "?k \<le> length nc" by (simp add: before_equals_def length_takeWhile_le)
  have t: "take ?k nc = before_equals nc" unfolding before_equals_def by (rule takeWhile_eq_take [symmetric])
  have "my_strncmp (opt_name q) nc (int ?k) = 0 \<longleftrightarrow> (\<exists>r. opt_name q = before_equals nc @ r)"
    using my_strncmp_prefix [OF assms(2) [OF q] assms(1) k] unfolding t .
  also have "\<dots> \<longleftrightarrow> abbreviated (before_equals nc) q"
    unfolding abbreviated_def by (metis append_eq_conv_conj)
  finally show "(my_strncmp (opt_name q) nc (int ?k) = 0) = abbreviated (before_equals nc) q" .
qed

definition applied :: "(string \<times> int) option \<Rightarrow> (string \<Rightarrow> int) \<Rightarrow> string \<Rightarrow> int" where
  "applied f vars = (case f of None \<Rightarrow> vars | Some (v, k) \<Rightarrow> vars(v := k))"

text \<open>A call that delivers an event and stands before the rest of the arguments.\<close>

definition delivers :: "getopt_state \<Rightarrow> int \<times> getopt_state \<Rightarrow> event \<Rightarrow> bool" where
  "delivers st res e = (\<exists>f. e = Event (fst res) (optarg (snd res)) f \<and> flag_vars (snd res) = applied f (flag_vars st) \<and>
     mset (args (snd res)) = mset (args st))"

lemma delivers_chosen:
  "flag_vars st1 = flag_vars st \<Longrightarrow> mset (args st1) = mset (args st) \<Longrightarrow>
     delivers st (long_result q i st1) (chosen_event q (optarg st1))"
  by (auto simp: delivers_def long_result_def chosen_event_def applied_def Let_def split: option.splits)

lemma in_cluster_result:
  assumes "layout st pre nonopts opts rest" "order st = PERMUTE"
  shows "in_cluster (snd (long_result q i st)) [] rest nonopts"
  by (rule in_clusterI [of _ pre _ opts]) (use assms in \<open>auto simp: layout_def long_result_def Let_def split: option.splits\<close>)

lemma long_found_step:
  assumes l: "layout st pre nonopts opts (a # rest)" and p: "order st = PERMUTE" and oa: "optarg st = None"
    and cho: "choose_long lo (before_equals nc) = Chosen q" and ev: "long_event os lo nc rest = (e, rest')"
  shows "\<exists>res. long_found os q i nc st = Inr res \<and> delivers st res e \<and> in_cluster (snd res) [] rest' nonopts"
proof -
  define st0 where "st0 = st\<lparr>optind := optind st + 1\<rparr>"
  note lf = long_found_def [of os q i nc st, unfolded Let_def, folded st0_def]
  have l0: "layout st0 pre nonopts (opts @ [a]) rest" by (rule layout_next [OF l]) (simp_all add: st0_def)
  have ne: "args st0 \<noteq> []" "arg_at st0 (optind st0 - 1) = Inr a" "order st0 = PERMUTE" "optarg st0 = None"
    using l p oa by (auto simp: st0_def layout_def arg_at_def nth_append)
  have bad: "\<exists>res. andThen (complain t st0) (\<lambda>st. Inr (k, st\<lparr>nextchar := Some []\<rparr>)) = Inr res \<and>
      delivers st res (Event k None None) \<and> in_cluster (snd res) [] rest nonopts" for t k
  proof -
    obtain m where m: "complain t st0 = Inr (st0\<lparr>messages := m\<rparr>)" using complain_ok [OF ne(1)] by blast
    have "in_cluster (st0\<lparr>messages := m, nextchar := Some []\<rparr>) [] rest nonopts"
      by (rule in_clusterI [of _ pre _ "opts @ [a]"]) (use l0 ne in \<open>auto simp: layout_def\<close>)
    then show ?thesis using m ne(4) by (auto simp: delivers_def applied_def st0_def)
  qed
  consider (glued) "from_equals nc \<noteq> []" "has_arg q \<noteq> 0" | (extra) "from_equals nc \<noteq> []" "has_arg q = 0"
    | (following) x rs where "from_equals nc = []" "has_arg q = 1" "rest = x # rs"
    | (missing) "from_equals nc = []" "has_arg q = 1" "rest = []"
    | (none) "from_equals nc = []" "has_arg q \<noteq> 1"
    by (cases rest) auto
  then show ?thesis
  proof cases
    case glued
    let ?st1 = "st0\<lparr>optarg := Some (tl (from_equals nc))\<rparr>"
    have "layout ?st1 pre nonopts (opts @ [a]) rest" using l0 by (simp add: layout_def)
    with glued ev cho lf delivers_chosen [of ?st1 st q i] in_cluster_result [of ?st1] ne(3) show ?thesis
      by (auto simp: long_event_def st0_def)
  next
    case extra
    with bad [of "no_argument_allowed a q" BAD_OPTION] ev cho lf ne(2) show ?thesis by (auto simp: long_event_def)
  next
    case following
    let ?st1 = "st0\<lparr>optarg := Some x, optind := optind st0 + 1\<rparr>"
    have "layout ?st1 pre nonopts ((opts @ [a]) @ [x]) rs" by (rule layout_next [OF l0 [unfolded following(3)]]) simp_all
    moreover have "arg_at st0 (optind st0) = Inr x" "optind st0 < arg_count st0"
      using l0 following(3) by (auto simp: layout_def arg_at_def nth_append)
    ultimately show ?thesis
      using following ev cho lf delivers_chosen [of ?st1 st q i] in_cluster_result [of ?st1] ne(3)
      by (auto simp: long_event_def st0_def)
  next
    case missing
    then have "\<not> optind st0 < arg_count st0" using l0 by (simp add: layout_def)
    with missing bad [of "''option `'' @ a @ [CHR 0x27] @ '' requires an argument''" "missing_arg_code os"] ev cho lf ne(2)
    show ?thesis by (auto simp: long_event_def)
  next
    case none
    with ev cho lf delivers_chosen [of st0 st q i] in_cluster_result [OF l0] ne(3,4) show ?thesis
      by (auto simp: long_event_def st0_def)
  qed
qed

lemma try_long_step:
  assumes l: "layout st pre nonopts opts (a # rest)" and p: "order st = PERMUTE" and oa: "optarg st = None"
    and a: "ch a 0 = CHR ''-''" "ch a 1 = CHR ''-''" and cmp: "compares lo nc (before_equals nc)"
    and ev: "long_event os lo nc rest = (e, rest')"
  shows "\<exists>res. try_long os lo False nc st = Inr (Some (fst res), snd res) \<and> delivers st res e \<and> in_cluster (snd res) [] rest' nonopts"
proof -
  have ne: "args st \<noteq> []" "arg_at st (optind st) = Inr a" using l by (auto simp: layout_def arg_at_def nth_append)
  have bad: "\<exists>res. andThen (complain t st) (\<lambda>st. Inr (Some BAD_OPTION, st\<lparr>nextchar := Some [], optind := optind st + 1\<rparr>)) =
      Inr (Some (fst res), snd res) \<and> delivers st res (Event BAD_OPTION None None) \<and> in_cluster (snd res) [] rest nonopts" for t
  proof -
    obtain m where m: "complain t st = Inr (st\<lparr>messages := m\<rparr>)" using complain_ok [OF ne(1)] by blast
    let ?st1 = "st\<lparr>messages := m, nextchar := Some [], optind := optind st + 1\<rparr>"
    have "layout ?st1 pre nonopts (opts @ [a]) rest" by (rule layout_next [OF l]) simp_all
    then have "in_cluster ?st1 [] rest nonopts" by (rule in_clusterI) (use p in simp_all)
    then show ?thesis using m oa by (auto simp: delivers_def applied_def)
  qed
  note tl = try_long_def [of os lo False nc st] and found = find_long_chooses [OF cmp]
  show ?thesis
  proof (cases "choose_long lo (before_equals nc)")
    case Unknown
    with found bad [of "''unrecognized option `--'' @ nc @ [CHR 0x27]"] tl ne(2) a ev show ?thesis by (auto simp: long_event_def)
  next
    case Ambiguous
    with found bad [of "''option `'' @ a @ [CHR 0x27] @ '' is ambiguous''"] tl ne(2) a ev show ?thesis by (auto simp: long_event_def)
  next
    case (Chosen q)
    with found obtain i exact ambig where f: "find_long lo nc (int (length (before_equals nc))) 0 None False = (Some (q, i), exact, ambig)"
      "exact \<or> \<not> ambig" by auto
    from long_found_step [OF l p oa Chosen ev, of i] obtain res where
      "long_found os q i nc st = Inr res" "delivers st res e" "in_cluster (snd res) [] rest' nonopts" by blast
    with f tl ne(2) a show ?thesis by (cases res) auto
  qed
qed


text \<open>One call, from the first character of an element or from the middle of a group of short options.\<close>

definition remaining :: "string \<Rightarrow> long_option list \<Rightarrow> string \<Rightarrow> string list \<Rightarrow> event list \<times> string list" where
  "remaining os lo cl rest =
     (case short_events os cl rest of (es, rest') \<Rightarrow> (case parse os lo rest' of (es', operands) \<Rightarrow> (es @ es', operands)))"

definition tidy :: "long_option list \<Rightarrow> string list \<Rightarrow> bool" where
  "tidy lo av \<longleftrightarrow> (\<forall>p \<in> set lo. CHR 0x00 \<notin> set (opt_name p)) \<and> (\<forall>a \<in> set av. CHR 0x00 \<notin> set a)"

definition next_is :: "string \<Rightarrow> long_option list \<Rightarrow> getopt_state \<Rightarrow> int \<times> getopt_state \<Rightarrow> event \<Rightarrow> event list \<Rightarrow> string list \<Rightarrow> bool" where
  "next_is os lo st res e es operands \<longleftrightarrow>
     delivers st res e \<and>
     (\<exists>cl rest nonopts ops. in_cluster (snd res) cl rest nonopts \<and> remaining os lo cl rest = (es, ops) \<and> operands = nonopts @ ops)"

lemma in_cluster_optind: "in_cluster st cl rest nonopts \<Longrightarrow> optind st \<noteq> 0"
  by (auto simp: in_cluster_def layout_def split: if_splits)

lemma in_cluster_optarg [simp]: "in_cluster (st\<lparr>optarg := x\<rparr>) cl rest nonopts = in_cluster st cl rest nonopts"
  by (simp add: in_cluster_def layout_def)

lemma remaining_Nil [simp]: "remaining os lo [] rest = parse os lo rest"
  by (simp add: remaining_def)

lemma short_events_ne: "short_events os (c # cs) rest = (evs, r) \<Longrightarrow> evs \<noteq> []"
  by (auto simp: Let_def split: option.splits if_splits list.splits prod.splits)

lemma short_step_next:
  assumes ic: "in_cluster st (c # cs) rest nonopts" "optarg st = None" "flag_vars st = flag_vars st0" "mset (args st) = mset (args st0)"
    and rem: "remaining os lo (c # cs) rest = (e # es, ops)"
  shows "\<exists>res. short_option os (c # cs) st = Inr res \<and> next_is os lo st0 res e es (nonopts @ ops)"
proof -
  obtain evs r where ev: "short_events os (c # cs) rest = (evs, r)" by (cases "short_events os (c # cs) rest")
  obtain k st' cl' rest' es1 where s: "short_option os (c # cs) st = Inr (k, st')" "evs = Event k (optarg st') None # es1"
    "in_cluster st' cl' rest' nonopts" "short_events os cl' rest' = (es1, r)" "flag_vars st' = flag_vars st" "mset (args st') = mset (args st)"
    using short_option_step [OF ic(1,2) ev] by metis
  obtain es2 ops2 where pr: "parse os lo r = (es2, ops2)" by (cases "parse os lo r")
  with rem ev s(2) have e: "e = Event k (optarg st') None" "es = es1 @ es2" "ops = ops2"
    by (simp_all add: remaining_def)
  have "remaining os lo cl' rest' = (es, ops)" using s(4) pr e by (simp add: remaining_def)
  with s e ic show ?thesis
    by (auto simp: next_is_def delivers_def applied_def intro!: exI [of _ "(k, st')"])
qed

lemma getopt_long_mid:
  assumes ic: "in_cluster st (c # cs) rest nonopts" and rem: "remaining os lo (c # cs) rest = (e # es, ops)"
  shows "\<exists>res. getopt_long posixly_correct os lo st = Inr res \<and> next_is os lo st res e es (nonopts @ ops)"
proof -
  define st0 where "st0 = st\<lparr>optarg := None\<rparr>"
  have ic0: "in_cluster st0 (c # cs) rest nonopts" using ic by (simp add: st0_def)
  then obtain pre opts a where l: "layout st0 pre nonopts opts (a # rest)" "ch a 1 \<noteq> CHR ''-''" "nextchar st0 = Some (c # cs)"
    by (auto simp: in_cluster_def)
  have "try_long os lo False (c # cs) st0 = Inr (None, st0)"
    using l by (auto simp: try_long_def layout_def arg_at_def nth_append)
  moreover have "start_scan posixly_correct os st0 = (st0, os)" using in_cluster_optind [OF ic0] by (simp add: start_scan_def)
  ultimately have "getopt_long posixly_correct os lo st = short_option os (c # cs) st0"
    using l(3) by (simp add: getopt_long_def getopt_internal_def read_option_def flip: st0_def)
  with short_step_next [OF ic0 _ _ _ rem, of st] show ?thesis by (simp add: st0_def)
qed


lemma start_scan_later: "optind st \<noteq> 0 \<Longrightarrow> start_scan posixly_correct os st = (st, os)"
  by (simp add: start_scan_def)

lemma getopt_long_between:
  assumes "in_cluster st [] rest nonopts"
  defines "st0 \<equiv> st\<lparr>optarg := None\<rparr>"
  obtains pre opts where "layout st0 pre nonopts opts rest" "order st0 = PERMUTE"
    "getopt_long posixly_correct os lo st =
       andThen (next_element True st0) (\<lambda>(r, st). case r of Some c \<Rightarrow> Inr (c, st) | None \<Rightarrow> read_option os (Some lo) False st)"
proof -
  have ic: "in_cluster st0 [] rest nonopts" using assms by simp
  then obtain pre opts where l: "layout st0 pre nonopts opts rest" "order st0 = PERMUTE" "nextchar st0 = None \<or> nextchar st0 = Some []"
    by (auto simp: in_cluster_def)
  have "start_scan posixly_correct os st0 = (st0, os)" using start_scan_later in_cluster_optind [OF ic] by simp
  with l(3) show thesis using that [OF l(1,2)] unfolding getopt_long_def getopt_internal_def st0_def [symmetric] by simp
qed

lemma getopt_long_end:
  assumes ic: "in_cluster st [] rest nonopts" and rem: "parse os lo rest = ([], ops)" and tidy: "tidy lo (args st)"
  shows "\<exists>st'. getopt_long posixly_correct os lo st = Inr (EOF, st') \<and> drop (optind st') (args st') = nonopts @ ops \<and>
    optind st' \<le> arg_count st' \<and> flag_vars st' = flag_vars st \<and> mset (args st') = mset (args st)"
proof -
  obtain pre opts where l: "layout (st\<lparr>optarg := None\<rparr>) pre nonopts opts rest" "order (st\<lparr>optarg := None\<rparr>) = PERMUTE"
    and go: "getopt_long posixly_correct os lo st =
       andThen (next_element True (st\<lparr>optarg := None\<rparr>)) (\<lambda>(r, st). case r of Some c \<Rightarrow> Inr (c, st) | None \<Rightarrow> read_option os (Some lo) False st)"
    using getopt_long_between [OF ic] by blast
  have "dropWhile is_nonopt rest = [] \<or> (\<exists>av. dropWhile is_nonopt rest = ''--'' # av)"
  proof (rule ccontr)
    assume *: "\<not> ?thesis"
    then obtain a av where a: "dropWhile is_nonopt rest = a # av" "a \<noteq> ''--''" by (cases "dropWhile is_nonopt rest") auto
    have na: "\<not> is_nonopt a" using a(1) by (metis dropWhile_eq_Cons_conv)
    obtain ops' where pa: "parse os lo (a # av) = ([], ops')" using rem a(1) by (auto simp: parse_nonopts [of os lo rest] split: prod.splits)
    have "ch a 1 \<noteq> CHR 0x00" using na by (simp add: is_nonopt_def)
    then obtain c cs where "drop 1 a = c # cs" by (cases "drop 1 a") (auto simp: ch_def)
    then show False using pa a(2) na short_events_ne [of os c cs av]
      by (auto simp: parse.simps(2) [of os lo a av] split: if_splits prod.splits)
  qed
  then obtain st' where "next_element True (st\<lparr>optarg := None\<rparr>) = Inr (Some EOF, st')" "drop (optind st') (args st') = nonopts @ ops"
    "same_rest (st\<lparr>optarg := None\<rparr>) st'" "optind st' \<le> arg_count st'"
    using next_element_ends [OF l _ rem, of True] by metis
  with go show ?thesis by (intro exI [of _ st']) (simp add: same_rest_def)
qed

lemma getopt_long_begin:
  assumes ic: "in_cluster st [] rest nonopts" and rem: "parse os lo rest = (e # es, ops)" and tidy: "tidy lo (args st)"
  shows "\<exists>res. getopt_long posixly_correct os lo st = Inr res \<and> next_is os lo st res e es (nonopts @ ops)"
proof -
  obtain pre opts where l: "layout (st\<lparr>optarg := None\<rparr>) pre nonopts opts rest" "order (st\<lparr>optarg := None\<rparr>) = PERMUTE"
    and go: "getopt_long posixly_correct os lo st =
       andThen (next_element True (st\<lparr>optarg := None\<rparr>)) (\<lambda>(r, st). case r of Some c \<Rightarrow> Inr (c, st) | None \<Rightarrow> read_option os (Some lo) False st)"
    using getopt_long_between [OF ic] by blast
  obtain ops' where pr: "parse os lo (dropWhile is_nonopt rest) = (e # es, ops')" "ops = takeWhile is_nonopt rest @ ops'"
    using rem by (auto simp: parse_nonopts [of os lo rest] split: prod.splits)
  then obtain a av where a: "dropWhile is_nonopt rest = a # av" by (cases "dropWhile is_nonopt rest") auto
  have na: "\<not> is_nonopt a" using a by (metis dropWhile_eq_Cons_conv)
  have dd: "a \<noteq> ''--''" using pr(1) a by (auto simp: parse.simps)
  have "a \<in> set rest" using a by (metis list.set_intros(1) set_dropWhileD)
  then have nul: "CHR 0x00 \<notin> set a" using tidy l(1) by (auto simp: tidy_def layout_def)
  obtain st1 where s1: "next_element True (st\<lparr>optarg := None\<rparr>) = Inr (None, st1)"
    "nextchar st1 = Some (drop (if ch a 1 = CHR ''-'' then 2 else 1) a)"
    "layout st1 (pre @ opts) (nonopts @ takeWhile is_nonopt rest) [] (a # av)"
    "same_rest (st\<lparr>optarg := None, nextchar := nextchar st1\<rparr>) st1"
    using next_element_option [OF l a dd nul] by auto
  have s1': "order st1 = PERMUTE" "optarg st1 = None" "flag_vars st1 = flag_vars st" "mset (args st1) = mset (args st)"
    using s1(4) l(2) by (auto simp: same_rest_def)
  show ?thesis
  proof (cases "ch a 1 = CHR ''-''")
    case True
    obtain av' where ev: "long_event os lo (drop 2 a) av = (e, av')" "parse os lo av' = (es, ops')"
      using pr(1) a na dd True by (auto simp: parse.simps(2) [of os lo a av] split: prod.splits)
    have "compares lo (drop 2 a) (before_equals (drop 2 a))"
      using nul tidy set_drop_subset [of 2 a] by (intro compares_ok) (auto simp: tidy_def)
    from try_long_step [OF s1(3) s1'(1,2) _ True this ev(1)] na obtain res where
      r: "try_long os lo False (drop 2 a) st1 = Inr (Some (fst res), snd res)" "delivers st1 res e"
        "in_cluster (snd res) [] av' (nonopts @ takeWhile is_nonopt rest)" by (auto simp: is_nonopt_def)
    have "next_is os lo st res e es (nonopts @ ops)"
      unfolding next_is_def using r ev(2) pr(2) s1'(3,4) by (fastforce simp: delivers_def)
    with go s1(1,2) r(1) True show ?thesis by (cases res) (auto simp: read_option_def)
  next
    case False
    have "ch a 1 \<noteq> CHR 0x00" using na by (simp add: is_nonopt_def)
    then obtain c cs where c: "drop 1 a = c # cs" by (cases "drop 1 a") (auto simp: ch_def)
    have ic1: "in_cluster st1 (c # cs) av (nonopts @ takeWhile is_nonopt rest)"
      using s1(2,3) s1'(1) False c by (auto simp: in_cluster_def)
    have "remaining os lo (c # cs) av = (e # es, ops')"
      using pr(1) a na dd False c by (simp add: parse.simps(2) [of os lo a av] remaining_def)
    from short_step_next [OF ic1 s1'(2-4) this] pr(2) obtain res where
      r: "short_option os (c # cs) st1 = Inr res" "next_is os lo st res e es (nonopts @ ops)" by auto
    have "try_long os lo False (c # cs) st1 = Inr (None, st1)"
      using s1(3) False by (auto simp: try_long_def layout_def arg_at_def nth_append)
    with go s1(1,2) False c r show ?thesis by (auto simp: read_option_def)
  qed
qed


section \<open>Scanning a whole command line\<close>

text \<open>The calls of a program that asks for options until there are no more.\<close>

inductive scans :: "bool \<Rightarrow> string \<Rightarrow> long_option list \<Rightarrow> getopt_state \<Rightarrow> (int \<times> string option \<times> (string \<Rightarrow> int)) list \<Rightarrow> getopt_state \<Rightarrow> bool"
  for posixly_correct os lo where
  finished: "getopt_long posixly_correct os lo st = Inr (c, st') \<Longrightarrow> c = EOF \<Longrightarrow> scans posixly_correct os lo st [] st'"
| another: "getopt_long posixly_correct os lo st = Inr (c, st1) \<Longrightarrow> c \<noteq> EOF \<Longrightarrow> scans posixly_correct os lo st1 es st' \<Longrightarrow>
    scans posixly_correct os lo st ((c, optarg st1, flag_vars st1) # es) st'"

text \<open>What the caller sees of the events: the value, the argument, and the variables at that time.\<close>

fun seen :: "(string \<Rightarrow> int) \<Rightarrow> event list \<Rightarrow> (int \<times> string option \<times> (string \<Rightarrow> int)) list" where
  "seen vars [] = []"
| "seen vars (Event c a f # es) = (c, a, applied f vars) # seen (applied f vars) es"

fun final_vars :: "(string \<Rightarrow> int) \<Rightarrow> event list \<Rightarrow> string \<Rightarrow> int" where
  "final_vars vars [] = vars"
| "final_vars vars (Event c a f # es) = final_vars (applied f vars) es"

fun event_code :: "event \<Rightarrow> int" where
  "event_code (Event c a f) = c"

lemma code_not_EOF [simp]: "code c \<noteq> EOF" "missing_arg_code os \<noteq> EOF" "BAD_OPTION \<noteq> EOF"
  by (simp_all add: code_def EOF_def missing_arg_code_def BAD_OPTION_def)

lemma short_events_codes: "short_events os cs rest = (es, r) \<Longrightarrow> e \<in> set es \<Longrightarrow> event_code e \<noteq> EOF"
  by (induction os cs rest arbitrary: es r rule: short_events.induct)
    (auto simp: Let_def split: option.splits if_splits list.splits prod.splits)

lemma filter_hd_in: "filter P xs = x # ys \<Longrightarrow> x \<in> set xs"
  by (metis filter_is_subset list.set_intros(1) subset_iff)

lemma choose_long_in: "choose_long lo name = Chosen p \<Longrightarrow> p \<in> set lo"
  unfolding choose_long_def using filter_hd_in by (force split: list.splits)

lemma scans_from:
  assumes "in_cluster st cl rest nonopts" "remaining os lo cl rest = (es, ops)" "tidy lo (args st)" "\<forall>e \<in> set es. event_code e \<noteq> EOF"
  shows "\<exists>st'. scans pc os lo st (seen (flag_vars st) es) st' \<and> drop (optind st') (args st') = nonopts @ ops \<and>
    optind st' \<le> arg_count st' \<and> mset (args st') = mset (args st) \<and> flag_vars st' = final_vars (flag_vars st) es"
  using assms
proof (induction es arbitrary: st cl rest nonopts ops)
  case Nil
  have "cl = []"
  proof (rule ccontr)
    assume "cl \<noteq> []"
    then obtain c cs where "cl = c # cs" by (cases cl) auto
    with Nil.prems(2) short_events_ne [of os c cs rest] show False by (auto simp: remaining_def split: prod.splits)
  qed
  with getopt_long_end [of st rest nonopts os lo ops pc] Nil.prems show ?case
    by (auto intro: finished)
next
  case (Cons e es)
  have "\<exists>res. getopt_long pc os lo st = Inr res \<and> next_is os lo st res e es (nonopts @ ops)"
    using getopt_long_mid getopt_long_begin Cons.prems(1-3) by (cases cl) auto
  then obtain c st1 f cl' rest' nonopts' ops' where n: "getopt_long pc os lo st = Inr (c, st1)" "e = Event c (optarg st1) f"
    "flag_vars st1 = applied f (flag_vars st)" "mset (args st1) = mset (args st)"
    "in_cluster st1 cl' rest' nonopts'" "remaining os lo cl' rest' = (es, ops')" "nonopts @ ops = nonopts' @ ops'"
    by (auto simp: next_is_def delivers_def)
  have "set (args st1) = set (args st)" using n(4) by (metis set_mset_mset)
  then have "tidy lo (args st1)" using Cons.prems(3) by (simp add: tidy_def)
  from Cons.IH [OF n(5,6) this] Cons.prems(4) obtain st' where
    r: "scans pc os lo st1 (seen (flag_vars st1) es) st'" "drop (optind st') (args st') = nonopts' @ ops'"
    "optind st' \<le> arg_count st'" "mset (args st') = mset (args st1)" "flag_vars st' = final_vars (flag_vars st1) es" by auto
  have "scans pc os lo st ((c, optarg st1, flag_vars st1) # seen (flag_vars st1) es) st'"
    by (rule another [OF n(1) _ r(1)]) (use n(2) Cons.prems(4) in simp)
  with n(2,3,4,7) r show ?case by (intro exI [of _ st']) simp
qed


lemma chosen_event_code: "p \<in> set lo \<Longrightarrow> \<forall>p \<in> set lo. val p \<noteq> EOF \<Longrightarrow> event_code (chosen_event p a) \<noteq> EOF"
  by (auto simp: chosen_event_def EOF_def split: option.splits)

lemma long_event_code:
  assumes "\<forall>p \<in> set lo. val p \<noteq> EOF" "long_event os lo nc rest = (e, r)"
  shows "event_code e \<noteq> EOF"
  using assms chosen_event_code choose_long_in
  by (fastforce simp: long_event_def split: choice.splits if_splits list.splits)

lemma parse_codes:
  "\<forall>p \<in> set lo. val p \<noteq> EOF \<Longrightarrow> parse os lo av = (es, ops) \<Longrightarrow> e \<in> set es \<Longrightarrow> event_code e \<noteq> EOF"
proof (induction os lo av arbitrary: es ops rule: parse.induct)
  case (2 os lo a av)
  show ?case
    using 2 long_event_code [OF 2(4)] short_events_codes
    by (fastforce simp: parse.simps(2) [of os lo a av] split: if_splits prod.splits)
qed simp

text \<open>The state before the first call.\<close>

definition fresh :: "string list \<Rightarrow> getopt_state \<Rightarrow> bool" where
  "fresh av st \<longleftrightarrow> args st = av \<and> optind st = 0"

lemma scans_first:
  assumes "optind st = 0" "scans pc os lo (st\<lparr>optind := 1, nextchar := None, first_nonopt := 1, last_nonopt := 1, order := PERMUTE\<rparr>) es st'"
    and "\<not> pc" "ch os 0 \<noteq> CHR ''-''" "ch os 0 \<noteq> CHR ''+''"
  shows "scans pc os lo st es st'"
proof -
  let ?st = "st\<lparr>optind := 1, nextchar := None, first_nonopt := 1, last_nonopt := 1, order := PERMUTE\<rparr>"
  have a: "start_scan pc os (st\<lparr>optarg := None\<rparr>) = (?st\<lparr>optarg := None\<rparr>, os)"
    using assms(1,3-) by (cases st) (simp add: start_scan_def Let_def)
  have b: "start_scan pc os (?st\<lparr>optarg := None\<rparr>) = (?st\<lparr>optarg := None\<rparr>, os)" by (simp add: start_scan_def)
  have "getopt_long pc os lo st = getopt_long pc os lo ?st"
    unfolding getopt_long_def getopt_internal_def a b ..
  with assms(2) show ?thesis by (cases rule: scans.cases) (auto intro: scans.intros)
qed

lemma scans_parse:
  assumes "fresh (prog # av) st" "tidy lo (prog # av)" "parse os lo av = (es, operands)" "\<forall>p \<in> set lo. val p \<noteq> EOF"
    "ch os 0 \<noteq> CHR ''-''" "ch os 0 \<noteq> CHR ''+''"
  shows "\<exists>st'. scans False os lo st (seen (flag_vars st) es) st' \<and> drop (optind st') (args st') = operands \<and>
    optind st' \<le> length (args st') \<and> mset (args st') = mset (prog # av) \<and> flag_vars st' = final_vars (flag_vars st) es"
proof -
  let ?st = "st\<lparr>optind := 1, nextchar := None, first_nonopt := 1, last_nonopt := 1, order := PERMUTE\<rparr>"
  have "layout ?st [prog] [] [] av" using assms(1) by (simp add: layout_def fresh_def)
  then have "in_cluster ?st [] av []" by (rule in_clusterI) simp_all
  moreover have "remaining os lo [] av = (es, operands)" using assms(3) by simp
  moreover have "tidy lo (args ?st)" using assms(1,2) by (simp add: fresh_def)
  moreover have "\<forall>e \<in> set es. event_code e \<noteq> EOF" using parse_codes [OF assms(4,3)] by blast
  ultimately obtain st' where "scans False os lo ?st (seen (flag_vars ?st) es) st'" "drop (optind st') (args st') = [] @ operands"
    "optind st' \<le> arg_count st'" "mset (args st') = mset (args ?st)" "flag_vars st' = final_vars (flag_vars ?st) es"
    using scans_from by blast
  with scans_first [of st False os lo _ st'] assms(1,5,6) show ?thesis by (auto simp: fresh_def)
qed


text \<open>C16: A program that calls \<^verbatim>\<open>getopt_long\<close> of \<^verbatim>\<open>compat/getopt.c\<close> until it returns \<^verbatim>\<open>EOF\<close> comes to an end, never reads outside of
  \<^verbatim>\<open>argv\<close>, and sees the options, arguments and variable settings that the reference parser assigns to the command line, in
  their order; afterwards \<^verbatim>\<open>argv\<close> is a permutation of what it was and the elements from \<^verbatim>\<open>optind\<close> on are the operands in their
  original order.\<close>

theorem getopt_long_refines_parse:
  assumes "fresh (prog # av) st" "tidy lo (prog # av)" "parse os lo av = (es, operands)" "\<forall>p \<in> set lo. val p \<noteq> EOF"
    "ch os 0 \<noteq> CHR ''-''" "ch os 0 \<noteq> CHR ''+''"
  shows "\<exists>st'. scans False os lo st (seen (flag_vars st) es) st' \<and> drop (optind st') (args st') = operands \<and>
    optind st' \<le> length (args st') \<and> mset (args st') = mset (prog # av) \<and> flag_vars st' = final_vars (flag_vars st) es"
  by (rule scans_parse [OF assms])

text \<open>An operand between options, an abbreviated long option, and arguments in the same and in the next element.\<close>

definition example_state :: "string list \<Rightarrow> getopt_state" where
  "example_state av =
     \<lparr>args = av, optarg = None, optind = 0, nextchar = None, opterr = True, optopt = CHR 0x00, order = PERMUTE, first_nonopt = 0,
      last_nonopt = 0, longind = 0, flag_vars = (\<lambda>_. 0), messages = []\<rparr>"

definition example_opts :: "long_option list" where
  "example_opts =
     [\<lparr>opt_name = ''master'', has_arg = no_argument, flag = Some ''ismaster'', val = 1\<rparr>,
      \<lparr>opt_name = ''host'', has_arg = required_argument, flag = None, val = 104\<rparr>]"

theorem getopt_long_refines_parse_witness:
  "\<exists>st'. scans False ''h:p:'' example_opts (example_state [''risu'', ''image'', ''--ma'', ''-p80'', ''-h'', ''local''])
     [(0, None, (\<lambda>_. 0)(''ismaster'' := 1)), (112, Some ''80'', (\<lambda>_. 0)(''ismaster'' := 1)),
      (104, Some ''local'', (\<lambda>_. 0)(''ismaster'' := 1))] st' \<and>
   drop (optind st') (args st') = [''image'']"
proof -
  have pr: "parse ''h:p:'' example_opts [''image'', ''--ma'', ''-p80'', ''-h'', ''local''] =
      ([Event 0 None (Some (''ismaster'', 1)), Event 112 (Some ''80'') None, Event 104 (Some ''local'') None], [''image''])"
    by (simp add: parse.simps is_nonopt_def ch_def long_event_def choose_long_def example_opts_def abbreviated_def before_equals_def
        from_equals_def no_argument_def required_argument_def chosen_event_def code_def)
  have "tidy example_opts [''risu'', ''image'', ''--ma'', ''-p80'', ''-h'', ''local'']"
    by (simp add: tidy_def example_opts_def)
  from getopt_long_refines_parse [OF _ this pr, of "example_state [''risu'', ''image'', ''--ma'', ''-p80'', ''-h'', ''local'']"]
  show ?thesis
    by (auto simp: fresh_def example_state_def applied_def ch_def EOF_def example_opts_def)
qed

end
