(* ===== verification/Connect.thy ===== *)
theory Connect
  imports Comms Text_Output
begin

text \<open>
  How the connection comes about (\<^verbatim>\<open>apprentice_connect\<close> and \<^verbatim>\<open>master_connect\<close> of \<^verbatim>\<open>src/comms.c\<close>). The answers of the
  network are a parameter; the descriptors the process has open are part of the state. What \<^verbatim>\<open>perror\<close> prints depends on the
  system and is left out.
\<close>

section \<open>The network\<close>

text \<open>A port and an address as they are stored in a \<^verbatim>\<open>sockaddr_in\<close>, in network byte order.\<close>

record sockaddr_in =
  sin_port :: "byte list"
  sin_addr :: "byte list"

record network =
  net_socket :: int
  net_setsockopt :: "int \<Rightarrow> int"
  net_gethostbyname :: "string option \<Rightarrow> byte list option"
  net_connect :: "int \<Rightarrow> sockaddr_in \<Rightarrow> int"
  net_bind :: "int \<Rightarrow> sockaddr_in \<Rightarrow> int"
  net_listen :: "int \<Rightarrow> int \<Rightarrow> int"
  net_accept :: "int \<Rightarrow> int"

definition htons :: "int \<Rightarrow> byte list" where
  "htons p = mem_bytes True 2 (of_int p :: u16)"

definition INADDR_ANY :: "byte list" where
  "INADDR_ANY = mem_bytes True 4 (0 :: u32)"

section \<open>Connecting\<close>

text \<open>The text on \<^verbatim>\<open>stderr\<close>, and the descriptor of the connection with the descriptors that are open then.\<close>

definition apprentice_connect :: "network \<Rightarrow> string option \<Rightarrow> int \<Rightarrow> int set \<Rightarrow> string \<times> (fault + int \<times> int set)" where
  "apprentice_connect net host port fds =
     (let sock = net_socket net
      in if sock < 0 then ([], Inl Exit_Failure)
         else
           (case net_gethostbyname net host of
              None \<Rightarrow> (''Unknown host '' @ (case host of Some h \<Rightarrow> h | None \<Rightarrow> ''(null)'') @ nl, Inl Exit_Failure)
            | Some addr \<Rightarrow>
                if net_connect net sock \<lparr>sin_port = htons port, sin_addr = addr\<rparr> < 0 then ([], Inl Exit_Failure)
                else ([], Inr (sock, insert sock fds))))"

definition master_connect :: "network \<Rightarrow> int \<Rightarrow> int set \<Rightarrow> string \<times> (fault + int \<times> int set)" where
  "master_connect net port fds =
     (let sock = net_socket net
      in if sock < 0 then ([], Inl Exit_Failure)
         else if net_setsockopt net sock \<noteq> 0 then ([], Inl Exit_Failure)
         else if net_bind net sock \<lparr>sin_port = htons port, sin_addr = INADDR_ANY\<rparr> < 0 then ([], Inl Exit_Failure)
         else if net_listen net sock 1 < 0 then ([], Inl Exit_Failure)
         else
           (let waiting = ''master: waiting for connection on port '' @ decs port @ ''...'' @ nl;
                nsock = net_accept net sock
            in if nsock < 0 then (waiting, Inl Exit_Failure)
               else (waiting, Inr (nsock, insert nsock (insert sock fds) - {sock}))))"

text \<open>
  A connection is one more open descriptor and nothing else: the socket the master listened on is closed again, if the system
  gives out descriptors that are not in use.
\<close>

lemma apprentice_connect_opens:
  "apprentice_connect net host port fds = (text, Inr (fd, fds')) \<Longrightarrow>
     fd = net_socket net \<and> 0 \<le> fd \<and> fds' = insert fd fds \<and> text = [] \<and>
     (\<exists>addr. net_gethostbyname net host = Some addr \<and> 0 \<le> net_connect net fd \<lparr>sin_port = htons port, sin_addr = addr\<rparr>)"
  by (auto simp: apprentice_connect_def Let_def split: if_splits option.splits)

lemma master_connect_opens:
  assumes "master_connect net port fds = (text, Inr (fd, fds'))"
    and "net_socket net \<notin> fds" "net_accept net (net_socket net) \<noteq> net_socket net"
  shows "fd = net_accept net (net_socket net) \<and> 0 \<le> fd \<and> fds' = insert fd fds \<and>
    0 \<le> net_bind net (net_socket net) \<lparr>sin_port = htons port, sin_addr = INADDR_ANY\<rparr>"
  using assms by (auto simp: master_connect_def Let_def split: if_splits)

text \<open>The program ends only by \<^verbatim>\<open>exit\<close> when a connection does not come about.\<close>

lemma connect_fails:
  "apprentice_connect net host port fds = (text, Inl e) \<Longrightarrow> e = Exit_Failure"
  "master_connect net port fds = (text, Inl e) \<Longrightarrow> e = Exit_Failure"
  by (auto simp: apprentice_connect_def master_connect_def Let_def split: if_splits option.splits)

text \<open>A port is its lowest 16 bits on both sides.\<close>

lemma htons_wraps: "htons p = htons q \<longleftrightarrow> p mod 2 ^ 16 = q mod 2 ^ 16"
proof -
  have inv: "of_mem_bytes True (mem_bytes True 2 w) = w" for w :: u16 by simp
  have "mem_bytes True 2 v = mem_bytes True 2 w \<longleftrightarrow> v = w" for v w :: u16 by (metis inv)
  then show ?thesis by (simp add: htons_def word_of_int_eq_iff take_bit_eq_mod)
qed

end
