(* ===== verification/Risu_Main.thy ===== *)
theory Risu_Main
  imports Session C_Strtol Getopt Connect
begin

text \<open>
  The command line of the harness (\<^verbatim>\<open>usage\<close>, \<^verbatim>\<open>setup_options\<close> and \<^verbatim>\<open>risu_main\<close> of \<^verbatim>\<open>src/risu.c\<close>) and the loading of the
  test image. What the operating system answers (whether a file can be opened, where the image is mapped) is a
  parameter; so is the \<^verbatim>\<open>getopt_long\<close> the program is linked with, which is the one of \<^verbatim>\<open>Getopt\<close> where the system
  has none. The options of the back end come in as a table and a handler.
\<close>

section \<open>Options\<close>

text \<open>
  What the build and the back end provide. \<open>long_bits\<close> is the width of \<^verbatim>\<open>long\<close>; an array of options is a list
  in which \<open>None\<close> is an entry that is all zero.
\<close>

record 'o front =
  on_macos9 :: bool
  with_zlib :: bool
  no_signal :: bool
  long_bits :: nat
  arch_long_opts :: "long_option option list option"
  arch_extra_help :: "string option"
  arch_process_opt :: "int \<Rightarrow> string option \<Rightarrow> 'o \<Rightarrow> fault + 'o"

definition default_longopts :: "long_option option list" where
  "default_longopts =
     [Some \<lparr>opt_name = ''help'', has_arg = no_argument, flag = None, val = code (CHR ''?'')\<rparr>,
      Some \<lparr>opt_name = ''master'', has_arg = no_argument, flag = Some ''ismaster'', val = 1\<rparr>,
      Some \<lparr>opt_name = ''host'', has_arg = required_argument, flag = None, val = code (CHR ''h'')\<rparr>,
      Some \<lparr>opt_name = ''port'', has_arg = required_argument, flag = None, val = code (CHR ''p'')\<rparr>,
      Some \<lparr>opt_name = ''trace'', has_arg = required_argument, flag = None, val = code (CHR ''t'')\<rparr>,
      None]"

text \<open>\<^verbatim>\<open>for (arch_count = 0; arch_long_opts[arch_count].name; arch_count++)\<close>\<close>

fun count_opts :: "long_option option list \<Rightarrow> fault + nat" where
  "count_opts [] = Inl Out_Of_Bounds"
| "count_opts (None # _) = Inr 0"
| "count_opts (Some _ # opts) = andThen (count_opts opts) (\<lambda>n. Inr (n + 1))"

text \<open>\<^verbatim>\<open>memcpy(dst + off, src, n * osize)\<close>\<close>

definition copy_opts :: "'a list \<Rightarrow> nat \<Rightarrow> 'a list \<Rightarrow> nat \<Rightarrow> fault + 'a list" where
  "copy_opts dst off src n =
     (if off + n \<le> length dst \<and> n \<le> length src then Inr (take off dst @ take n src @ drop (off + n) dst)
      else Inl Out_Of_Bounds)"

definition setup_options :: "'o front \<Rightarrow> fault + long_option option list \<times> string" where
  "setup_options F =
     (let shortopts = ''h:p:t:''; default_count = length default_longopts - 1
      in case arch_long_opts F of
           Some extra \<Rightarrow>
             andThen (count_opts extra) (\<lambda>arch_count.
             andThen (copy_opts (replicate (default_count + arch_count + 1) None) 0 default_longopts default_count) (\<lambda>lopts.
             andThen (copy_opts lopts default_count extra arch_count) (\<lambda>lopts. Inr (lopts, shortopts))))
         | None \<Rightarrow>
             andThen (copy_opts (replicate (default_count + 1) None) 0 default_longopts (default_count + 1)) (\<lambda>lopts.
               Inr (lopts, shortopts)))"

text \<open>The options an array stands for: those before the first zero entry.\<close>

fun opts_until_zero :: "long_option option list \<Rightarrow> long_option list" where
  "opts_until_zero (Some p # opts) = p # opts_until_zero opts"
| "opts_until_zero _ = []"

definition usage :: "'o front \<Rightarrow> string" where
  "usage F =
     ''Usage: risu [--master] [--host <ip>] [--port <port>] <image file>'' @ nl @ nl @
     ''Run through the pattern file verifying each instruction'' @ nl @
     ''between master and apprentice risu processes.'' @ nl @ nl @
     ''Options:'' @ nl @
     ''  --master          Be the master (server)'' @ nl @
     ''  -t, --trace=FILE  Record/playback '' @ (if with_zlib F then ''compressed'' else ''uncompressed'') @ '' trace file'' @ nl @
     ''  -h, --host=HOST   Specify master host machine (apprentice only)'' @ nl @
     ''  -p, --port=PORT   Specify the port to connect to/listen on (default 9191)'' @ nl @
     (case arch_extra_help F of Some help \<Rightarrow> help | None \<Rightarrow> [])"

section \<open>The option loop\<close>

text \<open>The local variables of \<^verbatim>\<open>risu_main\<close>, the variable \<^verbatim>\<open>trace\<close>, and the options of the back end.\<close>

record 'o settings =
  port :: u16
  hostname :: "string option"
  trace_fn :: "string option"
  tracing :: bool
  arch_settings :: 'o

definition default_settings :: "'o \<Rightarrow> 'o settings" where
  "default_settings x = \<lparr>port = 9191, hostname = Some ''localhost'', trace_fn = None, tracing = False, arch_settings = x\<rparr>"

text \<open>The switch over the value that \<^verbatim>\<open>getopt_long\<close> returned; \<open>None\<close> is the exit through \<^verbatim>\<open>usage\<close>.\<close>

definition handle_option :: "'o front \<Rightarrow> int \<Rightarrow> string option \<Rightarrow> 'o settings \<Rightarrow> fault + 'o settings option" where
  "handle_option F c arg s =
     (if c = 0 then Inr (Some s)
      else if c = code (CHR ''t'') then Inr (Some (s\<lparr>trace_fn := arg, tracing := True\<rparr>))
      else if c = code (CHR ''h'') then Inr (Some (s\<lparr>hostname := arg\<rparr>))
      else if c = code (CHR ''p'') then
        (case arg of None \<Rightarrow> Inl Out_Of_Bounds | Some a \<Rightarrow> Inr (Some (s\<lparr>port := word_of_int (strtol_10 (long_bits F) a)\<rparr>)))
      else if c = code (CHR ''?'') then Inr None
      else if c < FIRST_ARCH_OPT then Inl Abort
      else andThen (arch_process_opt F c arg (arch_settings s)) (\<lambda>x. Inr (Some (s\<lparr>arch_settings := x\<rparr>))))"

type_synonym next_option = "string \<Rightarrow> long_option list \<Rightarrow> getopt_state \<Rightarrow> fault + int \<times> getopt_state"

text \<open>The loop ends with \<^verbatim>\<open>true\<close> when the usage is asked for, and with \<^verbatim>\<open>false\<close> when there are no more options.\<close>

partial_function (option) option_loop ::
  "'o front \<Rightarrow> next_option \<Rightarrow> string \<Rightarrow> long_option list \<Rightarrow> getopt_state \<Rightarrow> 'o settings \<Rightarrow>
     (fault + bool \<times> 'o settings \<times> getopt_state) option" where
  "option_loop F next_opt shortopts longopts g s =
     (case next_opt shortopts longopts g of
        Inl e \<Rightarrow> Some (Inl e)
      | Inr (c, g1) \<Rightarrow>
          if c = EOF then Some (Inr (False, s, g1))
          else
            (case handle_option F c (optarg g1) s of
               Inl e \<Rightarrow> Some (Inl e)
             | Inr None \<Rightarrow> Some (Inr (True, s, g1))
             | Inr (Some s1) \<Rightarrow> option_loop F next_opt shortopts longopts g1 s1))"

section \<open>Connections and images\<close>

text \<open>Where records go to or come from.\<close>

datatype channel =
    Standard_Output
  | Standard_Input
  | Trace_File string bool
  | Listening u16
  | Connected "string option" u16

text \<open>
  The answers of the operating system: whether a trace file can be opened (for writing or reading), the
  answers of the network, what became of the image file, and whether the alternate signal stack can be set up.
  A mapping that fails has the address with all bits set (\<^verbatim>\<open>MAP_FAILED\<close>), an allocation that fails the address 0.
\<close>

datatype image_file = No_Such_File | Stat_Fails | Image nat arch_ptr

record os_answers =
  can_open :: "string \<Rightarrow> bool \<Rightarrow> bool"
  net :: network
  open_fds :: "int set"
  image_files :: "string \<Rightarrow> image_file"
  stack_ok :: bool

text \<open>What was written to \<^verbatim>\<open>stderr\<close> goes along with the result.\<close>

definition open_trace :: "'o front \<Rightarrow> os_answers \<Rightarrow> bool \<Rightarrow> string option \<Rightarrow> string \<times> (fault + channel)" where
  "open_trace F sys ismaster fn =
     (if fn = Some ''-'' then
        (if on_macos9 F
         then (''trace file cannot be '' @ (if ismaster then ''stdout'' else ''stdin'') @ ''.'' @ nl, Inl Exit_Failure)
         else ([], Inr (if ismaster then Standard_Output else Standard_Input)))
      else
        (case fn of
           Some name \<Rightarrow>
             if can_open sys name ismaster then ([], Inr (Trace_File name ismaster))
             else (''trace file '' @ [CHR 0x22] @ name @ [CHR 0x22] @ '' cannot be opened'' @ nl, Inl Exit_Failure)
         | None \<Rightarrow> (''trace file '' @ [CHR 0x22] @ ''(null)'' @ [CHR 0x22] @ '' cannot be opened'' @ nl, Inl Exit_Failure)))"

definition open_connection :: "'o front \<Rightarrow> os_answers \<Rightarrow> bool \<Rightarrow> 'o settings \<Rightarrow> string \<times> (fault + channel)" where
  "open_connection F sys ismaster s =
     (if on_macos9 F then (''trace file must be specified.'' @ nl, Inl Exit_Failure)
      else
        (let chan = (if ismaster then Listening (port s) else Connected (hostname s) (port s));
             p = uint (port s);
             text = (if ismaster then ''master port '' @ decs p @ nl
                     else ''apprentice host '' @ (case hostname s of Some h \<Rightarrow> h | None \<Rightarrow> ''(null)'') @ '' port '' @ decs p @ nl)
         in case (if ismaster then master_connect (net sys) p (open_fds sys)
                  else apprentice_connect (net sys) (hostname s) p (open_fds sys)) of
              (text', r) \<Rightarrow> (text @ text', andThen r (\<lambda>_. Inr chan))))"

text \<open>The address and the size of the loaded image.\<close>

definition load_image :: "'o front \<Rightarrow> os_answers \<Rightarrow> string \<Rightarrow> string \<times> (fault + arch_ptr \<times> nat)" where
  "load_image F sys imgfile =
     (let loading = ''loading test image '' @ imgfile @ ''...'' @ nl
      in case image_files sys imgfile of
           No_Such_File \<Rightarrow> (loading @ ''failed to open image file '' @ imgfile @ nl, Inl Exit_Failure)
         | Stat_Fails \<Rightarrow> (loading, Inl Exit_Failure)
         | Image len addr \<Rightarrow> (loading, if addr = 0 then Inl Exit_Failure else Inr (addr, len)))"

section \<open>The main program\<close>

text \<open>
  The globals that \<^verbatim>\<open>risu_main\<close> resets before it parses the command line. The memory block of an earlier run
  stays where it was.
\<close>

definition reset_globals :: "bool \<Rightarrow> 'ri risu \<Rightarrow> 'ri risu" where
  "reset_globals tr st = st\<lparr>trace := tr, signal_count := 0, illegal_instructions := 0, is_setup := False\<rparr>"

text \<open>\<^verbatim>\<open>imgfile = argv[optind]\<close>: behind the last argument there is a null pointer, if the caller put one there.\<close>

definition image_argument :: "bool \<Rightarrow> getopt_state \<Rightarrow> fault + string option" where
  "image_argument null_terminated g =
     (if optind g < length (args g) then Inr (Some (args g ! optind g))
      else if optind g = length (args g) \<and> null_terminated then Inr None
      else Inl Out_Of_Bounds)"

text \<open>Either the exit status, or the session that is started: who runs, over which channel, from which image.\<close>

datatype start =
    Returns int
  | Starts bool channel arch_ptr nat

definition start_session :: "'o front \<Rightarrow> os_answers \<Rightarrow> bool \<Rightarrow> channel \<Rightarrow> fault + string option \<Rightarrow> string \<times> (fault + start)" where
  "start_session F sys ismaster chan img =
     (case img of
        Inl e \<Rightarrow> ([], Inl e)
      | Inr None \<Rightarrow> (''Error: must specify image file name'' @ nl @ nl @ usage F, Inr (Returns EXIT_FAILURE))
      | Inr (Some imgfile) \<Rightarrow>
          (case load_image F sys imgfile of
             (text, Inl e) \<Rightarrow> (text, Inl e)
           | (text, Inr (addr, len)) \<Rightarrow>
               if \<not> no_signal F \<and> \<not> stack_ok sys then (text, Inl Exit_Failure)
               else
                 (text @ (if ismaster then ''starting master'' else ''starting apprentice'') @ nl,
                  Inr (Starts ismaster chan addr len))))"

definition after_options :: "'o front \<Rightarrow> os_answers \<Rightarrow> bool \<Rightarrow> fault + string option \<Rightarrow> 'o settings \<Rightarrow> string \<times> (fault + start)" where
  "after_options F sys ismaster img s =
     (case (if tracing s then open_trace F sys ismaster (trace_fn s) else open_connection F sys ismaster s) of
        (text, Inl e) \<Rightarrow> (text, Inl e)
      | (text, Inr chan) \<Rightarrow> (case start_session F sys ismaster chan img of (text', r) \<Rightarrow> (text @ text', r)))"

text \<open>
  The main program. It leaves behind the variables of \<^verbatim>\<open>getopt\<close> and the options of the back end, which live on in
  a console that runs it again.
\<close>

definition risu_main :: "'o front \<Rightarrow> next_option \<Rightarrow> os_answers \<Rightarrow> bool \<Rightarrow> getopt_state \<Rightarrow> 'o \<Rightarrow>
    (string \<times> (fault + start \<times> getopt_state \<times> 'o)) option" where
  "risu_main F next_opt sys null_terminated g x =
     (case setup_options F of
        Inl e \<Rightarrow> Some ([], Inl e)
      | Inr (longopts, shortopts) \<Rightarrow>
          (case option_loop F next_opt shortopts (opts_until_zero longopts)
                  (g\<lparr>flag_vars := (flag_vars g)(''ismaster'' := 0)\<rparr>) (default_settings x) of
             None \<Rightarrow> None
           | Some (Inl e) \<Rightarrow> Some ([], Inl e)
           | Some (Inr (True, s, g1)) \<Rightarrow> Some (usage F, Inr (Returns EXIT_FAILURE, g1, arch_settings s))
           | Some (Inr (False, s, g1)) \<Rightarrow>
               (case after_options F sys (flag_vars g1 ''ismaster'' \<noteq> 0) (image_argument null_terminated g1) s of
                  (text, r) \<Rightarrow> Some (text, andThen r (\<lambda>start. Inr (start, g1, arch_settings s))))))"

section \<open>The table of options\<close>

lemma count_opts_table: "count_opts (map Some es @ None # junk) = Inr (length es)"
  by (induction es) simp_all

lemma opts_until_zero_table [simp]: "opts_until_zero (map Some es @ None # junk) = es"
  by (induction es) simp_all

definition default_opts_list :: "long_option list" where
  "default_opts_list = map the (butlast default_longopts)"

lemma default_longopts_table: "default_longopts = map Some default_opts_list @ [None]"
  by (simp add: default_opts_list_def default_longopts_def)

lemma setup_options_table:
  "arch_long_opts F = None \<Longrightarrow> setup_options F = Inr (map Some default_opts_list @ [None], ''h:p:t:'')"
  "arch_long_opts F = Some (map Some es @ None # junk) \<Longrightarrow>
     setup_options F = Inr (map Some (default_opts_list @ es) @ [None], ''h:p:t:'')"
proof -
  let ?n = "length default_opts_list"
  show "arch_long_opts F = None \<Longrightarrow> setup_options F = Inr (map Some default_opts_list @ [None], ''h:p:t:'')"
    by (simp add: setup_options_def copy_opts_def default_longopts_table)
  assume "arch_long_opts F = Some (map Some es @ None # junk)"
  moreover have "copy_opts (replicate (?n + length es + 1) None) 0 default_longopts ?n = Inr (map Some default_opts_list @ replicate (length es + 1) None)"
    by (simp add: copy_opts_def default_longopts_table del: replicate_Suc)
  moreover have "copy_opts (map Some default_opts_list @ replicate (length es + 1) None) ?n (map Some es @ None # junk) (length es) =
      Inr (map Some (default_opts_list @ es) @ [None])"
    by (simp add: copy_opts_def flip: replicate_append_same)
  ultimately show "setup_options F = Inr (map Some (default_opts_list @ es) @ [None], ''h:p:t:'')"
    by (simp add: setup_options_def count_opts_table default_longopts_table del: replicate_Suc)
qed

section \<open>The option loop ends\<close>

text \<open>The options taken one after the other, until one of them ends the program.\<close>

fun take_options :: "'o front \<Rightarrow> event list \<Rightarrow> 'o settings \<Rightarrow> fault + bool \<times> 'o settings" where
  "take_options F [] s = Inr (False, s)"
| "take_options F (Event c a f # es) s =
     (case handle_option F c a s of
        Inl e \<Rightarrow> Inl e
      | Inr None \<Rightarrow> Inr (True, s)
      | Inr (Some s1) \<Rightarrow> take_options F es s1)"

lemma option_loop_step:
  "next_opt os lo g = Inr (EOF, g1) \<Longrightarrow> option_loop F next_opt os lo g s = Some (Inr (False, s, g1))"
  "next_opt os lo g = Inr (c, g1) \<Longrightarrow> c \<noteq> EOF \<Longrightarrow> option_loop F next_opt os lo g s =
     (case handle_option F c (optarg g1) s of
        Inl e \<Rightarrow> Some (Inl e)
      | Inr None \<Rightarrow> Some (Inr (True, s, g1))
      | Inr (Some s1) \<Rightarrow> option_loop F next_opt os lo g1 s1)"
  by (subst option_loop.simps, simp)+

lemma option_loop_scans:
  assumes "scans posix os lo g (seen vars es) g'"
  obtains g1 where "option_loop F (getopt_long posix) os lo g s =
      Some (case take_options F es s of Inl e \<Rightarrow> Inl e | Inr (stop, s') \<Rightarrow> Inr (stop, s', g1))"
    "\<And>s'. take_options F es s = Inr (False, s') \<Longrightarrow> g1 = g'"
  using assms
proof (induction es arbitrary: g s vars thesis)
  case Nil
  from Nil.prems(2) have "getopt_long posix os lo g = Inr (EOF, g')" by (cases rule: scans.cases) auto
  with Nil.prems(1) [of g'] show ?case by (simp add: option_loop_step(1))
next
  case (Cons e es)
  obtain c a f where e: "e = Event c a f" by (cases e)
  from Cons.prems(2) obtain g1 where g1: "getopt_long posix os lo g = Inr (c, g1)" "c \<noteq> EOF" "a = optarg g1"
    "scans posix os lo g1 (seen (applied f vars) es) g'"
    unfolding e by (cases rule: scans.cases) auto
  note go = option_loop_step(2) [of "getopt_long posix", OF g1(1,2), of F s, folded g1(3)]
  show ?case
  proof (cases "\<exists>s1. handle_option F c a s = Inr (Some s1)")
    case True
    then obtain s1 where s1: "handle_option F c a s = Inr (Some s1)" by blast
    obtain g2 where "option_loop F (getopt_long posix) os lo g1 s1 =
        Some (case take_options F es s1 of Inl e \<Rightarrow> Inl e | Inr (stop, s') \<Rightarrow> Inr (stop, s', g2))"
      "\<And>s'. take_options F es s1 = Inr (False, s') \<Longrightarrow> g2 = g'"
      using Cons.IH [OF _ g1(4)] by blast
    then show ?thesis using Cons.prems(1) [of g2] s1 go unfolding e by simp
  next
    case False
    then have "option_loop F (getopt_long posix) os lo g s =
        Some (case take_options F (e # es) s of Inl e \<Rightarrow> Inl e | Inr (stop, s') \<Rightarrow> Inr (stop, s', g1)) \<and>
        (\<forall>s'. take_options F (e # es) s \<noteq> Inr (False, s'))"
      unfolding go e by (auto split: sum.splits option.splits)
    with Cons.prems(1) [of g1] show ?thesis by blast
  qed
qed

text \<open>The first operand, or what is found in its place.\<close>

definition first_operand :: "bool \<Rightarrow> string list \<Rightarrow> fault + string option" where
  "first_operand null_terminated operands =
     (case operands of img # _ \<Rightarrow> Inr (Some img) | [] \<Rightarrow> if null_terminated then Inr None else Inl Out_Of_Bounds)"

lemma image_argument_operand:
  assumes "drop (optind g) (args g) = operands" "optind g \<le> length (args g)"
  shows "image_argument nt g = first_operand nt operands"
proof (cases "optind g < length (args g)")
  case True
  then have "drop (optind g) (args g) = args g ! optind g # drop (Suc (optind g)) (args g)" by (simp add: Cons_nth_drop_Suc)
  with assms True show ?thesis by (auto simp: image_argument_def first_operand_def)
next
  case False
  with assms show ?thesis by (auto simp: image_argument_def first_operand_def)
qed

definition main_result :: "'o front \<Rightarrow> os_answers \<Rightarrow> bool \<Rightarrow> (string \<Rightarrow> int) \<Rightarrow> 'o \<Rightarrow> event list \<Rightarrow> string list \<Rightarrow> string \<times> (fault + start \<times> 'o)" where
  "main_result F sys null_terminated vars x evs operands =
     (case take_options F evs (default_settings x) of
        Inl e \<Rightarrow> ([], Inl e)
      | Inr (True, s) \<Rightarrow> (usage F, Inr (Returns EXIT_FAILURE, arch_settings s))
      | Inr (False, s) \<Rightarrow>
          (case after_options F sys (final_vars (vars(''ismaster'' := 0)) evs ''ismaster'' \<noteq> 0) (first_operand null_terminated operands) s of
             (text, r) \<Rightarrow> (text, andThen r (\<lambda>start. Inr (start, arch_settings s)))))"

definition all_options :: "'o front \<Rightarrow> long_option list" where
  "all_options F = default_opts_list @ (case arch_long_opts F of None \<Rightarrow> [] | Some extra \<Rightarrow> opts_until_zero extra)"

text \<open>The table of the back end ends with a zero entry and its codes are out of the way.\<close>

definition proper_table :: "'o front \<Rightarrow> bool" where
  "proper_table F \<longleftrightarrow>
     (case arch_long_opts F of
        None \<Rightarrow> True
      | Some extra \<Rightarrow> None \<in> set extra \<and> (\<forall>p \<in> set (opts_until_zero extra). val p \<noteq> EOF))"

lemma table_of_list: "None \<in> set extra \<Longrightarrow> \<exists>es junk. extra = map Some es @ None # junk"
proof (induction extra)
  case (Cons y extra)
  show ?case
  proof (cases y)
    case None
    then show ?thesis by (intro exI [of _ "[]"] exI [of _ extra]) simp
  next
    case (Some p)
    with Cons obtain es junk where "extra = map Some es @ None # junk" by auto
    with Some show ?thesis by (intro exI [of _ "p # es"] exI [of _ junk]) simp
  qed
qed simp

lemma setup_options_proper:
  assumes "proper_table F"
  shows "\<exists>lopts. setup_options F = Inr (lopts, ''h:p:t:'') \<and> opts_until_zero lopts = all_options F"
proof (cases "arch_long_opts F")
  case None
  then show ?thesis using setup_options_table(1) [OF None] by (simp add: all_options_def)
next
  case (Some extra)
  with assms obtain es junk where e: "extra = map Some es @ None # junk" using table_of_list [of extra] by (auto simp: proper_table_def)
  with setup_options_table(2) [OF Some [unfolded e]] Some show ?thesis by (simp add: all_options_def del: map_append)
qed

lemma risu_main_parses:
  assumes "proper_table F" "fresh (prog # av) g" "tidy (all_options F) (prog # av)" "parse ''h:p:t:'' (all_options F) av = (evs, operands)"
  shows "\<exists>g'. risu_main F (getopt_long False) sys null_terminated g x =
    (case main_result F sys null_terminated (flag_vars g) x evs operands of
       (text, r) \<Rightarrow> Some (text, andThen r (\<lambda>(start, x'). Inr (start, g', x'))))"
proof -
  define g0 where "g0 = g\<lparr>flag_vars := (flag_vars g)(''ismaster'' := 0)\<rparr>"
  have "\<forall>p \<in> set (all_options F). val p \<noteq> EOF"
    using assms(1) by (auto simp: proper_table_def all_options_def default_opts_list_def default_longopts_def EOF_def code_def split: option.splits)
  moreover have "fresh (prog # av) g0" using assms(2) by (simp add: fresh_def g0_def)
  ultimately obtain g' where g': "scans False ''h:p:t:'' (all_options F) g0 (seen (flag_vars g0) evs) g'" "drop (optind g') (args g') = operands"
    "optind g' \<le> length (args g')" "flag_vars g' = final_vars (flag_vars g0) evs"
    using scans_parse [OF _ assms(3,4), of g0] by (auto simp: ch_def)
  obtain g1 where g1: "option_loop F (getopt_long False) ''h:p:t:'' (all_options F) g0 (default_settings x) =
      Some (case take_options F evs (default_settings x) of Inl e \<Rightarrow> Inl e | Inr (stop, s') \<Rightarrow> Inr (stop, s', g1))"
    "\<And>s'. take_options F evs (default_settings x) = Inr (False, s') \<Longrightarrow> g1 = g'"
    using option_loop_scans [OF g'(1)] by blast
  obtain lopts where lop: "setup_options F = Inr (lopts, ''h:p:t:'')" "opts_until_zero lopts = all_options F"
    using setup_options_proper [OF assms(1)] by blast
  have "risu_main F (getopt_long False) sys null_terminated g x =
    (case main_result F sys null_terminated (flag_vars g) x evs operands of
       (text, r) \<Rightarrow> Some (text, andThen r (\<lambda>(start, x'). Inr (start, g1, x'))))"
  proof (cases "\<exists>s. take_options F evs (default_settings x) = Inr (False, s)")
    case True
    then obtain s where s: "take_options F evs (default_settings x) = Inr (False, s)" by blast
    obtain out r where ao: "after_options F sys (flag_vars g' ''ismaster'' \<noteq> 0) (first_operand null_terminated operands) s = (out, r)"
      by (cases "after_options F sys (flag_vars g' ''ismaster'' \<noteq> 0) (first_operand null_terminated operands) s")
    with s lop g1 g'(4) image_argument_operand [OF g'(2,3)] show ?thesis
      unfolding risu_main_def main_result_def g0_def [symmetric] by (cases r) (simp_all add: g0_def)
  next
    case False
    with lop g1(1) show ?thesis
      unfolding risu_main_def main_result_def g0_def [symmetric] by (auto split: sum.splits prod.splits bool.splits)
  qed
  then show ?thesis by blast
qed

text \<open>A port number is read back as it was printed; a larger number is cut off to sixteen bits without a message.\<close>

lemma port_option:
  assumes "n < 2 ^ (long_bits F - 1)"
  shows "handle_option F (code (CHR ''p'')) (Some (decn n)) s = Inr (Some (s\<lparr>port := of_nat n\<rparr>))"
  by (simp add: handle_option_def strtol_10_decn [OF assms] code_def)

end
