(* ===== verification/Console.thy ===== *)
theory Console
  imports Argfile Risu_Main PPC_Backend
begin

text \<open>
  The driver in \<^verbatim>\<open>src/risu_main.c\<close>: on Mac OS 9 a console that reads lines, splits them with \<^verbatim>\<open>argcargv\<close> and runs \<^verbatim>\<open>risu\<close>,
  \<^verbatim>\<open>source\<close> and \<^verbatim>\<open>exit\<close> commands; elsewhere a call of \<^verbatim>\<open>risu_main\<close>. The PowerPC back end is put into the command line here.
\<close>

section \<open>The console\<close>

datatype script_file = Cannot_Open | Cannot_Stat | No_Memory | Script string

text \<open>The words of a line, through the pointers that \<^verbatim>\<open>argcargv\<close> stored.\<close>

definition words_of :: "splitter \<Rightarrow> fault + string list" where
  "words_of st = (if None \<in> set (argv_words st) then Inl Out_Of_Bounds else Inr (map the (argv_words st)))"

fun joined :: "string list \<Rightarrow> string" where
  "joined [] = []"
| "joined [w] = w"
| "joined (w # ws) = w @ '' '' @ joined ws"

definition args_line :: "string list \<Rightarrow> string" where
  "args_line ws = nl @ decs (int (length ws)) @ '' args: '' @ joined ws @ nl"

text \<open>
  \<open>run\<close> is the \<^verbatim>\<open>risu\<close> command, \<open>out\<close> writes a text, \<open>fs\<close> tells what became of opening and reading a file. A null pointer
  ends the loop like the end of the text; a script that sources itself does not end.
\<close>

partial_function (option) eval ::
  "(string \<Rightarrow> script_file) \<Rightarrow> (string list \<Rightarrow> 's \<Rightarrow> (fault + 's) option) \<Rightarrow> (string \<Rightarrow> 's \<Rightarrow> 's) \<Rightarrow> string \<Rightarrow> 's \<Rightarrow> (fault + 's) option" where
  "eval fs run out buf s =
     (if buf = [] then Some (Inl Out_Of_Bounds)
      else if hd buf = NUL then Some (Inr s)
      else
        (case argcargv True (Some buf) of
           Inl e \<Rightarrow> Some (Inl e)
         | Inr None \<Rightarrow> Some (Inr s)
         | Inr (Some st) \<Rightarrow>
             (let rest = drop (src st) (text_buf st); s0 = fold out (printed st) s
              in if argc st = 0 then eval fs run out rest s0
                 else
                   (case words_of st of
                      Inl e \<Rightarrow> Some (Inl e)
                    | Inr ws \<Rightarrow>
                        (let s1 = out (args_line ws) s0
                         in if hd ws = ''exit'' then Some (Inr (out (''[Process completed]'' @ nl) s1))
                            else
                              Option.bind
                                (if hd ws \<noteq> ''source'' then Some (Inr s1)
                                 else if length ws \<noteq> 2 then Some (Inr (out ''Expected filename.'' s1))
                                 else
                                   (case fs (ws ! 1) of
                                      Cannot_Open \<Rightarrow> Some (Inr (out (''failed to open file '' @ ws ! 1 @ nl) s1))
                                    | Cannot_Stat \<Rightarrow> Some (Inr s1)
                                    | No_Memory \<Rightarrow> Some (Inr s1)
                                    | Script text \<Rightarrow> eval fs run out (text @ [NUL]) s1))
                                (\<lambda>r. case r of
                                   Inl e \<Rightarrow> Some (Inl e)
                                 | Inr s2 \<Rightarrow>
                                     Option.bind (if hd ws = ''risu'' then run ws s2 else Some (Inr s2))
                                       (\<lambda>r. case r of Inl e \<Rightarrow> Some (Inl e) | Inr s3 \<Rightarrow> eval fs run out rest s3)))))))"

text \<open>
  The state of the console: the variables of \<^verbatim>\<open>getopt\<close>, the options of the back end, what was printed, and the sessions
  that were started, in order.
\<close>

record 'o console =
  getopt_vars :: getopt_state
  back_end :: 'o
  transcript :: string
  sessions :: "start list"

definition print :: "string \<Rightarrow> 'o console \<Rightarrow> 'o console" where
  "print text con = con\<lparr>transcript := transcript con @ text\<rparr>"

text \<open>\<^verbatim>\<open>risu_main(argc, argv); optind = 0;\<close> with the array of \<^verbatim>\<open>argcargv\<close>, which has no null pointer at its end.\<close>

definition risu_command :: "'o front \<Rightarrow> next_option \<Rightarrow> os_answers \<Rightarrow> string list \<Rightarrow> 'o console \<Rightarrow> (fault + 'o console) option" where
  "risu_command F next_opt sys ws con =
     (case risu_main F next_opt sys False ((getopt_vars con)\<lparr>args := ws, messages := []\<rparr>) (back_end con) of
        None \<Rightarrow> None
      | Some (text, Inl e) \<Rightarrow> Some (Inl e)
      | Some (text, Inr (start, g, x)) \<Rightarrow>
          Some (Inr (con\<lparr>getopt_vars := g\<lparr>optind := 0\<rparr>, back_end := x, transcript := transcript con @ concat (messages g) @ text,
            sessions := sessions con @ [start]\<rparr>)))"

text \<open>One line of input on Mac OS 9; \<^verbatim>\<open>fgets\<close> leaves at most 29999 characters and a terminator in \<^verbatim>\<open>gbuf\<close>.\<close>

definition console_line :: "'o front \<Rightarrow> next_option \<Rightarrow> os_answers \<Rightarrow> (string \<Rightarrow> script_file) \<Rightarrow> string \<Rightarrow> 'o console \<Rightarrow> (fault + 'o console) option" where
  "console_line F next_opt sys fs line con =
     eval fs (risu_command F next_opt sys) print (take 29999 line @ [NUL]) (print ''# '' con)"

text \<open>Elsewhere: the arguments of the process, followed by a null pointer.\<close>

definition main :: "'o front \<Rightarrow> next_option \<Rightarrow> os_answers \<Rightarrow> getopt_state \<Rightarrow> 'o \<Rightarrow> (string \<times> (fault + start \<times> getopt_state \<times> 'o)) option" where
  "main F next_opt sys g x = risu_main F next_opt sys True g x"

section \<open>The PowerPC command line\<close>

definition ppc_long_opts :: "long_option option list" where
  "ppc_long_opts =
     map (\<lambda>(name, c). Some \<lparr>opt_name = name, has_arg = required_argument, flag = None, val = c\<rparr>) extra_opts @ [None]"

definition ppc_extra_help :: string where
  "ppc_extra_help =
     ''  --gregs_mask=MASK  Mask of gregs to compare'' @ nl @
     ''  --fpregs_mask=MASK Mask of fpregs to compare'' @ nl @
     ''  --vrregs_mask=MASK Mask of vrregs to compare'' @ nl @
     ''  --ccr_mask=MASK    Mask of CCR bits to compare'' @ nl @
     ''  --xer_mask=MASK    Mask of XER bits to compare'' @ nl @
     ''  --mq_mask=MASK     Mask of MQ bits to compare'' @ nl @
     ''  --fpscr_mask=MASK  Mask of FPSCR bits to compare'' @ nl @
     ''  --fp_opts=OPTS     Options for comparing fpregs'' @ nl @
     ''  --cpu_opts=OPTS    CPU options'' @ nl"

definition ppc_front :: "bool \<Rightarrow> nat \<Rightarrow> ppc_opts front" where
  "ppc_front macos9 bits =
     \<lparr>on_macos9 = macos9, with_zlib = False, no_signal = macos9, long_bits = bits, arch_long_opts = Some ppc_long_opts,
      arch_extra_help = Some ppc_extra_help,
      arch_process_opt = (\<lambda>c arg x. case arg of None \<Rightarrow> Inl Out_Of_Bounds | Some a \<Rightarrow> process_arch_opt bits c a x)\<rparr>"

section \<open>Scripts\<close>

lemma lex_line_shorter: "lex_line t = (toks, rest, msgs) \<Longrightarrow> t \<noteq> [] \<Longrightarrow> length rest < length t \<and> set rest \<subseteq> set t"
proof (induction t arbitrary: toks rest msgs rule: lex_line.induct)
  case (1 t)
  have len: "length (dropWhile is_blank t) \<le> length t" "set (dropWhile is_blank t) \<subseteq> set t"
    by (simp_all add: length_dropWhile_le set_dropWhileD subsetI)
  show ?case
  proof (cases "dropWhile is_blank t")
    case Nil
    with "1.prems" show ?thesis by (simp add: lex_line.simps [of t])
  next
    case (Cons c t1)
    obtain w r e m where l: "lex_word (c # t1) = (w, r, e, m)" by (cases "lex_word (c # t1)")
    note lw = lex_word_shorter [OF l]
    show ?thesis
    proof (cases "is_newline c")
      case True
      with "1.prems" Cons len show ?thesis by (auto simp: lex_line.simps [of t])
    next
      case False
      note lf = lex_line_first [OF Cons False l "1.prems"(1)]
      have IH: "length rest' \<le> length r \<and> set rest' \<subseteq> set r" if "e \<noteq> End_Of_Line" "lex_line r = (toks', rest', msgs')" for toks' rest' msgs'
        using "1.IH" [OF Cons False l [symmetric] refl refl refl that] that(2)
        by (cases "r = []") (auto simp: lex_line.simps)
      show ?thesis
      proof (cases "e = End_Of_Line")
        case True
        with lf lw len Cons show ?thesis by auto
      next
        case eol: False
        with lf obtain toks' msgs' where "lex_line r = (toks', rest, msgs')" by auto
        with IH [OF eol this] lw len Cons show ?thesis by auto
      qed
    qed
  qed
qed

function script_lines :: "string \<Rightarrow> (string list \<times> string list) list" where
  "script_lines t =
     (if t = [] then []
      else case lex_line t of (ws, rest, msgs) \<Rightarrow> (ws, msgs @ msgs) # script_lines rest)"
  by pat_completeness auto
termination
  by (relation "measure length") (auto dest: lex_line_shorter [OF sym])

declare script_lines.simps [simp del]

text \<open>The lines one after the other.\<close>

fun run_lines :: "(string list \<Rightarrow> 's \<Rightarrow> (fault + 's) option) \<Rightarrow> (string \<Rightarrow> 's \<Rightarrow> 's) \<Rightarrow> (string list \<times> string list) list \<Rightarrow> 's \<Rightarrow> (fault + 's) option" where
  "run_lines run out [] s = Some (Inr s)"
| "run_lines run out ((ws, msgs) # ls) s =
     (let s0 = fold out msgs s; s1 = out (args_line ws) s0
      in if ws = [] then run_lines run out ls s0
         else if hd ws = ''exit'' then Some (Inr (out (''[Process completed]'' @ nl) s1))
         else if hd ws = ''risu'' then
           Option.bind (run ws s1) (\<lambda>r. case r of Inl e \<Rightarrow> Some (Inl e) | Inr s2 \<Rightarrow> run_lines run out ls s2)
         else run_lines run out ls s1)"

definition sources_nothing :: "string \<Rightarrow> bool" where
  "sources_nothing t = (\<forall>(ws, msgs) \<in> set (script_lines t). ws \<noteq> [] \<longrightarrow> hd ws \<noteq> ''source'')"

lemma argcargv_line:
  assumes "NUL \<notin> set t" "lex_line t = (toks, rest, msgs)"
  obtains st where "argcargv True (Some (t @ NUL # j)) = Inr (Some st)" "argc st = length toks" "words_of st = Inr toks"
    "drop (src st) (text_buf st) = rest @ NUL # j" "printed st = msgs @ msgs"
proof -
  obtain st where st: "first_pass (t @ NUL # j) = Inr st" "argc st = length toks" "printed st = msgs" "text_buf st = t @ NUL # j"
    using first_pass_reads [OF assms] by metis
  obtain st' where st': "second_pass st = Inr st'" "argc st' = length toks" "printed st' = printed st @ msgs"
    "drop (src st') (text_buf st') = rest @ NUL # j" "argv_words st' = map Some toks"
    using second_pass_reads [OF assms st(4,2)] by metis
  show thesis
    by (rule that [of st']) (use st st' in \<open>auto simp: argcargv_def words_of_def comp_def\<close>)
qed

lemma eval_lines:
  assumes "NUL \<notin> set t" "sources_nothing t"
  shows "eval fs run out (t @ NUL # j) s = run_lines run out (script_lines t) s"
  using assms
proof (induction t arbitrary: s rule: script_lines.induct)
  case (1 t)
  show ?case
  proof (cases "t = []")
    case True
    then show ?thesis by (simp add: eval.simps [of _ _ _ "NUL # j"] script_lines.simps)
  next
    case False
    obtain toks rest msgs where l: "lex_line t = (toks, rest, msgs)" by (cases "lex_line t")
    obtain st where st: "argcargv True (Some (t @ NUL # j)) = Inr (Some st)" "argc st = length toks" "words_of st = Inr toks"
      "drop (src st) (text_buf st) = rest @ NUL # j" "printed st = msgs @ msgs"
      using argcargv_line [OF "1.prems"(1) l] by metis
    have sl: "script_lines t = (toks, msgs @ msgs) # script_lines rest" using False l by (simp add: script_lines.simps [of t])
    have IH: "eval fs run out (rest @ NUL # j) = run_lines run out (script_lines rest)"
    proof
      fix s
      have "NUL \<notin> set rest" using "1.prems"(1) lex_line_shorter [OF l False] by blast
      moreover have "sources_nothing rest" using "1.prems"(2) sl by (simp add: sources_nothing_def)
      ultimately show "eval fs run out (rest @ NUL # j) s = run_lines run out (script_lines rest) s"
        using "1.IH" [OF False l [symmetric] refl] by blast
    qed
    have hd: "t @ NUL # j \<noteq> []" "hd (t @ NUL # j) \<noteq> NUL" using False "1.prems"(1) by (cases t; auto)+
    have src: "toks \<noteq> [] \<longrightarrow> hd toks \<noteq> ''source''" using "1.prems"(2) sl by (auto simp: sources_nothing_def)
    show ?thesis
      unfolding eval.simps [of fs run out "t @ NUL # j" s] sl using hd st src IH
      by (auto simp: Let_def)
  qed
qed

text \<open>C20: A script without \<^verbatim>\<open>source\<close> commands is run to its end: \<^verbatim>\<open>eval\<close> executes the \<^verbatim>\<open>risu\<close> commands of its lines in order, each with the
  words the reference lexer finds in the original text, and stops at the first \<^verbatim>\<open>exit\<close>, although every line overwrites
  the buffer the later lines are read from.\<close>

theorem eval_runs_lines:
  assumes "NUL \<notin> set t" "sources_nothing t"
  shows "eval fs run out (t @ NUL # j) s = run_lines run out (script_lines t) s"
  by (rule eval_lines [OF assms])

theorem eval_runs_lines_witness:
  "eval (\<lambda>_. Cannot_Open) (\<lambda>ws s. Some (Inr (s @ [ws]))) (\<lambda>_ s. s) (''risu a'' @ [CHR 0x0A] @ ''exit'' @ [CHR 0x0A] @ ''risu b'' @ [NUL]) [] =
     Some (Inr [[''risu'', ''a'']])"
proof -
  have sl: "script_lines (''risu a'' @ [CHR 0x0A] @ ''exit'' @ [CHR 0x0A] @ ''risu b'') =
      [([''risu'', ''a''], []), ([''exit''], []), ([''risu'', ''b''], [])]"
    by (simp add: script_lines.simps lex_line.simps lex_word.simps is_blank_def is_newline_def dquote_def squote_def backslash_def)
  have "NUL \<notin> set (''risu a'' @ [CHR 0x0A] @ ''exit'' @ [CHR 0x0A] @ ''risu b'')" by (simp add: NUL_def)
  moreover have "sources_nothing (''risu a'' @ [CHR 0x0A] @ ''exit'' @ [CHR 0x0A] @ ''risu b'')"
    unfolding sources_nothing_def sl by simp
  ultimately have "eval (\<lambda>_. Cannot_Open) (\<lambda>ws s. Some (Inr (s @ [ws]))) (\<lambda>_ s. s) ((''risu a'' @ [CHR 0x0A] @ ''exit'' @ [CHR 0x0A] @ ''risu b'') @ [NUL]) [] =
      run_lines (\<lambda>ws s. Some (Inr (s @ [ws]))) (\<lambda>_ s. s) (script_lines (''risu a'' @ [CHR 0x0A] @ ''exit'' @ [CHR 0x0A] @ ''risu b'')) []"
    by (rule eval_runs_lines)
  then show ?thesis unfolding sl by simp
qed

section \<open>The command line\<close>

lemma ppc_proper: "proper_table (ppc_front macos9 bits)"
proof -
  have "opts_until_zero ppc_long_opts = map (\<lambda>(name, c). \<lparr>opt_name = name, has_arg = required_argument, flag = None, val = c\<rparr>) extra_opts"
    by (simp add: ppc_long_opts_def extra_opts_def)
  then show ?thesis by (simp add: proper_table_def ppc_front_def extra_opts_def EOF_def FIRST_ARCH_OPT_def) (simp add: ppc_long_opts_def)
qed

text \<open>C15: \<^verbatim>\<open>risu_main\<close> with the \<^verbatim>\<open>getopt_long\<close> of \<^verbatim>\<open>compat/getopt.c\<close> always gets through the command line, and what it does is determined by
  the reference parser: the options are handled in their order until one of them ends the program, the role is that of the
  last setting of \<^verbatim>\<open>ismaster\<close>, the image is the first operand wherever it stands, and with neither operand nor null pointer
  behind the arguments the access to \<^verbatim>\<open>argv[optind]\<close> is out of bounds.\<close>

theorem risu_main_follows_parse:
  assumes "proper_table F" "fresh (prog # av) g" "tidy (all_options F) (prog # av)" "parse ''h:p:t:'' (all_options F) av = (evs, operands)"
  shows "\<exists>g'. risu_main F (getopt_long False) sys null_terminated g x =
    (case main_result F sys null_terminated (flag_vars g) x evs operands of
       (text, r) \<Rightarrow> Some (text, andThen r (\<lambda>(start, x'). Inr (start, g', x'))))"
  by (rule risu_main_parses [OF assms])


definition sample_sys :: os_answers where
  "sample_sys = \<lparr>can_open = (\<lambda>_ _. True), net = \<lparr>net_socket = 3, net_setsockopt = (\<lambda>_. 0), net_gethostbyname = (\<lambda>_. None), net_connect = (\<lambda>_ _. 0),
       net_bind = (\<lambda>_ _. 0), net_listen = (\<lambda>_ _. 0), net_accept = (\<lambda>_. 4)\<rparr>, open_fds = {0, 1, 2}, image_files = (\<lambda>_. Image 100 0x1000), stack_ok = True\<rparr>"

lemma ppc_options:
  "all_options (ppc_front macos9 bits) =
     default_opts_list @ map (\<lambda>(name, c). \<lparr>opt_name = name, has_arg = required_argument, flag = None, val = c\<rparr>) extra_opts"
  by (simp add: all_options_def ppc_front_def ppc_long_opts_def extra_opts_def)

lemma ppc_tidy: "tidy (all_options (ppc_front macos9 bits)) av \<longleftrightarrow> (\<forall>a \<in> set av. CHR 0x00 \<notin> set a)"
  by (simp add: tidy_def ppc_options default_opts_list_def default_longopts_def extra_opts_def)

theorem risu_main_follows_parse_witness:
  "\<exists>text g' x'. risu_main (ppc_front True 32) (getopt_long False) sample_sys False
      (example_state [''risu'', ''image'', ''--master'', ''--xer'', ''ff'', ''-tout'']) (default_opts RISU_MACOS9) =
    Some (text, Inr (Starts True (Trace_File ''out'' True) 0x1000 100, g', (default_opts RISU_MACOS9)\<lparr>xer_mask := 0xff\<rparr>))"
proof -
  let ?lo = "all_options (ppc_front True 32)"
  have pr: "parse ''h:p:t:'' ?lo [''image'', ''--master'', ''--xer'', ''ff'', ''-tout''] =
     ([Event 0 None (Some (''ismaster'', 1)), Event (FIRST_ARCH_OPT + 6) (Some ''ff'') None, Event (code (CHR ''t'')) (Some ''out'') None], [''image''])"
    by (simp add: parse.simps is_nonopt_def ch_def long_event_def choose_long_def ppc_options default_opts_list_def default_longopts_def
        extra_opts_def abbreviated_def before_equals_def from_equals_def no_argument_def required_argument_def chosen_event_def)
  have fr: "fresh [''risu'', ''image'', ''--master'', ''--xer'', ''ff'', ''-tout''] (example_state [''risu'', ''image'', ''--master'', ''--xer'', ''ff'', ''-tout''])"
    by (simp add: fresh_def example_state_def)
  have td: "tidy ?lo [''risu'', ''image'', ''--master'', ''--xer'', ''ff'', ''-tout'']" by (simp add: ppc_tidy)
  have "process_arch_opt 32 (FIRST_ARCH_OPT + 6) ''ff'' (default_opts RISU_MACOS9) = Inr ((default_opts RISU_MACOS9)\<lparr>xer_mask := 0xff\<rparr>)"
    by (simp add: process_arch_opt_def FIRST_ARCH_OPT_def strtoul_16_def is_space_def strip_0x_def Let_def)
  then have "\<exists>text. main_result (ppc_front True 32) sample_sys False (\<lambda>_. 0) (default_opts RISU_MACOS9)
      [Event 0 None (Some (''ismaster'', 1)), Event (FIRST_ARCH_OPT + 6) (Some ''ff'') None, Event (code (CHR ''t'')) (Some ''out'') None] [''image''] =
      (text, Inr (Starts True (Trace_File ''out'' True) 0x1000 100, (default_opts RISU_MACOS9)\<lparr>xer_mask := 0xff\<rparr>))"
    by (simp add: main_result_def handle_option_def default_settings_def ppc_front_def code_def FIRST_ARCH_OPT_def applied_def after_options_def
        open_trace_def start_session_def load_image_def first_operand_def sample_sys_def Let_def)
  with risu_main_follows_parse [OF ppc_proper fr td pr, of sample_sys False "default_opts RISU_MACOS9"]
  show ?thesis by (auto simp: example_state_def)
qed


text \<open>What is visible of a run besides the variables of \<^verbatim>\<open>getopt\<close>.\<close>

definition outcome_of :: "(string \<times> (fault + start \<times> getopt_state \<times> 'o)) option \<Rightarrow> (string \<times> (fault + start \<times> 'o)) option" where
  "outcome_of m = map_option (\<lambda>(text, r). (text, andThen r (\<lambda>(start, g, x). Inr (start, x)))) m"

lemma outcome_of_main_result:
  assumes "proper_table F" "fresh (prog # av) g" "tidy (all_options F) (prog # av)" "parse ''h:p:t:'' (all_options F) av = (evs, operands)"
  shows "outcome_of (risu_main F (getopt_long False) sys null_terminated g x) = Some (main_result F sys null_terminated (flag_vars g) x evs operands)"
proof -
  obtain out r where m: "main_result F sys null_terminated (flag_vars g) x evs operands = (out, r)"
    by (cases "main_result F sys null_terminated (flag_vars g) x evs operands")
  with risu_main_parses [OF assms, of sys null_terminated x] show ?thesis by (cases r) (auto simp: outcome_of_def)
qed

text \<open>What the reference parser reports for an option that \<^verbatim>\<open>getopt_long\<close> complains about.\<close>

definition good_events :: "event list \<Rightarrow> event list" where
  "good_events evs = filter (\<lambda>e. e \<noteq> Event BAD_OPTION None None) evs"

lemma take_options_good: "take_options F (good_events evs) s = take_options F evs s"
proof (induction F evs s rule: take_options.induct)
  case (2 F c a f es s)
  then show ?case
    by (cases "Event c a f = Event BAD_OPTION None None")
      (auto simp: good_events_def handle_option_def BAD_OPTION_def split: sum.splits option.splits)
qed (simp add: good_events_def)

lemma final_vars_good: "final_vars vars (good_events evs) = final_vars vars evs"
  by (induction vars evs rule: final_vars.induct) (auto simp: good_events_def applied_def split: option.splits)

text \<open>C39: With the \<^verbatim>\<open>getopt_long\<close> of \<^verbatim>\<open>compat/getopt.c\<close> no bad option ends the program, wherever it stands: neither an unknown or
  ambiguous long option, nor an illegal short one, nor one whose argument is missing or not allowed. Each is returned as
  \<^verbatim>\<open>BAD_OPTION\<close>, which is 0 there, and 0 is what \<^verbatim>\<open>risu_main\<close> takes for a flag that was set. A run is the same as that of any
  command line that stands for the good options and the operands alone: a bad option never brings up the usage text.\<close>

theorem bad_options_are_ignored:
  assumes "proper_table F" "optind g = 0" "tidy (all_options F) (prog # av)" "tidy (all_options F) (prog # av')"
    "parse ''h:p:t:'' (all_options F) av = (evs, operands)" "parse ''h:p:t:'' (all_options F) av' = (good_events evs, operands)"
  shows "outcome_of (risu_main F (getopt_long False) sys null_terminated (g\<lparr>args := prog # av\<rparr>) x) =
    outcome_of (risu_main F (getopt_long False) sys null_terminated (g\<lparr>args := prog # av'\<rparr>) x)"
proof -
  have "outcome_of (risu_main F (getopt_long False) sys null_terminated (g\<lparr>args := prog # av\<rparr>) x) =
      Some (main_result F sys null_terminated (flag_vars g) x evs operands)"
    using outcome_of_main_result [OF assms(1) _ assms(3,5), of "g\<lparr>args := prog # av\<rparr>"] assms(2) by (simp add: fresh_def)
  moreover have "outcome_of (risu_main F (getopt_long False) sys null_terminated (g\<lparr>args := prog # av'\<rparr>) x) =
      Some (main_result F sys null_terminated (flag_vars g) x (good_events evs) operands)"
    using outcome_of_main_result [OF assms(1) _ assms(4,6), of "g\<lparr>args := prog # av'\<rparr>"] assms(2) by (simp add: fresh_def)
  ultimately show ?thesis by (simp only: main_result_def take_options_good final_vars_good)
qed

text \<open>An unknown long option, an illegal short one, and a missing argument.\<close>

theorem bad_options_are_ignored_witness:
  "outcome_of (risu_main (ppc_front True 32) (getopt_long False) sample_sys False
      (example_state [''risu'', ''-tout'', ''--no-such-option=3'', ''-q'', ''image'', ''--xer'']) (default_opts RISU_MACOS9)) =
   outcome_of (risu_main (ppc_front True 32) (getopt_long False) sample_sys False
      (example_state [''risu'', ''-tout'', ''image'']) (default_opts RISU_MACOS9))"
proof -
  let ?lo = "all_options (ppc_front True 32)" and ?bad = "Event BAD_OPTION None None" and ?t = "Event (code (CHR ''t'')) (Some ''out'') None"
  have p: "parse ''h:p:t:'' ?lo [''-tout'', ''--no-such-option=3'', ''-q'', ''image'', ''--xer''] = ([?t, ?bad, ?bad, ?bad], [''image''])"
    "parse ''h:p:t:'' ?lo [''-tout'', ''image''] = (good_events [?t, ?bad, ?bad, ?bad], [''image''])"
    by (simp_all add: parse.simps is_nonopt_def ch_def long_event_def choose_long_def ppc_options default_opts_list_def default_longopts_def
        extra_opts_def abbreviated_def before_equals_def from_equals_def no_argument_def required_argument_def chosen_event_def
        missing_arg_code_def good_events_def)
  have t: "tidy ?lo (''risu'' # [''-tout'', ''--no-such-option=3'', ''-q'', ''image'', ''--xer''])" "tidy ?lo (''risu'' # [''-tout'', ''image''])"
    by (simp_all add: ppc_tidy)
  have e: "example_state av = (example_state [])\<lparr>args := av\<rparr>" for av by (simp add: example_state_def)
  show ?thesis
    unfolding e [of "''risu'' # _"] by (rule bad_options_are_ignored [OF ppc_proper _ t p]) (simp add: example_state_def)
qed

end
