(* ===== verification/Reg_Compare.thy ===== *)
theory Reg_Compare
  imports Risu_Types C_Strtol
begin

text \<open>
  What the back ends for ARM, AArch64, i386, LoongArch, m68k and s390x have in common: the contract of comparing two
  register images and reporting their differences, instruction words read from memory, the recognition of the designated
  undefined instruction, and the \<^verbatim>\<open>printf\<close> conversions of their dumps.
\<close>

section \<open>Conversions\<close>

text \<open>\<^verbatim>\<open>%x\<close> for any width, and padding on either side.\<close>

definition hexm :: "nat \<Rightarrow> 'a::len word \<Rightarrow> string" where
  "hexm digits w = (case dropWhile (\<lambda>c. c = nibble_char 0) (hexn digits w) of [] \<Rightarrow> [nibble_char 0] | cs \<Rightarrow> cs)"

definition tab :: string where "tab = [CHR 0x09]"

definition pad_left :: "nat \<Rightarrow> string \<Rightarrow> string" where
  "pad_left k s = replicate (k - length s) (CHR 0x20) @ s"

definition pad_right :: "nat \<Rightarrow> string \<Rightarrow> string" where
  "pad_right k s = s @ replicate (k - length s) (CHR 0x20)"

definition pad_zero :: "nat \<Rightarrow> string \<Rightarrow> string" where
  "pad_zero k s = replicate (k - length s) (CHR ''0'') @ s"

text \<open>A loop that prints something for each index.\<close>

definition for_each :: "nat \<Rightarrow> (nat \<Rightarrow> string) \<Rightarrow> string" where
  "for_each n f = concat (map f [0..<n])"

lemma for_each_Nil: "for_each n f = [] \<longleftrightarrow> (\<forall>i<n. f i = [])"
  by (auto simp: for_each_def)

section \<open>Structures compared by \<^verbatim>\<open>memcmp\<close>\<close>

text \<open>Structures with the same number of elements have the same bytes only if they have the same elements.\<close>

named_theorems layout_inject

lemma mem_bytes_inject [layout_inject]:
  fixes v w :: "'a::len word"
  assumes "LENGTH('a) \<le> 8 * n"
  shows "mem_bytes big n v @ r = mem_bytes big n w @ s \<longleftrightarrow> v = w \<and> r = s"
    and "mem_bytes big n v = mem_bytes big n w \<longleftrightarrow> v = w"
proof -
  have "v = w" if "mem_bytes big n v = mem_bytes big n w"
    using arg_cong [OF that, of "of_mem_bytes big :: byte list \<Rightarrow> 'a word"] assms by simp
  then show "mem_bytes big n v @ r = mem_bytes big n w @ s \<longleftrightarrow> v = w \<and> r = s" "mem_bytes big n v = mem_bytes big n w \<longleftrightarrow> v = w"
    by auto
qed

lemma enc_words_inject [layout_inject]:
  fixes vs ws :: "'a::len word list"
  assumes "LENGTH('a) \<le> 8 * n" "length vs = length ws"
  shows "enc_words big n vs @ r = enc_words big n ws @ s \<longleftrightarrow> vs = ws \<and> r = s"
    and "enc_words big n vs = enc_words big n ws \<longleftrightarrow> vs = ws"
proof -
  have "enc_words big n vs = enc_words big n ws \<longleftrightarrow> vs = ws"
    using assms(2) by (induction vs ws rule: list_induct2) (simp_all add: mem_bytes_inject [OF assms(1)])
  then show "enc_words big n vs @ r = enc_words big n ws @ s \<longleftrightarrow> vs = ws \<and> r = s" "enc_words big n vs = enc_words big n ws \<longleftrightarrow> vs = ws"
    using assms(2) by simp_all
qed

lemma nth_agree: "length xs = n \<Longrightarrow> length ys = n \<Longrightarrow> (\<forall>i<n. xs ! i = ys ! i) \<longleftrightarrow> xs = ys"
  by (auto intro: nth_equalityI)

text \<open>A loop that prints a line for each element in which two arrays differ prints nothing for equal arrays only.\<close>

lemma for_each_differing:
  assumes "length xs = n" "length ys = n" "\<And>i. i < n \<Longrightarrow> f i \<noteq> []"
  shows "for_each n (\<lambda>i. if xs ! i \<noteq> ys ! i then f i else []) = [] \<longleftrightarrow> xs = ys"
  using assms nth_agree [of xs n ys] by (auto simp: for_each_Nil)

section \<open>Memory and instructions\<close>

definition mem_u16 :: "bool \<Rightarrow> (u64 \<Rightarrow> byte) \<Rightarrow> u64 \<Rightarrow> u16" where
  "mem_u16 big mem a = of_mem_bytes big [mem a, mem (a + 1)]"

definition mem_u32 :: "bool \<Rightarrow> (u64 \<Rightarrow> byte) \<Rightarrow> u64 \<Rightarrow> u32" where
  "mem_u32 big mem a = of_mem_bytes big [mem a, mem (a + 1), mem (a + 2), mem (a + 3)]"

text \<open>
  \<^verbatim>\<open>op = insn & mask; key = insn & ~mask; return (key != risukey) ? OP_SIGILL : op\<close>, the form that the \<^verbatim>\<open>get_risuop\<close> functions
  share.
\<close>

definition keyed_op :: "u32 \<Rightarrow> u32 \<Rightarrow> u32 \<Rightarrow> RisuOp" where
  "keyed_op m risukey insn = (let op = insn AND m; key = insn AND NOT m in if key \<noteq> risukey then OP_SIGILL else op_of_int (uint op))"

lemma keyed_op_known:
  assumes "risukey AND m = 0"
  shows "keyed_op m risukey insn \<noteq> OP_SIGILL \<longleftrightarrow> (\<exists>k. k AND NOT m = 0 \<and> insn = risukey OR k)"
proof -
  have "uint w \<noteq> -1" for w :: u32 using uint_ge_0 [of w] by linarith
  then have "op_of_int (uint w) \<noteq> OP_SIGILL" for w :: u32 by (simp add: op_of_int_def)
  then have "keyed_op m risukey insn \<noteq> OP_SIGILL \<longleftrightarrow> insn AND NOT m = risukey" by (simp add: keyed_op_def Let_def)
  also have "\<dots> \<longleftrightarrow> (\<exists>k. k AND NOT m = 0 \<and> insn = risukey OR k)"
  proof
    assume "insn AND NOT m = risukey"
    then have "insn = risukey OR (insn AND m)" by (auto simp: bit_eq_iff bit_simps)
    moreover have "(insn AND m) AND NOT m = 0" by (rule bit_word_eqI) (auto simp: bit_simps)
    ultimately show "\<exists>k. k AND NOT m = 0 \<and> insn = risukey OR k" by blast
  next
    assume "\<exists>k. k AND NOT m = 0 \<and> insn = risukey OR k"
    then obtain k where k: "k AND NOT m = 0" "insn = risukey OR k" by blast
    have "\<not> (bit risukey i \<and> bit m i \<and> i < 32)" "\<not> (bit k i \<and> \<not> bit m i \<and> i < 32)" for i
      using assms k(1) by (auto simp: bit_eq_iff bit_simps)
    then show "insn AND NOT m = risukey" unfolding k(2) by (intro bit_word_eqI) (auto simp: bit_simps)
  qed
  finally show ?thesis .
qed

text \<open>A memory that is all clear, for examples.\<close>

definition no_code :: "u64 \<Rightarrow> byte" where "no_code a = 0"

section \<open>The contract of comparison and report\<close>

text \<open>
  \<open>report\<close> is the text that is printed behind the heading when the comparison \<open>is_eq\<close> fails, \<open>view\<close> the part of an image whose
  differences it shows and \<open>hidden\<close> what is compared besides. The laws: the comparison decides whether both are the same, and
  there is a line in the report exactly when the views differ.
\<close>

locale register_comparison =
  fixes wf :: "'r \<Rightarrow> bool"
    and is_eq :: "'r \<Rightarrow> 'r \<Rightarrow> bool"
    and report :: "'r \<Rightarrow> 'r \<Rightarrow> string"
    and view :: "'r \<Rightarrow> 'v"
    and hidden :: "'r \<Rightarrow> 'h"
  assumes decides: "wf m \<Longrightarrow> wf a \<Longrightarrow> is_eq m a \<longleftrightarrow> view m = view a \<and> hidden m = hidden a"
    and silent: "wf m \<Longrightarrow> wf a \<Longrightarrow> report m a = [] \<longleftrightarrow> view m = view a"
begin

lemma is_eq_equivalence:
  "wf m \<Longrightarrow> is_eq m m"
  "wf m \<Longrightarrow> wf a \<Longrightarrow> is_eq m a = is_eq a m"
  "wf m \<Longrightarrow> wf a \<Longrightarrow> wf b \<Longrightarrow> is_eq m a \<Longrightarrow> is_eq a b \<Longrightarrow> is_eq m b"
  by (auto simp: decides)

lemma no_false_report: "wf m \<Longrightarrow> wf a \<Longrightarrow> report m a \<noteq> [] \<Longrightarrow> \<not> is_eq m a"
  by (simp add: decides silent)

lemma unreported: "wf m \<Longrightarrow> wf a \<Longrightarrow> \<not> is_eq m a \<and> report m a = [] \<longleftrightarrow> view m = view a \<and> hidden m \<noteq> hidden a"
  by (auto simp: decides silent)

end

text \<open>A back end that hides nothing reports every mismatch.\<close>

locale complete_comparison = register_comparison wf is_eq report view "\<lambda>_. ()"
  for wf :: "'r \<Rightarrow> bool" and is_eq report and view :: "'r \<Rightarrow> 'v"
begin

lemma reported: "wf m \<Longrightarrow> wf a \<Longrightarrow> \<not> is_eq m a \<longleftrightarrow> report m a \<noteq> []"
  by (simp add: decides silent)

end

end
