(* ===== verification/Arch_Arm.thy ===== *)
theory Arch_Arm
  imports Reg_Compare
begin

text \<open>
  The ARM back end (\<^verbatim>\<open>src/risu_arm.c\<close>, \<^verbatim>\<open>src/risu_reginfo_arm.c\<close> and \<^verbatim>\<open>src/risu_reginfo_arm.h\<close>). A signal context is a record
  of the registers, the words of \<^verbatim>\<open>uc_regspace\<close>, which hold a sequence of blocks, and the memory instructions are read
  from. Taking an image also clears the cumulative exception flags in the context.
\<close>

unbundle bit_operations_syntax

section \<open>State\<close>

record arm_reginfo =
  fpregs :: "u64 list"
  faulting_insn :: u32
  faulting_insn_size :: u32
  gpreg :: "u32 list"
  cpsr :: u32
  fpscr :: u32

text \<open>\<open>arm_regs\<close> lists \<^verbatim>\<open>arm_r0\<close> to \<^verbatim>\<open>arm_r10\<close>, \<^verbatim>\<open>arm_fp\<close>, \<^verbatim>\<open>arm_ip\<close>, \<^verbatim>\<open>arm_sp\<close>, \<^verbatim>\<open>arm_lr\<close> and \<^verbatim>\<open>arm_pc\<close>.\<close>

record arm_ctx =
  arm_regs :: "u32 list"
  arm_cpsr :: u32
  uc_regspace :: "u32 list"

abbreviation arm_pc :: "arm_ctx \<Rightarrow> u32" where
  "arm_pc uc \<equiv> arm_regs uc ! 15"

section \<open>Instructions and registers\<close>

definition arm_insnsize :: "bool \<Rightarrow> (u64 \<Rightarrow> byte) \<Rightarrow> arm_ctx \<Rightarrow> nat" where
  "arm_insnsize big mem uc =
     (if arm_cpsr uc AND 0x20 \<noteq> 0 then
        (let top = mem_u16 big mem (ucast (arm_pc uc)) AND 0xF800
         in if top = 0xE800 \<or> top = 0xF000 \<or> top = 0xF800 then 4 else 2)
      else 4)"

definition arm_advance_pc :: "bool \<Rightarrow> (u64 \<Rightarrow> byte) \<Rightarrow> arm_ctx \<Rightarrow> arm_ctx" where
  "arm_advance_pc big mem uc = uc\<lparr>arm_regs := (arm_regs uc)[15 := arm_pc uc + of_nat (arm_insnsize big mem uc)]\<rparr>"

definition arm_get_uc_pc :: "arm_ctx \<Rightarrow> u32" where
  "arm_get_uc_pc uc = arm_pc uc"

definition arm_set_ucontext_paramreg :: "arm_ctx \<Rightarrow> u64 \<Rightarrow> arm_ctx" where
  "arm_set_ucontext_paramreg uc value = uc\<lparr>arm_regs := (arm_regs uc)[0 := ucast value]\<rparr>"

definition arm_get_reginfo_paramreg :: "arm_reginfo \<Rightarrow> u64" where
  "arm_get_reginfo_paramreg ri = ucast (gpreg ri ! 0)"

definition arm_get_risuop :: "arm_reginfo \<Rightarrow> RisuOp" where
  "arm_get_risuop ri = keyed_op 0xf (if faulting_insn_size ri = 2 then 0xdee0 else 0xe7fe5af0) (faulting_insn ri)"

definition arm_get_pc :: "arm_reginfo \<Rightarrow> u32" where
  "arm_get_pc ri = gpreg ri ! 15"

section \<open>Taking an image\<close>

text \<open>The floating point registers are two words each, the lower one first.\<close>

definition vfp_regs :: "u32 list \<Rightarrow> nat \<Rightarrow> u64 list" where
  "vfp_regs ws i = map (\<lambda>k. ucast (ws ! (i + 2 * k)) OR push_bit 32 (ucast (ws ! (i + 2 * k + 1)))) [0..<32]"

text \<open>
  The search through the blocks of \<^verbatim>\<open>uc_regspace\<close>, each a magic number, a size in bytes that includes these two words, and
  data. A size that leads out of the area is an access out of bounds.
\<close>

function arm_reginfo_init_vfp :: "bool \<Rightarrow> u32 list \<Rightarrow> nat \<Rightarrow> fault + u64 list \<times> u32 \<times> u32 list" where
  "arm_reginfo_init_vfp test_fp_exc ws i =
     (if length ws \<le> i + 1 then Inl Out_Of_Bounds
      else
        (let magic = ws ! i; size = ws ! (i + 1) - 8
         in if magic = 0 then Inr (replicate 32 0, 0, ws)
            else if magic = 0x56465001 then
              (if size < (32 * 2 + 1) * 4 then arm_reginfo_init_vfp test_fp_exc ws (i + 2 + unat size div 4)
               else if length ws \<le> i + 2 + 64 then Inl Out_Of_Bounds
               else
                 (let word = ws ! (i + 2 + 64); masked = word AND 0xffff9f9f
                  in Inr (vfp_regs ws (i + 2), if test_fp_exc then masked else masked AND NOT 0x9f,
                       ws[i + 2 + 64 := word AND NOT 0x9f])))
            else arm_reginfo_init_vfp test_fp_exc ws (i + 2 + unat size div 4)))"
  by pat_completeness auto
termination
  by (relation "measure (\<lambda>(t, ws, i). length ws - i)") auto

declare arm_reginfo_init_vfp.simps [simp del]

definition arm_reginfo_init :: "bool \<Rightarrow> bool \<Rightarrow> (u64 \<Rightarrow> byte) \<Rightarrow> u32 \<Rightarrow> arm_ctx \<Rightarrow> fault + arm_reginfo \<times> arm_ctx" where
  "arm_reginfo_init test_fp_exc big mem image_start_address uc =
     andThen (arm_reginfo_init_vfp test_fp_exc (uc_regspace uc) 0) (\<lambda>(fps, scr, ws).
       (let isz = arm_insnsize big mem uc; pc = ucast (arm_pc uc) :: u64; low = ucast (mem_u16 big mem pc) :: u32
        in Inr (\<lparr>fpregs = fps,
                 faulting_insn = (if isz \<noteq> 2 then low OR push_bit 16 (ucast (mem_u16 big mem (pc + 2))) else low),
                 faulting_insn_size = of_nat isz,
                 gpreg = take 13 (arm_regs uc) @ [0xdeadbeef, arm_regs uc ! 14, arm_pc uc - image_start_address],
                 cpsr = arm_cpsr uc AND 0xF80F0000,
                 fpscr = scr\<rparr>,
                uc\<lparr>uc_regspace := ws\<rparr>)))"

definition arm_reginfo_update :: "arm_reginfo \<Rightarrow> arm_ctx \<Rightarrow> arm_ctx" where
  "arm_reginfo_update ri uc = uc"

definition arm_process_arch_opt :: "int \<Rightarrow> string option \<Rightarrow> fault + unit" where
  "arm_process_arch_opt opt arg = Inl Abort"

section \<open>Comparing and printing\<close>

text \<open>The 336 bytes of the structure, which has no padding.\<close>

definition arm_reginfo_bytes :: "bool \<Rightarrow> arm_reginfo \<Rightarrow> byte list" where
  "arm_reginfo_bytes big ri =
     enc_words big 8 (fpregs ri) @ mem_bytes big 4 (faulting_insn ri) @ mem_bytes big 4 (faulting_insn_size ri) @
     enc_words big 4 (gpreg ri) @ mem_bytes big 4 (cpsr ri) @ mem_bytes big 4 (fpscr ri)"

definition arm_reginfo_size :: "arm_reginfo \<Rightarrow> int" where
  "arm_reginfo_size ri = 336"

definition arm_reginfo_is_eq :: "bool \<Rightarrow> arm_reginfo \<Rightarrow> arm_reginfo \<Rightarrow> bool" where
  "arm_reginfo_is_eq big r1 r2 = (arm_reginfo_bytes big r1 = arm_reginfo_bytes big r2)"

definition arm_reginfo_dump :: "arm_reginfo \<Rightarrow> string" where
  "arm_reginfo_dump ri =
     (if faulting_insn_size ri = 2 then ''  faulting insn '' @ pad_zero 4 (hexm 8 (faulting_insn ri)) @ nl
      else ''  faulting insn '' @ hex08 (faulting_insn ri) @ nl) @
     for_each 16 (\<lambda>i. ''  r'' @ decn i @ '': '' @ hex08 (gpreg ri ! i) @ nl) @
     ''  cpsr: '' @ hex08 (cpsr ri) @ nl @
     for_each 32 (\<lambda>i. ''  d'' @ decn i @ '': '' @ hex016 (fpregs ri ! i) @ nl) @
     ''  fpscr: '' @ hex08 (fpscr ri) @ nl"

definition arm_mismatch_heading :: string where
  "arm_mismatch_heading = ''mismatch detail (master : apprentice):'' @ nl"

definition arm_mismatch_lines :: "arm_reginfo \<Rightarrow> arm_reginfo \<Rightarrow> string" where
  "arm_mismatch_lines m a =
     (if faulting_insn_size m \<noteq> faulting_insn_size a then
        ''  faulting insn size mismatch '' @ decs (sint (faulting_insn_size m)) @ '' vs '' @ decs (sint (faulting_insn_size a)) @ nl
      else if faulting_insn m \<noteq> faulting_insn a then
        (if faulting_insn_size m = 2
         then ''  faulting insn mismatch '' @ pad_zero 4 (hexm 8 (faulting_insn m)) @ '' vs '' @ pad_zero 4 (hexm 8 (faulting_insn a)) @ nl
         else ''  faulting insn mismatch '' @ hex08 (faulting_insn m) @ '' vs '' @ hex08 (faulting_insn a) @ nl)
      else []) @
     for_each 16 (\<lambda>i. if gpreg m ! i \<noteq> gpreg a ! i
       then ''  r'' @ decn i @ '': '' @ hex08 (gpreg m ! i) @ '' vs '' @ hex08 (gpreg a ! i) @ nl else []) @
     (if cpsr m \<noteq> cpsr a then ''  cpsr: '' @ hex08 (cpsr m) @ '' vs '' @ hex08 (cpsr a) @ nl else []) @
     for_each 32 (\<lambda>i. if fpregs m ! i \<noteq> fpregs a ! i
       then ''  d'' @ decn i @ '': '' @ hex016 (fpregs m ! i) @ '' vs '' @ hex016 (fpregs a ! i) @ nl else []) @
     (if fpscr m \<noteq> fpscr a then ''  fpscr: '' @ hex08 (fpscr m) @ '' vs '' @ hex08 (fpscr a) @ nl else [])"

definition arm_reginfo_dump_mismatch :: "arm_reginfo \<Rightarrow> arm_reginfo \<Rightarrow> string" where
  "arm_reginfo_dump_mismatch m a = arm_mismatch_heading @ arm_mismatch_lines m a"

section \<open>Lemmas\<close>

definition arm_wf :: "arm_reginfo \<Rightarrow> bool" where
  "arm_wf ri \<longleftrightarrow> length (fpregs ri) = 32 \<and> length (gpreg ri) = 16"

definition arm_ctx_wf :: "arm_ctx \<Rightarrow> bool" where
  "arm_ctx_wf uc \<longleftrightarrow> length (arm_regs uc) = 16"

lemma arm_init_vfp_length: "arm_reginfo_init_vfp t ws i = Inr (fps, scr, ws') \<Longrightarrow> length fps = 32 \<and> length ws' = length ws"
proof (induction t ws i rule: arm_reginfo_init_vfp.induct)
  case (1 t ws i)
  show ?case
    using "1.prems" "1.IH" unfolding arm_reginfo_init_vfp.simps [of t ws i] by (auto simp: Let_def vfp_regs_def split: if_splits)
qed

lemma arm_reginfo_init_wf:
  "arm_reginfo_init t big mem start uc = Inr (ri, uc') \<Longrightarrow> arm_ctx_wf uc \<Longrightarrow> arm_wf ri \<and> arm_ctx_wf uc'"
  by (auto simp: arm_reginfo_init_def Let_def arm_wf_def arm_ctx_wf_def dest: arm_init_vfp_length)

lemma arm_reginfo_bytes_length: "arm_wf ri \<Longrightarrow> length (arm_reginfo_bytes big ri) = nat (arm_reginfo_size ri)"
  by (simp add: arm_wf_def arm_reginfo_bytes_def arm_reginfo_size_def)

lemma arm_bytes_inject: "arm_wf m \<Longrightarrow> arm_wf a \<Longrightarrow> arm_reginfo_bytes big m = arm_reginfo_bytes big a \<longleftrightarrow> m = a"
  by (cases m; cases a) (auto simp: arm_reginfo_bytes_def arm_wf_def layout_inject)

lemma arm_silent: "arm_wf m \<Longrightarrow> arm_wf a \<Longrightarrow> arm_mismatch_lines m a = [] \<longleftrightarrow> m = a"
  unfolding arm_mismatch_lines_def arm_wf_def append_is_Nil_conv
  by (subst (1 2) for_each_differing, simp_all add: nl_def) (auto split: if_splits)

interpretation arm: complete_comparison arm_wf "arm_reginfo_is_eq big" arm_mismatch_lines id for big
  by unfold_locales (simp_all add: arm_reginfo_is_eq_def arm_bytes_inject arm_silent)

text \<open>
  The comparison of two images in terms of the contexts they were taken from, if the VFP block is the first in the area.
\<close>

definition vfp_first :: "u32 list \<Rightarrow> bool" where
  "vfp_first ws \<longleftrightarrow> 66 < length ws \<and> ws ! 0 = 0x56465001 \<and> 268 \<le> ws ! 1"

definition vfp_mask :: "bool \<Rightarrow> u32" where
  "vfp_mask test_fp_exc = (if test_fp_exc then 0xffff9f9f else 0xffff9f00)"

lemma two_words_inject:
  "(ucast (x :: u32) OR push_bit 32 (ucast y) :: u64) = ucast x' OR push_bit 32 (ucast y') \<longleftrightarrow> x = x' \<and> y = (y' :: u32)"
proof
  assume "(ucast x OR push_bit 32 (ucast y) :: u64) = ucast x' OR push_bit 32 (ucast y')"
  then have b: "bit (ucast x OR push_bit 32 (ucast y) :: u64) k = bit (ucast x' OR push_bit 32 (ucast y') :: u64) k" for k by simp
  have "bit x k = bit x' k" "bit y k = bit y' k" if "k < 32" for k
    using b [of k] b [of "k + 32"] that bit_imp_le_length [of x "k + 32"] bit_imp_le_length [of x' "k + 32"] by (auto simp: bit_simps)
  then show "x = x' \<and> y = y'" by (auto intro!: bit_word_eqI)
qed simp

lemma two_halfwords_inject:
  "(ucast (x :: u16) OR push_bit 16 (ucast y) :: u32) = ucast x' OR push_bit 16 (ucast y') \<longleftrightarrow> x = x' \<and> y = (y' :: u16)"
proof
  assume "(ucast x OR push_bit 16 (ucast y) :: u32) = ucast x' OR push_bit 16 (ucast y')"
  then have b: "bit (ucast x OR push_bit 16 (ucast y) :: u32) k = bit (ucast x' OR push_bit 16 (ucast y') :: u32) k" for k by simp
  have "bit x k = bit x' k" "bit y k = bit y' k" if "k < 16" for k
    using b [of k] b [of "k + 16"] that bit_imp_le_length [of x "k + 16"] bit_imp_le_length [of x' "k + 16"] by (auto simp: bit_simps)
  then show "x = x' \<and> y = y'" by (auto intro!: bit_word_eqI)
qed simp

lemma vfp_regs_agree: "vfp_regs ws 2 = vfp_regs ws' 2 \<longleftrightarrow> (\<forall>k<64. ws ! (2 + k) = ws' ! (2 + k))"
proof -
  have "vfp_regs ws 2 = vfp_regs ws' 2 \<longleftrightarrow> (\<forall>k<32. ws ! (2 + 2 * k) = ws' ! (2 + 2 * k) \<and> ws ! (2 + (2 * k + 1)) = ws' ! (2 + (2 * k + 1)))"
    unfolding vfp_regs_def map_eq_conv two_words_inject by (auto simp: add.assoc)
  also have "\<dots> \<longleftrightarrow> (\<forall>k<64. ws ! (2 + k) = ws' ! (2 + k))"
  proof (intro iffI allI impI)
    fix k :: nat
    assume all: "\<forall>k<32. ws ! (2 + 2 * k) = ws' ! (2 + 2 * k) \<and> ws ! (2 + (2 * k + 1)) = ws' ! (2 + (2 * k + 1))" and "k < 64"
    then have "k div 2 < 32" by simp
    with all have "ws ! (2 + 2 * (k div 2)) = ws' ! (2 + 2 * (k div 2)) \<and> ws ! (2 + (2 * (k div 2) + 1)) = ws' ! (2 + (2 * (k div 2) + 1))"
      by blast
    then show "ws ! (2 + k) = ws' ! (2 + k)" by (cases "even k") (simp_all add: odd_two_times_div_two_succ)
  qed auto
  finally show ?thesis .
qed

lemma arm_init_vfp_first:
  assumes "vfp_first ws"
  shows "arm_reginfo_init_vfp t ws 0 = Inr (vfp_regs ws 2, ws ! 66 AND vfp_mask t, ws[66 := ws ! 66 AND NOT 0x9f])"
proof -
  have "unat (ws ! 1 - 8) = unat (ws ! 1) - 8" "268 \<le> unat (ws ! 1)"
    using assms unat_sub [of 8 "ws ! 1"] by (auto simp: vfp_first_def word_le_nat_alt)
  then have "\<not> ws ! 1 - 8 < 260" by (simp add: word_less_nat_alt)
  moreover have "(w AND 0xffff9f9f) AND NOT 0x9f = w AND (0xffff9f00 :: u32)" for w by (simp add: and.assoc)
  ultimately show ?thesis
    using assms by (simp add: arm_reginfo_init_vfp.simps [of t ws 0] vfp_first_def vfp_mask_def Let_def flip: numeral_2_eq_2)
qed

lemma arm_gpregs_agree:
  assumes "length xs = 16" "length ys = 16"
  shows "take 13 xs @ [s, xs ! 14, p] = take 13 ys @ [s, ys ! 14, q] \<longleftrightarrow> (\<forall>i\<in>set [0..<13] \<union> {14}. xs ! i = ys ! i) \<and> p = q"
proof -
  have "take 13 xs = take 13 ys \<longleftrightarrow> (\<forall>i\<in>set [0..<13]. xs ! i = ys ! i)"
    using assms by (auto simp: list_eq_iff_nth_eq)
  then show ?thesis using assms by auto
qed

lemma arm_image_first:
  assumes "vfp_first (uc_regspace uc)"
  obtains ri uc' where "arm_reginfo_init t big mem start uc = Inr (ri, uc')"
    "fpregs ri = vfp_regs (uc_regspace uc) 2" "fpscr ri = uc_regspace uc ! 66 AND vfp_mask t"
    "gpreg ri = take 13 (arm_regs uc) @ [0xdeadbeef, arm_regs uc ! 14, arm_pc uc - start]" "cpsr ri = arm_cpsr uc AND 0xF80F0000"
    "faulting_insn_size ri = of_nat (arm_insnsize big mem uc)"
    "faulting_insn ri = (if arm_insnsize big mem uc \<noteq> 2
       then ucast (mem_u16 big mem (ucast (arm_pc uc))) OR push_bit 16 (ucast (mem_u16 big mem (ucast (arm_pc uc) + 2)))
       else ucast (mem_u16 big mem (ucast (arm_pc uc))))"
  using arm_init_vfp_first [OF assms, of t] by (auto simp: arm_reginfo_init_def Let_def intro: that)

lemma arm_insn_agree:
  assumes "isz \<in> {2, 4}" "isz' \<in> {2, 4 :: nat}"
  shows "(of_nat isz :: u32) = of_nat isz' \<and>
      (if isz \<noteq> 2 then ucast (x :: u16) OR push_bit 16 (ucast (y :: u16)) else ucast x :: u32) =
      (if isz' \<noteq> 2 then ucast (x' :: u16) OR push_bit 16 (ucast (y' :: u16)) else ucast x') \<longleftrightarrow>
    isz = isz' \<and> x = x' \<and> (isz \<noteq> 2 \<longrightarrow> y = y')"
  using assms two_halfwords_inject [of x y x' y'] two_halfwords_inject [of x 0 x' 0] by auto

lemma arm_verdict:
  assumes "arm_ctx_wf ucm" "arm_ctx_wf uca" "vfp_first (uc_regspace ucm)" "vfp_first (uc_regspace uca)"
  shows "\<exists>m ucm' a uca'. arm_reginfo_init t big mem start ucm = Inr (m, ucm') \<and>
    arm_reginfo_init t big mem' start' uca = Inr (a, uca') \<and>
    (arm_reginfo_is_eq big m a \<longleftrightarrow>
       (\<forall>i\<in>set [0..<13] \<union> {14}. arm_regs ucm ! i = arm_regs uca ! i) \<and> arm_pc ucm - start = arm_pc uca - start' \<and>
       arm_cpsr ucm AND 0xF80F0000 = arm_cpsr uca AND 0xF80F0000 \<and>
       (\<forall>k<64. uc_regspace ucm ! (2 + k) = uc_regspace uca ! (2 + k)) \<and>
       uc_regspace ucm ! 66 AND vfp_mask t = uc_regspace uca ! 66 AND vfp_mask t \<and>
       arm_insnsize big mem ucm = arm_insnsize big mem' uca \<and>
       mem_u16 big mem (ucast (arm_pc ucm)) = mem_u16 big mem' (ucast (arm_pc uca)) \<and>
       (arm_insnsize big mem ucm \<noteq> 2 \<longrightarrow>
          mem_u16 big mem (ucast (arm_pc ucm) + 2) = mem_u16 big mem' (ucast (arm_pc uca) + 2)))"
proof -
  obtain m ucm' where m: "arm_reginfo_init t big mem start ucm = Inr (m, ucm')"
    "fpregs m = vfp_regs (uc_regspace ucm) 2" "fpscr m = uc_regspace ucm ! 66 AND vfp_mask t"
    "gpreg m = take 13 (arm_regs ucm) @ [0xdeadbeef, arm_regs ucm ! 14, arm_pc ucm - start]" "cpsr m = arm_cpsr ucm AND 0xF80F0000"
    "faulting_insn_size m = of_nat (arm_insnsize big mem ucm)"
    "faulting_insn m = (if arm_insnsize big mem ucm \<noteq> 2
       then ucast (mem_u16 big mem (ucast (arm_pc ucm))) OR push_bit 16 (ucast (mem_u16 big mem (ucast (arm_pc ucm) + 2)))
       else ucast (mem_u16 big mem (ucast (arm_pc ucm))))"
    using assms(3) by (rule arm_image_first)
  obtain a uca' where a: "arm_reginfo_init t big mem' start' uca = Inr (a, uca')"
    "fpregs a = vfp_regs (uc_regspace uca) 2" "fpscr a = uc_regspace uca ! 66 AND vfp_mask t"
    "gpreg a = take 13 (arm_regs uca) @ [0xdeadbeef, arm_regs uca ! 14, arm_pc uca - start']" "cpsr a = arm_cpsr uca AND 0xF80F0000"
    "faulting_insn_size a = of_nat (arm_insnsize big mem' uca)"
    "faulting_insn a = (if arm_insnsize big mem' uca \<noteq> 2
       then ucast (mem_u16 big mem' (ucast (arm_pc uca))) OR push_bit 16 (ucast (mem_u16 big mem' (ucast (arm_pc uca) + 2)))
       else ucast (mem_u16 big mem' (ucast (arm_pc uca))))"
    using assms(4) by (rule arm_image_first)
  have wf: "arm_wf m" "arm_wf a"
    using arm_reginfo_init_wf [OF m(1) assms(1)] arm_reginfo_init_wf [OF a(1) assms(2)] by blast+
  have sizes: "arm_insnsize big mem ucm \<in> {2, 4}" "arm_insnsize big mem' uca \<in> {2, 4}"
    by (simp_all add: arm_insnsize_def Let_def)
  have len: "length (arm_regs ucm) = 16" "length (arm_regs uca) = 16" using assms(1, 2) by (simp_all add: arm_ctx_wf_def)
  have "arm_reginfo_is_eq big m a \<longleftrightarrow> gpreg m = gpreg a \<and> cpsr m = cpsr a \<and> fpregs m = fpregs a \<and> fpscr m = fpscr a \<and>
      faulting_insn_size m = faulting_insn_size a \<and> faulting_insn m = faulting_insn a"
    unfolding arm_reginfo_is_eq_def arm_bytes_inject [OF wf] by (auto intro: arm_reginfo.equality)
  note E = this [unfolded m(2-7) a(2-7) arm_gpregs_agree [OF len] vfp_regs_agree arm_insn_agree [OF sizes] conj_assoc]
  from m(1) a(1) E show ?thesis by blast
qed

text \<open>
  The cumulative exception flags are cleared in the context when an image is taken, so a second image of the same context
  has them clear and is otherwise the same.
\<close>

lemma arm_init_vfp_again:
  "arm_reginfo_init_vfp t ws i = Inr (fps, scr, ws') \<Longrightarrow>
   arm_reginfo_init_vfp u ws' i = Inr (fps, scr AND NOT 0x9f, ws') \<and> (\<forall>k < i + 2. ws' ! k = ws ! k)"
proof (induction t ws i rule: arm_reginfo_init_vfp.induct)
  case (1 t ws i)
  define sz where "sz = ws ! (i + 1) - 8"
  define i' where "i' = i + 2 + unat sz div 4"
  have i: "\<not> length ws \<le> i + 1" and len: "length ws' = length ws"
    using "1.prems" arm_init_vfp_length [OF "1.prems"] by (auto simp: arm_reginfo_init_vfp.simps [of t ws i])
  consider (none) "ws ! i = 0" | (found) "ws ! i = 0x56465001" "\<not> sz < 260" "\<not> length ws \<le> 66 + i"
    | (skip) "ws ! i \<noteq> 0" "\<not> (ws ! i = 0x56465001 \<and> \<not> sz < 260)"
    using "1.prems" i by (auto simp: arm_reginfo_init_vfp.simps [of t ws i] Let_def sz_def split: if_splits)
  then show ?case
  proof cases
    case none
    then show ?thesis using "1.prems" i by (auto simp: arm_reginfo_init_vfp.simps [of _ _ i] Let_def)
  next
    case found
    define w where "w = ws ! (66 + i)"
    have r: "fps = vfp_regs ws (i + 2)" "ws' = ws[66 + i := w AND NOT 0x9f]"
        "scr = (if t then w AND 0xffff9f9f else (w AND 0xffff9f9f) AND NOT 0x9f)"
      using "1.prems" i found by (auto simp: arm_reginfo_init_vfp.simps [of t ws i] Let_def sz_def w_def split: if_splits)
    have "vfp_regs ws' (i + 2) = fps" unfolding r by (simp add: vfp_regs_def)
    moreover have "(w AND NOT 0x9f) AND 0xffff9f9f = scr AND NOT 0x9f" "((w AND NOT 0x9f) AND 0xffff9f9f) AND NOT 0x9f = scr AND NOT 0x9f"
        "(w AND NOT 0x9f) AND NOT 0x9f = w AND NOT 0x9f"
      unfolding r by (auto intro!: bit_word_eqI simp: bit_simps)
    ultimately show ?thesis
      using found i unfolding arm_reginfo_init_vfp.simps [of u ws' i] by (simp add: r(2) Let_def sz_def)
  next
    case skip
    then have "arm_reginfo_init_vfp t ws i' = Inr (fps, scr, ws')"
      using "1.prems" i by (auto simp: arm_reginfo_init_vfp.simps [of t ws i] Let_def sz_def i'_def split: if_splits)
    then have "arm_reginfo_init_vfp u ws' i' = Inr (fps, scr AND NOT 0x9f, ws') \<and> (\<forall>k < i' + 2. ws' ! k = ws ! k)"
      using "1.IH" i skip by (cases "ws ! i = 0x56465001") (simp_all add: sz_def i'_def)
    then have IH: "arm_reginfo_init_vfp u ws' i' = Inr (fps, scr AND NOT 0x9f, ws')" "\<forall>k < i' + 2. ws' ! k = ws ! k" by blast+
    then have "ws' ! i = ws ! i" "ws' ! (i + 1) = ws ! (i + 1)" by (auto simp: i'_def)
    then have "arm_reginfo_init_vfp u ws' i = arm_reginfo_init_vfp u ws' i'"
      using skip i len by (simp add: arm_reginfo_init_vfp.simps [of u ws' i] Let_def sz_def i'_def)
    then show ?thesis using IH by (simp add: i'_def)
  qed
qed

lemma arm_reginfo_init_again:
  "arm_reginfo_init t big mem start uc = Inr (ri, uc') \<Longrightarrow>
   arm_reginfo_init u big mem start uc' = Inr (ri\<lparr>fpscr := fpscr ri AND NOT 0x9f\<rparr>, uc')"
proof -
  assume "arm_reginfo_init t big mem start uc = Inr (ri, uc')"
  moreover from this obtain fps scr ws where v: "arm_reginfo_init_vfp t (uc_regspace uc) 0 = Inr (fps, scr, ws)"
    by (cases "arm_reginfo_init_vfp t (uc_regspace uc) 0") (auto simp: arm_reginfo_init_def)
  moreover have "arm_reginfo_init_vfp u ws 0 = Inr (fps, scr AND NOT 0x9f, ws)" using arm_init_vfp_again [OF v] by blast
  ultimately show ?thesis by (auto simp: arm_reginfo_init_def Let_def arm_insnsize_def)
qed

text \<open>A context without VFP block.\<close>

definition sample_arm :: arm_ctx where
  "sample_arm = \<lparr>arm_regs = replicate 16 0, arm_cpsr = 0, uc_regspace = [0, 0]\<rparr>"

lemma sample_arm_image:
  "arm_ctx_wf sample_arm" "\<exists>ri uc'. arm_reginfo_init True False no_code 0 sample_arm = Inr (ri, uc')"
  by (simp_all add: sample_arm_def arm_ctx_wf_def arm_reginfo_init_def arm_reginfo_init_vfp.simps Let_def)

end
