(* ===== verification/Arch_M68k.thy ===== *)
theory Arch_M68k
  imports Reg_Compare
begin

text \<open>
  The m68k back end (\<^verbatim>\<open>src/risu_m68k.c\<close>, \<^verbatim>\<open>src/risu_reginfo_m68k.c\<close> and \<^verbatim>\<open>src/risu_reginfo_m68k.h\<close>). Where the registers stand in
  \<^verbatim>\<open>gregset_t\<close>, how many there are and the size of \<^verbatim>\<open>fpregset_t\<close> are facts of the system's headers and come as a record of
  parameters. An image holds the address of the instruction twice, relative to the test image in \<open>pc_rel\<close> (the field \<^verbatim>\<open>pc\<close> of
  the structure) and absolute in the register set; neither is compared.
\<close>

unbundle bit_operations_syntax

section \<open>State\<close>

record m68k_layout =
  R_A0 :: nat
  R_A6 :: nat
  R_SP :: nat
  R_PC :: nat
  R_PS :: nat
  NGREG :: nat
  sizeof_fpregset :: nat

record m68k_fpregs =
  f_pcr :: u32
  f_psr :: u32
  f_fpiaddr :: u32
  f_fpregs :: "(u32 \<times> u32 \<times> u32) list"

record m68k_reginfo =
  faulting_insn :: u32
  pc_rel :: u32
  gregs :: "u32 list"
  fpregs :: m68k_fpregs

record m68k_ctx =
  uc_gregs :: "u32 list"
  uc_fpregs :: m68k_fpregs

section \<open>Instructions and registers\<close>

definition m68k_advance_pc :: "m68k_layout \<Rightarrow> m68k_ctx \<Rightarrow> m68k_ctx" where
  "m68k_advance_pc L uc = uc\<lparr>uc_gregs := (uc_gregs uc)[R_PC L := uc_gregs uc ! R_PC L + 4]\<rparr>"

definition m68k_get_uc_pc :: "m68k_layout \<Rightarrow> m68k_ctx \<Rightarrow> u32" where
  "m68k_get_uc_pc L uc = uc_gregs uc ! R_PC L"

definition m68k_set_ucontext_paramreg :: "m68k_layout \<Rightarrow> m68k_ctx \<Rightarrow> u64 \<Rightarrow> m68k_ctx" where
  "m68k_set_ucontext_paramreg L uc value = uc\<lparr>uc_gregs := (uc_gregs uc)[R_A0 L := ucast value]\<rparr>"

text \<open>The registers are signed integers, so that the parameter is sign extended.\<close>

definition m68k_get_reginfo_paramreg :: "m68k_layout \<Rightarrow> m68k_reginfo \<Rightarrow> u64" where
  "m68k_get_reginfo_paramreg L ri = scast (gregs ri ! R_A0 L)"

definition m68k_get_risuop :: "m68k_reginfo \<Rightarrow> RisuOp" where
  "m68k_get_risuop ri = keyed_op 0xf 0x4afc7000 (faulting_insn ri)"

definition m68k_get_pc :: "m68k_layout \<Rightarrow> m68k_reginfo \<Rightarrow> u32" where
  "m68k_get_pc L ri = gregs ri ! R_PC L"

section \<open>Images\<close>

definition m68k_process_arch_opt :: "int \<Rightarrow> string option \<Rightarrow> fault + unit" where
  "m68k_process_arch_opt opt arg = Inl Abort"

definition m68k_reginfo_size :: "m68k_layout \<Rightarrow> m68k_reginfo \<Rightarrow> int" where
  "m68k_reginfo_size L ri = int (8 + 4 * NGREG L + sizeof_fpregset L)"

definition m68k_reginfo_init :: "m68k_layout \<Rightarrow> (u64 \<Rightarrow> byte) \<Rightarrow> u32 \<Rightarrow> m68k_ctx \<Rightarrow> m68k_reginfo" where
  "m68k_reginfo_init L mem image_start_address uc =
     \<lparr>faulting_insn = mem_u32 True mem (ucast (uc_gregs uc ! R_PC L)),
      pc_rel = uc_gregs uc ! R_PC L - image_start_address,
      gregs = map (\<lambda>i. uc_gregs uc ! i) [0..<NGREG L],
      fpregs =
        \<lparr>f_pcr = f_pcr (uc_fpregs uc), f_psr = f_psr (uc_fpregs uc), f_fpiaddr = f_fpiaddr (uc_fpregs uc),
         f_fpregs = map (\<lambda>i. f_fpregs (uc_fpregs uc) ! i) [0..<8]\<rparr>\<rparr>"

definition m68k_reginfo_update :: "m68k_reginfo \<Rightarrow> m68k_ctx \<Rightarrow> m68k_ctx" where
  "m68k_reginfo_update ri uc = uc"

section \<open>Comparing and printing\<close>

definition m68k_compared :: "m68k_layout \<Rightarrow> nat list" where
  "m68k_compared L = filter (\<lambda>i. \<not> (i = R_SP L \<or> i = R_A6 L)) [0..<16]"

definition m68k_reginfo_is_eq :: "m68k_layout \<Rightarrow> m68k_reginfo \<Rightarrow> m68k_reginfo \<Rightarrow> bool" where
  "m68k_reginfo_is_eq L m a \<longleftrightarrow>
     (if gregs m ! R_PS L \<noteq> gregs a ! R_PS L then False
      else if list_ex (\<lambda>i. gregs m ! i \<noteq> gregs a ! i) (m68k_compared L) then False
      else if f_pcr (fpregs m) \<noteq> f_pcr (fpregs a) then False
      else if f_psr (fpregs m) \<noteq> f_psr (fpregs a) then False
      else if list_ex (\<lambda>i. f_fpregs (fpregs m) ! i \<noteq> f_fpregs (fpregs a) ! i) [0..<8] then False
      else True)"

definition fp_words :: "u32 \<times> u32 \<times> u32 \<Rightarrow> string" where
  "fp_words r = (case r of (x, y, z) \<Rightarrow> hex08 x @ '' '' @ hex08 y @ '' '' @ hex08 z)"

definition m68k_reginfo_dump :: "m68k_layout \<Rightarrow> m68k_reginfo \<Rightarrow> string" where
  "m68k_reginfo_dump L ri =
     ''  pc            '' @ [CHR 0x1B] @ ''[1;101;37m0x'' @ hex08 (pc_rel ri) @ [CHR 0x1B] @ ''[0m'' @ nl @
     tab @ ''PC: '' @ hex08 (gregs ri ! R_PC L) @ nl @
     tab @ ''PS: '' @ pad_zero 4 (hexm 8 (gregs ri ! R_PS L)) @ nl @
     for_each 8 (\<lambda>i. tab @ ''D'' @ decn i @ '': '' @ pad_left 8 (hexm 8 (gregs ri ! i)) @
                    tab @ ''A'' @ decn i @ '': '' @ pad_left 8 (hexm 8 (gregs ri ! (i + 8))) @ nl) @
     for_each 8 (\<lambda>i. tab @ ''FP'' @ decn i @ '': '' @ fp_words (f_fpregs (fpregs ri) ! i) @ nl) @ nl"

definition m68k_greg_mismatch :: "nat \<Rightarrow> m68k_reginfo \<Rightarrow> m68k_reginfo \<Rightarrow> string" where
  "m68k_greg_mismatch i m a =
     ''Mismatch: Register '' @ (if i < 8 then ''D'' else ''A'') @ decn (i mod 8) @ nl @
     ''master: ['' @ hexm 8 (gregs m ! i) @ ''] - apprentice: ['' @ hexm 8 (gregs a ! i) @ '']'' @ nl"

definition m68k_reginfo_dump_mismatch :: "m68k_layout \<Rightarrow> m68k_reginfo \<Rightarrow> m68k_reginfo \<Rightarrow> string" where
  "m68k_reginfo_dump_mismatch L m a =
     (if gregs m ! R_PS L \<noteq> gregs a ! R_PS L then
        ''Mismatch: Register PS'' @ nl @
        ''master: ['' @ hexm 8 (gregs m ! R_PS L) @ ''] - apprentice: ['' @ hexm 8 (gregs a ! R_PS L) @ '']'' @ nl
      else []) @
     for_each 16 (\<lambda>i. if i = R_SP L \<or> i = R_A6 L then []
       else if gregs m ! i \<noteq> gregs a ! i then m68k_greg_mismatch i m a else []) @
     (if f_pcr (fpregs m) \<noteq> f_pcr (fpregs a) then
        ''Mismatch: Register FPCR'' @ nl @
        ''m: ['' @ pad_zero 4 (hexm 8 (f_pcr (fpregs m))) @ ''] != a: ['' @ pad_zero 4 (hexm 8 (f_pcr (fpregs a))) @ '']'' @ nl
      else []) @
     (if f_psr (fpregs m) \<noteq> f_psr (fpregs a) then
        ''Mismatch: Register FPSR'' @ nl @
        ''m: ['' @ hex08 (f_psr (fpregs m)) @ ''] != a: ['' @ hex08 (f_psr (fpregs a)) @ '']'' @ nl
      else []) @
     for_each 8 (\<lambda>i. if f_fpregs (fpregs m) ! i \<noteq> f_fpregs (fpregs a) ! i then
        ''Mismatch: Register FP'' @ decn i @ nl @
        ''m: ['' @ fp_words (f_fpregs (fpregs m) ! i) @ ''] != a: ['' @ fp_words (f_fpregs (fpregs a) ! i) @ '']'' @ nl
      else [])"

section \<open>Lemmas\<close>

definition m68k_wf :: "m68k_layout \<Rightarrow> m68k_reginfo \<Rightarrow> bool" where
  "m68k_wf L ri \<longleftrightarrow> length (gregs ri) = NGREG L \<and> length (f_fpregs (fpregs ri)) = 8"

definition m68k_ctx_wf :: "m68k_layout \<Rightarrow> m68k_ctx \<Rightarrow> bool" where
  "m68k_ctx_wf L uc \<longleftrightarrow> length (uc_gregs uc) = NGREG L \<and> length (f_fpregs (uc_fpregs uc)) = 8"

text \<open>What is compared of an image: everything but the instruction, its address and the registers SP, A6 and FPIADDR.\<close>

definition m68k_view :: "m68k_layout \<Rightarrow> m68k_reginfo \<Rightarrow> u32 \<times> u32 list \<times> u32 \<times> u32 \<times> (u32 \<times> u32 \<times> u32) list" where
  "m68k_view L ri =
     (gregs ri ! R_PS L, map (\<lambda>i. gregs ri ! i) (m68k_compared L), f_pcr (fpregs ri), f_psr (fpregs ri), f_fpregs (fpregs ri))"

lemma m68k_fpregs_agree:
  "m68k_wf L m \<Longrightarrow> m68k_wf L a \<Longrightarrow>
   (\<forall>i<8. f_fpregs (fpregs m) ! i = f_fpregs (fpregs a) ! i) \<longleftrightarrow> f_fpregs (fpregs m) = f_fpregs (fpregs a)"
  by (rule nth_agree) (simp_all add: m68k_wf_def)

lemma m68k_decides: "m68k_wf L m \<Longrightarrow> m68k_wf L a \<Longrightarrow> m68k_reginfo_is_eq L m a \<longleftrightarrow> m68k_view L m = m68k_view L a"
  using m68k_fpregs_agree [of L m a]
  by (auto simp: m68k_reginfo_is_eq_def m68k_view_def list_ex_iff map_eq_conv)

lemma m68k_silent: "m68k_wf L m \<Longrightarrow> m68k_wf L a \<Longrightarrow> m68k_reginfo_dump_mismatch L m a = [] \<longleftrightarrow> m68k_view L m = m68k_view L a"
  using m68k_fpregs_agree [of L m a]
  by (auto simp: m68k_reginfo_dump_mismatch_def m68k_view_def m68k_greg_mismatch_def m68k_compared_def for_each_Nil map_eq_conv nl_def)

interpretation m68k: complete_comparison "m68k_wf L" "m68k_reginfo_is_eq L" "m68k_reginfo_dump_mismatch L" "m68k_view L" for L
  by unfold_locales (simp_all add: m68k_decides m68k_silent)

lemma m68k_reginfo_init_wf: "m68k_wf L (m68k_reginfo_init L mem start uc)"
  by (simp add: m68k_reginfo_init_def m68k_wf_def)

text \<open>The comparison of two images in terms of the contexts they were taken from.\<close>

lemma m68k_verdict:
  assumes "16 \<le> NGREG L" "R_PS L < NGREG L"
  shows "m68k_reginfo_is_eq L (m68k_reginfo_init L mem start ucm) (m68k_reginfo_init L mem' start' uca) \<longleftrightarrow>
    uc_gregs ucm ! R_PS L = uc_gregs uca ! R_PS L \<and>
    (\<forall>i<16. i \<noteq> R_SP L \<and> i \<noteq> R_A6 L \<longrightarrow> uc_gregs ucm ! i = uc_gregs uca ! i) \<and>
    f_pcr (uc_fpregs ucm) = f_pcr (uc_fpregs uca) \<and> f_psr (uc_fpregs ucm) = f_psr (uc_fpregs uca) \<and>
    (\<forall>i<8. f_fpregs (uc_fpregs ucm) ! i = f_fpregs (uc_fpregs uca) ! i)"
  using assms by (auto simp: m68k_reginfo_is_eq_def m68k_reginfo_init_def m68k_compared_def list_ex_iff)

lemma m68k_ops_wf:
  "m68k_ctx_wf L uc \<Longrightarrow> m68k_ctx_wf L (m68k_advance_pc L uc)"
  "m68k_ctx_wf L uc \<Longrightarrow> m68k_ctx_wf L (m68k_set_ucontext_paramreg L uc v)"
  by (simp_all add: m68k_ctx_wf_def m68k_advance_pc_def m68k_set_ucontext_paramreg_def)

text \<open>The layout of the system headers, and a context.\<close>

definition sample_m68k_layout :: m68k_layout where
  "sample_m68k_layout = \<lparr>R_A0 = 8, R_A6 = 14, R_SP = 15, R_PC = 16, R_PS = 17, NGREG = 18, sizeof_fpregset = 108\<rparr>"

definition sample_m68k :: m68k_ctx where
  "sample_m68k = \<lparr>uc_gregs = replicate 18 0, uc_fpregs = \<lparr>f_pcr = 0, f_psr = 0, f_fpiaddr = 0, f_fpregs = replicate 8 (0, 0, 0)\<rparr>\<rparr>"

end
