(* ===== verification/Arch_S390x.thy ===== *)
theory Arch_S390x
  imports Reg_Compare
begin

text \<open>
  The s390x back end (\<^verbatim>\<open>src/risu_s390x.c\<close>, \<^verbatim>\<open>src/risu_reginfo_s390x.c\<close> and \<^verbatim>\<open>src/risu_reginfo_s390x.h\<close>). The machine is big endian,
  and the address of the instruction is the one the signal reports, because the PSW has moved on.
\<close>

unbundle bit_operations_syntax

section \<open>State\<close>

record s390x_reginfo =
  psw_mask :: u64
  pc_offset :: u64
  faulting_insn :: u64
  faulting_insn_len :: int
  fpc :: u32
  gprs :: "u64 list"
  fprs :: "u64 list"

record s390x_ctx =
  uc_psw_mask :: u64
  uc_gprs :: "u64 list"
  uc_fpc :: u32
  uc_fprs :: "u64 list"

section \<open>Instructions and registers\<close>

definition s390x_advance_pc :: "s390x_ctx \<Rightarrow> s390x_ctx" where
  "s390x_advance_pc uc = uc"

definition s390x_get_uc_pc :: "s390x_ctx \<Rightarrow> u64 \<Rightarrow> u64" where
  "s390x_get_uc_pc uc siaddr = siaddr"

definition s390x_set_ucontext_paramreg :: "s390x_ctx \<Rightarrow> u64 \<Rightarrow> s390x_ctx" where
  "s390x_set_ucontext_paramreg uc value = uc\<lparr>uc_gprs := (uc_gprs uc)[0 := value]\<rparr>"

definition s390x_get_reginfo_paramreg :: "s390x_reginfo \<Rightarrow> u64" where
  "s390x_get_reginfo_paramreg ri = gprs ri ! 0"

definition s390x_get_risuop :: "s390x_reginfo \<Rightarrow> RisuOp" where
  "s390x_get_risuop ri =
     (let insn = ucast (faulting_insn ri) :: u32; op = insn AND 0xff; key = insn AND NOT 0xff
      in if faulting_insn_len ri = 4 \<and> key = 0x835a0f00 then op_of_int (uint op) else OP_SIGILL)"

definition s390x_get_pc :: "s390x_reginfo \<Rightarrow> u64" where
  "s390x_get_pc ri = pc_offset ri"

section \<open>Images\<close>

definition s390x_process_arch_opt :: "int \<Rightarrow> string option \<Rightarrow> fault + unit" where
  "s390x_process_arch_opt opt arg = Inl Abort"

definition s390x_reginfo_size :: "s390x_reginfo \<Rightarrow> int" where
  "s390x_reginfo_size ri = 288"

text \<open>
  The instruction and its length, from the first two bits. The three halfwords of a six byte instruction are put together in
  32 bits, as the operands of the shift are.
\<close>

definition s390x_insn :: "(u64 \<Rightarrow> byte) \<Rightarrow> u64 \<Rightarrow> u64 \<times> int" where
  "s390x_insn mem siaddr =
     (let top = drop_bit 6 (mem siaddr)
      in if top = 0 then (ucast (mem_u16 True mem siaddr), 2)
         else if top = 3 then (ucast (push_bit 16 (mem_u32 True mem siaddr) OR ucast (mem_u16 True mem (siaddr + 4)) :: u32), 6)
         else (ucast (mem_u32 True mem siaddr), 4))"

definition s390x_reginfo_init :: "(u64 \<Rightarrow> byte) \<Rightarrow> u64 \<Rightarrow> s390x_ctx \<Rightarrow> u64 \<Rightarrow> s390x_reginfo" where
  "s390x_reginfo_init mem image_start_address uc siaddr =
     (let (insn, len) = s390x_insn mem siaddr
      in \<lparr>psw_mask = uc_psw_mask uc, pc_offset = siaddr - image_start_address, faulting_insn = insn, faulting_insn_len = len,
          fpc = uc_fpc uc, gprs = uc_gprs uc, fprs = uc_fprs uc\<rparr>)"

definition s390x_reginfo_update :: "s390x_reginfo \<Rightarrow> s390x_ctx \<Rightarrow> s390x_ctx" where
  "s390x_reginfo_update ri uc = uc"

section \<open>Comparing and printing\<close>

definition s390x_reginfo_is_eq :: "s390x_reginfo \<Rightarrow> s390x_reginfo \<Rightarrow> bool" where
  "s390x_reginfo_is_eq m a \<longleftrightarrow>
     pc_offset m = pc_offset a \<and> fpc m = fpc a \<and>
     enc_words True 8 (gprs m) = enc_words True 8 (gprs a) \<and> enc_words True 8 (fprs m) = enc_words True 8 (fprs a)"

text \<open>A line of two columns: register \<open>i\<close> and register \<open>i + 8\<close>.\<close>

definition s390x_pair :: "string \<Rightarrow> u64 list \<Rightarrow> nat \<Rightarrow> string" where
  "s390x_pair prefix rs i =
     tab @ prefix @ decn i @ '': '' @ pad_left 16 (hexm 16 (rs ! i)) @
     tab @ prefix @ pad_zero 2 (decn (i + 8)) @ '': '' @ pad_left 16 (hexm 16 (rs ! (i + 8))) @ nl"

definition s390x_reginfo_dump :: "s390x_reginfo \<Rightarrow> string" where
  "s390x_reginfo_dump ri =
     ''  faulting insn 0x'' @ hexm 16 (faulting_insn ri) @ nl @
     ''  PSW mask      0x'' @ hexm 16 (psw_mask ri) @ nl @
     ''  PC offset     0x'' @ hexm 16 (pc_offset ri) @ nl @ nl @
     for_each 8 (s390x_pair ''r'' (gprs ri)) @ nl @
     for_each 8 (s390x_pair ''f'' (fprs ri)) @
     tab @ ''FPC: '' @ pad_left 8 (hexm 8 (fpc ri)) @ nl @ nl"

definition s390x_reg_mismatch :: "string \<Rightarrow> nat \<Rightarrow> u64 \<Rightarrow> u64 \<Rightarrow> string" where
  "s390x_reg_mismatch prefix i m a =
     ''Mismatch: '' @ prefix @ decn i @ '' master: ['' @ hex016 m @ ''] - '' @ prefix @ decn i @ '' apprentice: ['' @ hex016 a @ '']'' @ nl"

definition s390x_reginfo_dump_mismatch :: "s390x_reginfo \<Rightarrow> s390x_reginfo \<Rightarrow> string" where
  "s390x_reginfo_dump_mismatch m a =
     (if pc_offset m \<noteq> pc_offset a then
        ''Mismatch: PC offset master: ['' @ hex016 (pc_offset m) @ ''] - PC offset apprentice: ['' @ hex016 (pc_offset a) @ '']'' @ nl
      else []) @
     for_each 16 (\<lambda>i. if gprs m ! i \<noteq> gprs a ! i then s390x_reg_mismatch ''r'' i (gprs m ! i) (gprs a ! i) else []) @
     for_each 16 (\<lambda>i. if fprs m ! i \<noteq> fprs a ! i then s390x_reg_mismatch ''f'' i (fprs m ! i) (fprs a ! i) else []) @
     (if fpc m \<noteq> fpc a then
        ''Mismatch: FPC master: ['' @ hex08 (fpc m) @ ''] - FPC apprentice: ['' @ hex08 (fpc a) @ '']'' @ nl
      else [])"

section \<open>Lemmas\<close>

definition s390x_wf :: "s390x_reginfo \<Rightarrow> bool" where
  "s390x_wf ri \<longleftrightarrow> length (gprs ri) = 16 \<and> length (fprs ri) = 16"

definition s390x_ctx_wf :: "s390x_ctx \<Rightarrow> bool" where
  "s390x_ctx_wf uc \<longleftrightarrow> length (uc_gprs uc) = 16 \<and> length (uc_fprs uc) = 16"

text \<open>What is compared: not the instruction, and not the PSW mask, which holds the condition code.\<close>

definition s390x_view :: "s390x_reginfo \<Rightarrow> u64 \<times> u32 \<times> u64 list \<times> u64 list" where
  "s390x_view ri = (pc_offset ri, fpc ri, gprs ri, fprs ri)"

lemma s390x_decides: "s390x_wf m \<Longrightarrow> s390x_wf a \<Longrightarrow> s390x_reginfo_is_eq m a \<longleftrightarrow> s390x_view m = s390x_view a"
  by (simp add: s390x_reginfo_is_eq_def s390x_view_def s390x_wf_def layout_inject)

lemma s390x_silent: "s390x_wf m \<Longrightarrow> s390x_wf a \<Longrightarrow> s390x_reginfo_dump_mismatch m a = [] \<longleftrightarrow> s390x_view m = s390x_view a"
  unfolding s390x_reginfo_dump_mismatch_def s390x_wf_def append_is_Nil_conv
  by (subst (1 2) for_each_differing, simp_all add: nl_def s390x_reg_mismatch_def) (auto simp: s390x_view_def split: if_splits)

interpretation s390x: complete_comparison s390x_wf s390x_reginfo_is_eq s390x_reginfo_dump_mismatch s390x_view
  by unfold_locales (simp_all add: s390x_decides s390x_silent)

lemma s390x_reginfo_init_wf: "s390x_ctx_wf uc \<Longrightarrow> s390x_wf (s390x_reginfo_init mem start uc siaddr)"
  by (simp add: s390x_reginfo_init_def s390x_wf_def s390x_ctx_wf_def split: prod.split)

text \<open>The comparison of two images in terms of the contexts they were taken from.\<close>

lemma s390x_verdict:
  assumes "s390x_ctx_wf ucm" "s390x_ctx_wf uca"
  shows "s390x_reginfo_is_eq (s390x_reginfo_init mem start ucm siaddr) (s390x_reginfo_init mem' start' uca siaddr') \<longleftrightarrow>
    siaddr - start = siaddr' - start' \<and> uc_fpc ucm = uc_fpc uca \<and> uc_gprs ucm = uc_gprs uca \<and> uc_fprs ucm = uc_fprs uca"
  using s390x_decides [OF s390x_reginfo_init_wf [OF assms(1)] s390x_reginfo_init_wf [OF assms(2)]]
  by (simp add: s390x_view_def s390x_reginfo_init_def split: prod.split)

lemma s390x_top: "drop_bit 6 (b :: byte) = 0 \<longleftrightarrow> b < 0x40" "drop_bit 6 (b :: byte) = 3 \<longleftrightarrow> 0xc0 \<le> b"
proof -
  have u: "unat (drop_bit 6 b) = unat b div 64" unfolding unat_drop_bit_eq by (simp add: drop_bit_eq_div)
  have "unat b < 256" using unsigned_less [of b, where 'a = nat] by simp
  then show "drop_bit 6 b = 0 \<longleftrightarrow> b < 0x40" "drop_bit 6 b = 3 \<longleftrightarrow> 0xc0 \<le> b"
    unfolding word_unat_eq_iff u word_less_nat_alt word_le_nat_alt by auto
qed

lemma s390x_six:
  "push_bit 16 (mem_u32 True mem a) OR ucast (mem_u16 True mem (a + 4)) = mem_u32 True mem (a + 2)"
proof (rule bit_word_eqI)
  fix k assume "k < LENGTH(32)"
  then have "k < 32" by simp
  show "bit (push_bit 16 (mem_u32 True mem a) OR ucast (mem_u16 True mem (a + 4))) k = bit (mem_u32 True mem (a + 2)) k"
  proof (cases "k < 16")
    case True
    then have "k div 8 < 2" by simp
    with True show ?thesis
      by (auto simp: mem_u32_def mem_u16_def of_mem_bytes_def bit_of_le_bytes bit_simps less_2_cases_iff add.commute [of 4] add.commute [of 3] simp del: of_le_bytes.simps)
  next
    case False
    then have "k div 8 = Suc (Suc ((k - 16) div 8))" "k mod 8 = (k - 16) mod 8" "(k - 16) div 8 < 2"
      using \<open>k < 32\<close> by (auto simp: le_div_geq le_mod_geq)
    with False \<open>k < 32\<close> show ?thesis
      by (auto simp: mem_u32_def mem_u16_def of_mem_bytes_def bit_of_le_bytes bit_simps less_2_cases_iff add.commute [of 4] add.commute [of 3] simp del: of_le_bytes.simps)
  qed
qed

text \<open>
  The length that is read off the first byte, and the instruction: complete for two and four bytes, the last two halfwords
  only for six.
\<close>

lemma s390x_insn_cases:
  obtains (two) "mem a < 0x40" "s390x_insn mem a = (ucast (mem_u16 True mem a), 2)"
  | (four) "0x40 \<le> mem a" "mem a < 0xc0" "s390x_insn mem a = (ucast (mem_u32 True mem a), 4)"
  | (six) "0xc0 \<le> mem a" "s390x_insn mem a = (ucast (mem_u32 True mem (a + 2)), 6)"
proof -
  consider "mem a < 0x40" | "0x40 \<le> mem a" "mem a < 0xc0" | "0xc0 \<le> mem a" by fastforce
  then show thesis
  proof cases
    case 1
    then show ?thesis by (intro two [OF 1]) (simp add: s390x_insn_def Let_def s390x_top)
  next
    case 2
    then have "\<not> mem a < 0x40" "\<not> 0xc0 \<le> mem a" by auto
    then show ?thesis by (intro four [OF 2]) (simp add: s390x_insn_def Let_def s390x_top)
  next
    case 3
    have "\<not> mem a < 0x40" using order.strict_trans1 [OF 3, of "0x40"] by auto
    with 3 show ?thesis by (intro six [OF 3]) (simp add: s390x_insn_def Let_def s390x_top s390x_six)
  qed
qed

text \<open>A context.\<close>

definition sample_s390x :: s390x_ctx where
  "sample_s390x = \<lparr>uc_psw_mask = 0, uc_gprs = replicate 16 0, uc_fpc = 0, uc_fprs = replicate 16 0\<rparr>"

end
