(* ===== verification/Arch_Loongarch64.thy ===== *)
theory Arch_Loongarch64
  imports Reg_Compare
begin

text \<open>
  The LoongArch back end (\<^verbatim>\<open>src/risu_loongarch64.c\<close>, \<^verbatim>\<open>src/risu_reginfo_loongarch64.c\<close> and \<^verbatim>\<open>src/risu_reginfo_loongarch64.h\<close>). The
  extended context that follows the signal context is a list of blocks, the last with magic number 0; the magic numbers and
  the sizes of the kernel's structures are parameters. An index beyond the array a block declares is an access out of bounds.
\<close>

unbundle bit_operations_syntax

section \<open>State\<close>

record la_reginfo =
  regs :: "u64 list"
  pc :: u64
  fcc :: u64
  flags :: u32
  fcsr :: u32
  faulting_insn :: u32
  vregs :: "u64 list"
  vl :: u64

record la_block =
  magic :: u32
  bytes :: u32
  ctx_regs :: "u64 list"
  ctx_fcc :: u64
  ctx_fcsr :: u32

record la_ctx =
  sc_pc :: u64
  sc_regs :: "u64 list"
  sc_flags :: u32
  sc_extcontext :: "la_block list"

record la_abi =
  FPU_CTX_MAGIC :: u32
  LSX_CTX_MAGIC :: u32
  LASX_CTX_MAGIC :: u32
  sizeof_sctx_info :: nat
  sizeof_fpu_context :: nat
  sizeof_lsx_context :: nat
  sizeof_lasx_context :: nat

record extctx_layout =
  fpu :: "la_block option"
  lsx :: "la_block option"
  lasx :: "la_block option"

section \<open>Instructions and registers\<close>

definition la_advance_pc :: "la_ctx \<Rightarrow> la_ctx" where
  "la_advance_pc uc = uc\<lparr>sc_pc := sc_pc uc + 4\<rparr>"

definition la_get_uc_pc :: "la_ctx \<Rightarrow> u64" where
  "la_get_uc_pc uc = sc_pc uc"

definition la_set_ucontext_paramreg :: "la_ctx \<Rightarrow> u64 \<Rightarrow> la_ctx" where
  "la_set_ucontext_paramreg uc value = uc\<lparr>sc_regs := (sc_regs uc)[4 := value]\<rparr>"

definition la_get_reginfo_paramreg :: "la_reginfo \<Rightarrow> u64" where
  "la_get_reginfo_paramreg ri = regs ri ! 4"

definition la_get_risuop :: "la_reginfo \<Rightarrow> RisuOp" where
  "la_get_risuop ri = keyed_op 0xf 0x000001f0 (faulting_insn ri)"

definition la_get_pc :: "la_reginfo \<Rightarrow> u64" where
  "la_get_pc ri = pc ri"

section \<open>Taking an image\<close>

definition la_process_arch_opt :: "int \<Rightarrow> string option \<Rightarrow> fault + unit" where
  "la_process_arch_opt opt arg = Inl Abort"

definition la_reginfo_size :: "la_reginfo \<Rightarrow> int" where
  "la_reginfo_size ri = 1320"

text \<open>
  The walk over the blocks. Blocks found before an error stay recorded, and the caller does not look at the result. The area is
  the list of its blocks: each block's size leads to the next, as the kernel lays them out.
\<close>

fun parse_extcontext :: "la_abi \<Rightarrow> la_block list \<Rightarrow> extctx_layout \<Rightarrow> fault + int \<times> extctx_layout" where
  "parse_extcontext abi [] ext = Inl Out_Of_Bounds"
| "parse_extcontext abi (b # bs) ext =
     (if magic b = 0 then Inr (0, ext)
      else if magic b = FPU_CTX_MAGIC abi then
        (if unat (bytes b) < sizeof_sctx_info abi + sizeof_fpu_context abi then Inr (-1, ext)
         else parse_extcontext abi bs (ext\<lparr>fpu := Some b\<rparr>))
      else if magic b = LSX_CTX_MAGIC abi then
        (if unat (bytes b) < sizeof_sctx_info abi + sizeof_lsx_context abi then Inr (-1, ext)
         else parse_extcontext abi bs (ext\<lparr>lsx := Some b\<rparr>))
      else if magic b = LASX_CTX_MAGIC abi then
        (if unat (bytes b) < sizeof_sctx_info abi + sizeof_lasx_context abi then Inr (-1, ext)
         else parse_extcontext abi bs (ext\<lparr>lasx := Some b\<rparr>))
      else Inr (-1, ext))"

text \<open>
  A loop over the 32 vector registers, which stores element \<open>src\<close> of the context in element \<open>dst\<close> of the image for each pair
  of indices that the body names.
\<close>

definition load_from :: "u64 list \<Rightarrow> nat \<times> nat \<Rightarrow> u64 list \<Rightarrow> fault + u64 list" where
  "load_from rs p vs = (if snd p < length rs then Inr (vs[fst p := rs ! snd p]) else Inl Out_Of_Bounds)"

fun load_all :: "u64 list \<Rightarrow> (nat \<times> nat) list \<Rightarrow> u64 list \<Rightarrow> fault + u64 list" where
  "load_all rs [] vs = Inr vs"
| "load_all rs (p # ps) vs = andThen (load_from rs p vs) (load_all rs ps)"

definition lasx_moves :: "(nat \<times> nat) list" where
  "lasx_moves = concat (map (\<lambda>i. [(4 * i, 4 * i), (4 * i + 1, 4 * i + 1), (4 * i + 2, 4 * i + 2), (4 * i + 3, 4 * i + 3)]) [0..<32])"

definition lsx_moves :: "(nat \<times> nat) list" where
  "lsx_moves = concat (map (\<lambda>i. [(4 * i, 4 * i + 1), (4 * i + 1, 4 * i + 1)]) [0..<32])"

definition fpu_moves :: "(nat \<times> nat) list" where
  "fpu_moves = map (\<lambda>i. (4 * i, 4 * i)) [0..<32]"

definition load_block :: "la_block \<Rightarrow> (nat \<times> nat) list \<Rightarrow> u64 \<Rightarrow> la_reginfo \<Rightarrow> fault + la_reginfo" where
  "load_block b moves len ri =
     andThen (load_all (ctx_regs b) moves (vregs ri)) (\<lambda>vs.
       Inr (ri\<lparr>vregs := vs, fcsr := ctx_fcsr b, fcc := ctx_fcc b, vl := len\<rparr>))"

definition la_core :: "(u64 \<Rightarrow> byte) \<Rightarrow> u64 \<Rightarrow> la_ctx \<Rightarrow> la_reginfo" where
  "la_core mem image_start_address uc =
     \<lparr>regs = (0 # map (\<lambda>i. sc_regs uc ! i) [1..<32])[2 := 0xdeadbeefdeadbeef],
      pc = sc_pc uc - image_start_address, fcc = 0, flags = sc_flags uc, fcsr = 0,
      faulting_insn = mem_u32 False mem (sc_pc uc), vregs = replicate 128 0, vl = 0\<rparr>"

definition la_vectors :: "extctx_layout \<Rightarrow> la_reginfo \<Rightarrow> fault + la_reginfo" where
  "la_vectors ext ri =
     (case lasx ext of Some b \<Rightarrow> load_block b lasx_moves 256 ri
      | None \<Rightarrow>
          (case lsx ext of Some b \<Rightarrow> load_block b lsx_moves 128 ri
           | None \<Rightarrow> (case fpu ext of Some b \<Rightarrow> load_block b fpu_moves 64 ri | None \<Rightarrow> Inr ri)))"

definition la_reginfo_init :: "la_abi \<Rightarrow> (u64 \<Rightarrow> byte) \<Rightarrow> u64 \<Rightarrow> la_ctx \<Rightarrow> fault + la_reginfo" where
  "la_reginfo_init abi mem image_start_address uc =
     andThen (parse_extcontext abi (sc_extcontext uc) \<lparr>fpu = None, lsx = None, lasx = None\<rparr>) (\<lambda>(rc, ext).
       la_vectors ext (la_core mem image_start_address uc))"

definition la_reginfo_update :: "la_reginfo \<Rightarrow> la_ctx \<Rightarrow> la_ctx" where
  "la_reginfo_update ri uc = uc"

section \<open>Comparing and printing\<close>

text \<open>The 1320 bytes of the structure, with the four bytes of padding that the initial \<^verbatim>\<open>memset\<close> clears.\<close>

definition la_reginfo_bytes :: "la_reginfo \<Rightarrow> byte list" where
  "la_reginfo_bytes ri =
     enc_words False 8 (regs ri) @ mem_bytes False 8 (pc ri) @ mem_bytes False 8 (fcc ri) @ mem_bytes False 4 (flags ri) @
     mem_bytes False 4 (fcsr ri) @ mem_bytes False 4 (faulting_insn ri) @ replicate 4 0 @
     enc_words False 8 (vregs ri) @ mem_bytes False 8 (vl ri)"

definition la_reginfo_is_eq :: "la_reginfo \<Rightarrow> la_reginfo \<Rightarrow> bool" where
  "la_reginfo_is_eq r1 r2 \<longleftrightarrow> la_reginfo_bytes r1 = la_reginfo_bytes r2"

text \<open>\<open>comma_list\<close> prints the elements of a vector register, in the order given.\<close>

fun comma_list :: "u64 list \<Rightarrow> string" where
  "comma_list [] = []"
| "comma_list [v] = hex016 v"
| "comma_list (v # vs) = hex016 v @ '', '' @ comma_list vs"

definition la_reginfo_dump :: "la_reginfo \<Rightarrow> string" where
  "la_reginfo_dump ri =
     ''  faulting insn '' @ hex08 (faulting_insn ri) @ nl @
     for_each 32 (\<lambda>i. ''  r'' @ pad_right 2 (decn i) @ ''    : '' @ hex016 (regs ri ! i) @ nl) @
     ''  pc     : '' @ hex016 (pc ri) @ nl @
     ''  flags  : '' @ hex08 (flags ri) @ nl @
     ''  fcc    : '' @ hex016 (fcc ri) @ nl @
     ''  fcsr   : '' @ hex08 (fcsr ri) @ nl @
     ''  vl     : '' @ hex016 (vl ri) @ nl @
     (let v = \<lambda>i j. vregs ri ! (4 * i + j)
      in if vl ri = 256 then
           for_each 32 (\<lambda>i. ''  vreg'' @ pad_right 2 (decn i) @ ''    : {'' @ comma_list [v i 3, v i 2, v i 1, v i 0] @ ''}'' @ nl)
         else if vl ri = 128 then
           for_each 32 (\<lambda>i. ''  vreg'' @ pad_right 2 (decn i) @ ''    : {'' @ comma_list [v i 1, v i 0] @ ''}'' @ nl)
         else if vl ri = 64 then
           for_each 32 (\<lambda>i. ''  vreg'' @ pad_right 2 (decn i) @ ''    : '' @ hex016 (v i 0) @ nl)
         else [])"

text \<open>
  The lines on the vector registers: the master's image decides how many elements are looked at, and the line for 128 bits
  prints the master's low element on both sides.
\<close>

definition la_vreg_lines :: "la_reginfo \<Rightarrow> la_reginfo \<Rightarrow> string" where
  "la_vreg_lines m a =
     (let mv = \<lambda>i j. vregs m ! (4 * i + j); av = \<lambda>i j. vregs a ! (4 * i + j)
      in if vl m = 256 then
           for_each 32 (\<lambda>i. if mv i 3 \<noteq> av i 3 \<or> mv i 2 \<noteq> av i 2 \<or> mv i 1 \<noteq> av i 1 \<or> mv i 0 \<noteq> av i 0 then
             ''  vreg'' @ pad_right 2 (decn i) @ ''    : {'' @ comma_list [mv i 3, mv i 2, mv i 1, mv i 0] @ ''} vs {'' @
             comma_list [av i 3, av i 2, av i 1, av i 0] @ ''}'' @ nl else [])
         else if vl m = 128 then
           for_each 32 (\<lambda>i. if mv i 1 \<noteq> av i 1 \<or> mv i 0 \<noteq> av i 0 then
             ''  vreg'' @ pad_right 2 (decn i) @ ''    : {'' @ comma_list [mv i 1, mv i 0] @ ''} vs {'' @
             comma_list [av i 1, mv i 0] @ ''}'' @ nl else [])
         else if vl m = 64 then
           for_each 32 (\<lambda>i. if mv i 0 \<noteq> av i 0 then
             ''  vreg'' @ pad_right 2 (decn i) @ ''  : '' @ hex016 (mv i 0) @ '' vs '' @ hex016 (av i 0) @ nl else [])
         else [])"

definition la_mismatch_lines :: "la_reginfo \<Rightarrow> la_reginfo \<Rightarrow> string" where
  "la_mismatch_lines m a =
     (if vl m \<noteq> vl a
      then ''  vl mismatch '' @ pad_zero 8 (hexm 16 (vl m)) @ '' vs '' @ pad_zero 8 (hexm 16 (vl a)) @ nl else []) @
     (if faulting_insn m \<noteq> faulting_insn a
      then ''  faulting insn mismatch '' @ hex08 (faulting_insn m) @ '' vs '' @ hex08 (faulting_insn a) @ nl else []) @
     for_each 32 (\<lambda>i. if regs m ! i \<noteq> regs a ! i
       then ''  r'' @ pad_right 2 (decn i) @ ''    : '' @ hex016 (regs m ! i) @ '' vs '' @ hex016 (regs a ! i) @ nl else []) @
     (if pc m \<noteq> pc a then ''  pc     : '' @ hex016 (pc m) @ '' vs '' @ hex016 (pc a) @ nl else []) @
     (if flags m \<noteq> flags a then ''  flags  : '' @ hex08 (flags m) @ '' vs '' @ hex08 (flags a) @ nl else []) @
     (if fcc m \<noteq> fcc a then ''  fcc    : '' @ hex016 (fcc m) @ '' vs '' @ hex016 (fcc a) @ nl else []) @
     (if fcsr m \<noteq> fcsr a then ''  fcsr   : '' @ hex08 (fcsr m) @ '' vs '' @ hex08 (fcsr a) @ nl else []) @
     la_vreg_lines m a"

definition la_reginfo_dump_mismatch :: "la_reginfo \<Rightarrow> la_reginfo \<Rightarrow> string" where
  "la_reginfo_dump_mismatch m a = ''mismatch detail (master : apprentice):'' @ nl @ la_mismatch_lines m a"

section \<open>Lemmas\<close>

text \<open>The moves of the three loops.\<close>

lemma load_all_keeps:
  "load_all rs ps vs = Inr vs' \<Longrightarrow> length vs' = length vs \<and> (\<forall>k. k \<notin> fst ` set ps \<longrightarrow> vs' ! k = vs ! k)"
  by (induction ps arbitrary: vs) (fastforce simp: load_from_def split: if_splits)+

lemma load_all_same:
  "\<forall>p\<in>set ps. fst p = snd p \<and> snd p < length rs \<Longrightarrow> length vs = length rs \<Longrightarrow>
   \<exists>vs'. load_all rs ps vs = Inr vs' \<and> (\<forall>k. vs' ! k = (if k \<in> fst ` set ps then rs ! k else vs ! k))"
proof (induction ps arbitrary: vs)
  case (Cons p ps)
  have "\<exists>vs'. load_all rs ps (vs[fst p := rs ! fst p]) = Inr vs' \<and>
      (\<forall>k. vs' ! k = (if k \<in> fst ` set ps then rs ! k else vs[fst p := rs ! fst p] ! k))"
    by (rule Cons.IH) (use Cons.prems in simp_all)
  then obtain vs' where v: "load_all rs ps (vs[fst p := rs ! fst p]) = Inr vs'"
      "\<And>k. vs' ! k = (if k \<in> fst ` set ps then rs ! k else vs[fst p := rs ! fst p] ! k)"
    by blast
  have p: "snd p = fst p" "fst p < length rs" "fst p < length vs" using Cons.prems by simp_all
  have "load_all rs (p # ps) vs = Inr vs'" by (simp add: load_from_def p v(1))
  moreover have "vs' ! k = (if k \<in> fst ` set (p # ps) then rs ! k else vs ! k)" for k
    using p(3) by (simp add: v(2) nth_list_update)
  ultimately show ?case by blast
qed simp

lemma load_all_fault: "\<exists>p\<in>set ps. length rs \<le> snd p \<Longrightarrow> load_all rs ps vs = Inl Out_Of_Bounds"
  by (induction ps arbitrary: vs) (auto simp: load_from_def)

lemma lasx_moves_iff: "p \<in> set lasx_moves \<longleftrightarrow> (\<exists>k<128. p = (k, k))"
proof
  assume "\<exists>k<128. p = (k, k)"
  then obtain k where k: "k < 128" "p = (k, k)" by blast
  have "k = 4 * (k div 4) + k mod 4" "k mod 4 < 4" "k div 4 < 32" using k(1) by auto
  then have "k = 4 * (k div 4) \<or> k = 4 * (k div 4) + 1 \<or> k = 4 * (k div 4) + 2 \<or> k = 4 * (k div 4) + 3" by linarith
  then show "p \<in> set lasx_moves" using k(2) \<open>k div 4 < 32\<close> by (fastforce simp: lasx_moves_def)
qed (auto simp: lasx_moves_def)

lemma load_lasx: "length rs = 128 \<Longrightarrow> length vs = 128 \<Longrightarrow> load_all rs lasx_moves vs = Inr rs"
proof -
  assume len: "length rs = 128" "length vs = 128"
  have m: "k \<in> fst ` set lasx_moves \<longleftrightarrow> k < 128" for k by (force simp: lasx_moves_iff image_iff)
  obtain vs' where v: "load_all rs lasx_moves vs = Inr vs'" "\<forall>k. vs' ! k = (if k < 128 then rs ! k else vs ! k)"
    using load_all_same [of lasx_moves rs vs] len unfolding m by (fastforce simp: lasx_moves_iff)
  moreover have "length vs' = 128" using load_all_keeps [OF v(1)] len by simp
  ultimately have "vs' = rs" using len by (intro nth_equalityI) auto
  with v show ?thesis by simp
qed

text \<open>Well-formed images: the elements of the vector registers beyond the vector length are clear.\<close>

definition la_wf :: "la_reginfo \<Rightarrow> bool" where
  "la_wf ri \<longleftrightarrow> length (regs ri) = 32 \<and> length (vregs ri) = 128 \<and> (vl ri = 0 \<or> vl ri = 64 \<or> vl ri = 128 \<or> vl ri = 256) \<and>
     (\<forall>k<128. unat (vl ri) div 64 \<le> k mod 4 \<longrightarrow> vregs ri ! k = 0)"

lemma load_block_wf:
  assumes "load_block b moves len ri = Inr ri'" "vregs ri = replicate 128 0" "length (regs ri) = 32"
    and "len = 64 \<or> len = 128 \<or> len = 256" "\<forall>p\<in>set moves. fst p mod 4 < unat len div 64"
  shows "la_wf ri'"
proof -
  obtain vs where vs: "load_all (ctx_regs b) moves (replicate 128 0) = Inr vs"
      "ri' = ri\<lparr>vregs := vs, fcsr := ctx_fcsr b, fcc := ctx_fcc b, vl := len\<rparr>"
    using assms(1, 2) by (auto simp: load_block_def)
  have "vs ! k = 0" if "k < 128" "unat len div 64 \<le> k mod 4" for k
  proof -
    have "k \<notin> fst ` set moves" using assms(5) that by fastforce
    then show ?thesis using load_all_keeps [OF vs(1)] that by simp
  qed
  then show ?thesis using load_all_keeps [OF vs(1)] assms(3, 4) by (auto simp: la_wf_def vs(2))
qed

lemma la_vectors_wf: "la_vectors ext (la_core mem start uc) = Inr ri \<Longrightarrow> la_wf ri"
proof -
  assume v: "la_vectors ext (la_core mem start uc) = Inr ri"
  have r: "vregs (la_core mem start uc) = replicate 128 0" "length (regs (la_core mem start uc)) = 32"
    by (simp_all add: la_core_def)
  have "ri = la_core mem start uc \<Longrightarrow> la_wf ri" by (simp add: la_wf_def la_core_def)
  moreover have "load_block b lasx_moves 256 (la_core mem start uc) = Inr ri \<Longrightarrow> la_wf ri" for b
    by (erule load_block_wf [OF _ r]) (auto simp: lasx_moves_def)
  moreover have "load_block b lsx_moves 128 (la_core mem start uc) = Inr ri \<Longrightarrow> la_wf ri" for b
    by (erule load_block_wf [OF _ r]) (auto simp: lsx_moves_def)
  moreover have "load_block b fpu_moves 64 (la_core mem start uc) = Inr ri \<Longrightarrow> la_wf ri" for b
    by (erule load_block_wf [OF _ r]) (auto simp: fpu_moves_def)
  ultimately show ?thesis using v by (auto simp: la_vectors_def split: option.splits)
qed

lemma la_reginfo_init_wf: "la_reginfo_init abi mem start uc = Inr ri \<Longrightarrow> la_wf ri"
  by (auto simp: la_reginfo_init_def dest: la_vectors_wf)

text \<open>Comparison and report.\<close>

lemma la_bytes_inject: "la_wf m \<Longrightarrow> la_wf a \<Longrightarrow> la_reginfo_bytes m = la_reginfo_bytes a \<longleftrightarrow> m = a"
  by (cases m; cases a) (auto simp: la_reginfo_bytes_def la_wf_def layout_inject)

lemma la_vregs_eqI:
  assumes "la_wf m" "la_wf a" "vl m = vl a"
    and "\<And>i j. i < 32 \<Longrightarrow> j < unat (vl m) div 64 \<Longrightarrow> vregs m ! (4 * i + j) = vregs a ! (4 * i + j)"
  shows "vregs m = vregs a"
proof (rule nth_equalityI)
  fix k assume "k < length (vregs m)"
  then have k: "k < 128" "k div 4 < 32" "4 * (k div 4) + k mod 4 = k" using assms(1) by (auto simp: la_wf_def)
  show "vregs m ! k = vregs a ! k"
  proof (cases "k mod 4 < unat (vl m) div 64")
    case True
    then show ?thesis using assms(4) [OF k(2) True] k(3) by simp
  next
    case False
    then show ?thesis using assms(1-3) k(1) by (simp add: la_wf_def)
  qed
qed (use assms in \<open>simp add: la_wf_def\<close>)

lemma la_vreg_lines_Nil:
  assumes "la_wf m" "la_wf a" "vl m = vl a"
  shows "la_vreg_lines m a = [] \<longleftrightarrow> vregs m = vregs a"
proof
  assume "vregs m = vregs a"
  then show "la_vreg_lines m a = []" by (simp add: la_vreg_lines_def for_each_Nil)
next
  assume silent: "la_vreg_lines m a = []"
  have four: "\<And>j. j < (4::nat) \<Longrightarrow> j = 0 \<or> j = 1 \<or> j = 2 \<or> j = 3" and two: "\<And>j. j < (2::nat) \<Longrightarrow> j = 0 \<or> j = 1" by linarith+
  show "vregs m = vregs a"
  proof (rule la_vregs_eqI [OF assms])
    fix i j assume "i < (32::nat)" "j < unat (vl m) div 64"
    then show "vregs m ! (4 * i + j) = vregs a ! (4 * i + j)"
      using silent assms(1) four [of j] two [of j]
      by (auto simp: la_vreg_lines_def la_wf_def for_each_Nil nl_def split: if_splits)
  qed
qed

lemma la_silent: "la_wf m \<Longrightarrow> la_wf a \<Longrightarrow> la_mismatch_lines m a = [] \<longleftrightarrow> m = a"
proof -
  assume wf: "la_wf m" "la_wf a"
  then have "for_each 32 (\<lambda>i. if regs m ! i \<noteq> regs a ! i
      then ''  r'' @ pad_right 2 (decn i) @ ''    : '' @ hex016 (regs m ! i) @ '' vs '' @ hex016 (regs a ! i) @ nl else []) = []
      \<longleftrightarrow> regs m = regs a"
    by (intro for_each_differing) (auto simp: la_wf_def nl_def)
  then show ?thesis
    using la_vreg_lines_Nil [OF wf]
    by (cases "vl m = vl a") (auto simp: la_mismatch_lines_def nl_def)
qed

interpretation la: complete_comparison la_wf la_reginfo_is_eq la_mismatch_lines id
  by unfold_locales (simp_all add: la_reginfo_is_eq_def la_bytes_inject la_silent)

text \<open>
  With a LASX block the registers of the context are copied. With an LSX block only, whose array has 64 elements, or an FPU
  block only, whose array has 32, the loops leave the array.
\<close>

lemma la_vectors_lasx:
  "lasx ext = Some b \<Longrightarrow> length (ctx_regs b) = 128 \<Longrightarrow>
   la_vectors ext (la_core mem start uc) =
     Inr ((la_core mem start uc)\<lparr>vregs := ctx_regs b, fcsr := ctx_fcsr b, fcc := ctx_fcc b, vl := 256\<rparr>)"
  by (simp add: la_vectors_def load_block_def load_lasx la_core_def)

lemma la_vectors_narrow:
  assumes "lasx ext = None" "\<forall>b. lsx ext = Some b \<longrightarrow> length (ctx_regs b) = 64" "\<forall>b. fpu ext = Some b \<longrightarrow> length (ctx_regs b) = 32"
    and "lsx ext \<noteq> None \<or> fpu ext \<noteq> None"
  shows "la_vectors ext ri = Inl Out_Of_Bounds"
proof -
  have "\<exists>p\<in>set lsx_moves. 64 \<le> snd p" by (rule bexI [of _ "(64, 65)"]) (auto simp: lsx_moves_def intro!: bexI [of _ 16])
  moreover have "\<exists>p\<in>set fpu_moves. 32 \<le> snd p" by (auto simp: fpu_moves_def intro!: bexI [of _ 8])
  ultimately show ?thesis
    using assms by (auto simp: la_vectors_def load_block_def load_all_fault split: option.splits)
qed

text \<open>The layout of the system headers, and contexts with one block.\<close>

definition sample_la_abi :: la_abi where
  "sample_la_abi = \<lparr>FPU_CTX_MAGIC = 0x46505501, LSX_CTX_MAGIC = 0x53580001, LASX_CTX_MAGIC = 0x41535801,
     sizeof_sctx_info = 16, sizeof_fpu_context = 272, sizeof_lsx_context = 528, sizeof_lasx_context = 1040\<rparr>"

definition la_end :: la_block where
  "la_end = \<lparr>magic = 0, bytes = 0, ctx_regs = [], ctx_fcc = 0, ctx_fcsr = 0\<rparr>"

definition sample_la :: "la_block \<Rightarrow> la_ctx" where
  "sample_la b = \<lparr>sc_pc = 0, sc_regs = replicate 32 0, sc_flags = 0, sc_extcontext = [b, la_end]\<rparr>"

definition sample_lasx :: la_block where
  "sample_lasx = \<lparr>magic = 0x41535801, bytes = 1056, ctx_regs = replicate 128 0, ctx_fcc = 0, ctx_fcsr = 0\<rparr>"

definition sample_lsx :: la_block where
  "sample_lsx = \<lparr>magic = 0x53580001, bytes = 544, ctx_regs = replicate 64 0, ctx_fcc = 0, ctx_fcsr = 0\<rparr>"

lemma sample_la_image: "\<exists>ri. la_reginfo_init sample_la_abi no_code 0 (sample_la sample_lasx) = Inr ri"
  by (auto simp: la_reginfo_init_def sample_la_def sample_lasx_def la_end_def sample_la_abi_def intro!: exI la_vectors_lasx)

end
