(* ===== verification/Arch_AArch64.thy ===== *)
theory Arch_AArch64
  imports Reg_Compare
begin

text \<open>
  The AArch64 back end (\<^verbatim>\<open>src/risu_aarch64.c\<close>, \<^verbatim>\<open>src/risu_reginfo_aarch64.c\<close> and \<^verbatim>\<open>src/risu_reginfo_aarch64.h\<close>). The macros of the
  kernel's headers that lay out the SVE state are a record of parameters, with what the kernel documents of them as the
  predicate \<open>sve_layout\<close>. The reserved area of a signal context is a list of records; an \<^verbatim>\<open>extra_context\<close> record points to
  another list. The vector state of an image is an array of bytes that is read through pointers to words.
\<close>

unbundle bit_operations_syntax

section \<open>The kernel's headers\<close>

record sve_abi =
  sve_vl_from_vq :: "nat \<Rightarrow> nat"
  sve_vq_from_vl :: "nat \<Rightarrow> nat"
  SVE_NUM_ZREGS :: nat
  SVE_NUM_PREGS :: nat
  SVE_SIG_REGS_OFFSET :: nat
  SVE_SIG_REGS_SIZE :: "nat \<Rightarrow> nat"
  SVE_SIG_CONTEXT_SIZE :: "nat \<Rightarrow> nat"
  SVE_SIG_ZREG_OFFSET :: "nat \<Rightarrow> nat \<Rightarrow> nat"
  SVE_SIG_PREG_OFFSET :: "nat \<Rightarrow> nat \<Rightarrow> nat"
  sizeof_fpsimd_context :: nat

text \<open>
  The documented layout: a vector length of \<open>vq\<close> quadwords is 16 \<open>vq\<close> bytes; the 32 vector registers come first, then the 16
  predicate registers and the first fault register, each of 2 \<open>vq\<close> bytes.
\<close>

definition sve_layout :: "sve_abi \<Rightarrow> bool" where
  "sve_layout abi \<longleftrightarrow> SVE_NUM_ZREGS abi = 32 \<and> SVE_NUM_PREGS abi = 16 \<and>
     (\<forall>vq\<in>{1..16}. sve_vl_from_vq abi vq = 16 * vq \<and> sve_vq_from_vl abi (16 * vq) = vq \<and> SVE_SIG_REGS_SIZE abi vq = 546 * vq \<and>
        SVE_SIG_CONTEXT_SIZE abi vq = SVE_SIG_REGS_OFFSET abi + 546 * vq \<and>
        (\<forall>i<32. SVE_SIG_ZREG_OFFSET abi vq i = SVE_SIG_REGS_OFFSET abi + i * (16 * vq)) \<and>
        (\<forall>i<17. SVE_SIG_PREG_OFFSET abi vq i = SVE_SIG_REGS_OFFSET abi + 512 * vq + i * (2 * vq)))"

section \<open>State\<close>

definition SVE_VQ_MAX :: nat where "SVE_VQ_MAX = 16"

definition ROUND_UP :: "nat \<Rightarrow> int \<Rightarrow> nat" where
  "ROUND_UP sz pow2 = nat ((int sz + pow2 - 1) AND - pow2)"

definition RISU_SVE_REGS_SIZE :: "sve_abi \<Rightarrow> nat \<Rightarrow> nat" where
  "RISU_SVE_REGS_SIZE abi vq = ROUND_UP (SVE_SIG_REGS_SIZE abi vq) 16"

definition RISU_SIMD_REGS_SIZE :: nat where "RISU_SIMD_REGS_SIZE = 32 * 16"

record a64_reginfo =
  fault_address :: u64
  regs :: "u64 list"
  sp :: u64
  pc :: u64
  flags :: u32
  faulting_insn :: u32
  fpsr :: u32
  fpcr :: u32
  sve_vl :: u16
  reserved :: u16
  extra :: "byte list"

text \<open>\<^verbatim>\<open>fpsimd_context\<close>, and \<^verbatim>\<open>sve_context\<close> with its bytes from \<^verbatim>\<open>SVE_SIG_REGS_OFFSET\<close> on.\<close>

record fpsimd_context =
  fp_size :: nat
  fp_fpsr :: u32
  fp_fpcr :: u32
  fp_vregs :: "byte list"

record sve_context =
  sve_size :: nat
  sve_ctx_vl :: u16
  sve_regs :: "byte list"

datatype a64_record = FPSIMD fpsimd_context | SVE sve_context | EXTRA "a64_record list" | UNKNOWN | END

record a64_ctx =
  uc_fault_address :: u64
  uc_regs :: "u64 list"
  uc_pc :: u64
  uc_pstate :: u64
  uc_reserved :: "a64_record list"

section \<open>Instructions and registers\<close>

definition a64_advance_pc :: "a64_ctx \<Rightarrow> a64_ctx" where
  "a64_advance_pc uc = uc\<lparr>uc_pc := uc_pc uc + 4\<rparr>"

definition a64_get_uc_pc :: "a64_ctx \<Rightarrow> u64" where
  "a64_get_uc_pc uc = uc_pc uc"

definition a64_set_ucontext_paramreg :: "a64_ctx \<Rightarrow> u64 \<Rightarrow> a64_ctx" where
  "a64_set_ucontext_paramreg uc value = uc\<lparr>uc_regs := (uc_regs uc)[0 := value]\<rparr>"

definition a64_get_reginfo_paramreg :: "a64_reginfo \<Rightarrow> u64" where
  "a64_get_reginfo_paramreg ri = regs ri ! 0"

definition a64_get_risuop :: "a64_reginfo \<Rightarrow> RisuOp" where
  "a64_get_risuop ri = keyed_op 0xf 0x00005af0 (faulting_insn ri)"

definition a64_get_pc :: "a64_reginfo \<Rightarrow> u64" where
  "a64_get_pc ri = pc ri"

section \<open>Options and set-up\<close>

text \<open>The value of the option is a \<^verbatim>\<open>long\<close> that is stored in an \<^verbatim>\<open>int\<close>; the result is the new value of \<^verbatim>\<open>test_sve\<close>.\<close>

definition a64_process_arch_opt :: "int \<Rightarrow> string \<Rightarrow> (fault \<times> string) + int" where
  "a64_process_arch_opt opt arg =
     (if opt \<noteq> FIRST_ARCH_OPT then Inl (Abort, [])
      else
        (let test_sve = sint (word_of_int (strtol_10 64 arg) :: u32)
         in if test_sve \<le> 0 \<or> int SVE_VQ_MAX < test_sve
            then Inl (Exit_Failure, ''Invalid value for VQ (1-'' @ decn SVE_VQ_MAX @ '')'' @ nl)
            else Inr test_sve))"

text \<open>\<open>prctl\<close> gives the result of the call and, when it failed, whether \<^verbatim>\<open>errno\<close> is \<^verbatim>\<open>EINVAL\<close> and the text for it.\<close>

definition a64_arch_init :: "sve_abi \<Rightarrow> (int \<Rightarrow> int \<times> bool \<times> string) \<Rightarrow> int \<Rightarrow> (fault \<times> string) + unit" where
  "a64_arch_init abi prctl test_sve =
     (if test_sve = 0 then Inr ()
      else
        (let want = int (sve_vl_from_vq abi (nat test_sve)); (got, einval, strerror) = prctl want
         in if want = got then Inr ()
            else
              Inl (Exit_Failure,
                if 0 \<le> got then ''Unsupported VQ for SVE ('' @ decs test_sve @ '' != '' @ decn (sve_vq_from_vl abi (nat got)) @ '')'' @ nl
                else if einval then ''System does not support SVE'' @ nl
                else ''prctl PR_SVE_SET_VL: '' @ strerror @ nl)))"

section \<open>Taking an image\<close>

definition a64_reginfo_size :: "sve_abi \<Rightarrow> a64_reginfo \<Rightarrow> nat" where
  "a64_reginfo_size abi ri =
     304 + (if sve_vl ri \<noteq> 0 then RISU_SVE_REGS_SIZE abi (sve_vq_from_vl abi (unat (sve_vl ri))) else RISU_SIMD_REGS_SIZE)"

text \<open>
  The walk over the records, which goes on with the extra records at the end of the list. The area is the list of its records:
  each record's size leads to the next, as the kernel lays them out.
\<close>

function scan_records ::
  "a64_record list \<Rightarrow> a64_record list option \<Rightarrow> fpsimd_context option \<Rightarrow> sve_context option \<Rightarrow>
   fault + fpsimd_context option \<times> sve_context option" where
  "scan_records [] ex fp sve = Inl Out_Of_Bounds"
| "scan_records (FPSIMD c # rs) ex fp sve = scan_records rs ex (Some c) sve"
| "scan_records (SVE c # rs) ex fp sve = scan_records rs ex fp (Some c)"
| "scan_records (EXTRA e # rs) ex fp sve = scan_records rs (Some e) fp sve"
| "scan_records (UNKNOWN # rs) ex fp sve = scan_records rs ex fp sve"
| "scan_records (END # rs) ex fp sve = (case ex of None \<Rightarrow> Inr (fp, sve) | Some e \<Rightarrow> scan_records e None fp sve)"
  by pat_completeness auto
termination
  by (relation "measure (\<lambda>(rs, ex, fp, sve). size_list size_class.size rs + (case ex of None \<Rightarrow> 0 | Some e \<Rightarrow> size_list size_class.size e))") auto

definition store_bytes :: "nat \<Rightarrow> byte list \<Rightarrow> byte list \<Rightarrow> byte list" where
  "store_bytes off bs m = take off m @ bs @ drop (off + length bs) m"

definition a64_core :: "sve_abi \<Rightarrow> bool \<Rightarrow> (u64 \<Rightarrow> byte) \<Rightarrow> u64 \<Rightarrow> a64_ctx \<Rightarrow> a64_reginfo" where
  "a64_core abi big mem image_start_address uc =
     \<lparr>fault_address = uc_fault_address uc, regs = map (\<lambda>i. uc_regs uc ! i) [0..<31], sp = 0xdeadbeefdeadbeef,
      pc = uc_pc uc - image_start_address, flags = ucast (uc_pstate uc AND 0xf0000000),
      faulting_insn = mem_u32 big mem (uc_pc uc), fpsr = 0, fpcr = 0, sve_vl = 0, reserved = 0,
      extra = replicate (RISU_SVE_REGS_SIZE abi SVE_VQ_MAX) 0\<rparr>"

definition a64_simd :: "fpsimd_context \<Rightarrow> a64_reginfo \<Rightarrow> a64_reginfo" where
  "a64_simd fp ri = ri\<lparr>extra := store_bytes 0 (take RISU_SIMD_REGS_SIZE (fp_vregs fp)) (extra ri)\<rparr>"

definition a64_prefix :: string where "a64_prefix = ''risu_reginfo_aarch64: ''"

text \<open>The part of \<^verbatim>\<open>reginfo_init\<close> behind the walk. The result is the image and what is printed on \<^verbatim>\<open>stderr\<close>.\<close>

definition a64_vectors ::
  "sve_abi \<Rightarrow> int \<Rightarrow> fpsimd_context option \<Rightarrow> sve_context option \<Rightarrow> a64_reginfo \<Rightarrow> fault + a64_reginfo \<times> string" where
  "a64_vectors abi test_sve fpo sveo ri0 =
     (case fpo of
        None \<Rightarrow> Inr (ri0, a64_prefix @ ''failed to get FP/SIMD state'' @ nl)
      | Some fp \<Rightarrow>
          if fp_size fp \<noteq> sizeof_fpsimd_context abi then Inr (ri0, a64_prefix @ ''failed to get FP/SIMD state'' @ nl)
          else
            (let ri = ri0\<lparr>fpsr := fp_fpsr fp, fpcr := fp_fpcr fp\<rparr>
             in if test_sve = 0 then Inr (a64_simd fp ri, [])
                else
                  (let vq = nat test_sve
                   in case sveo of
                        None \<Rightarrow> Inr (ri, a64_prefix @ ''failed to get SVE state'' @ nl)
                      | Some sve \<Rightarrow>
                          if unat (sve_ctx_vl sve) \<noteq> sve_vl_from_vq abi vq
                          then Inr (ri, a64_prefix @ ''unexpected SVE state: '' @ decn (unat (sve_ctx_vl sve)) @ '' != '' @
                                      decn (sve_vl_from_vq abi vq) @ nl)
                          else if sve_size sve \<le> SVE_SIG_CONTEXT_SIZE abi 0 then Inr (a64_simd fp ri, [])
                          else if sve_size sve < SVE_SIG_CONTEXT_SIZE abi vq
                          then Inr (ri, a64_prefix @ ''failed to get complete SVE state'' @ nl)
                          else if length (sve_regs sve) < SVE_SIG_REGS_SIZE abi vq then Inl Out_Of_Bounds
                          else
                            Inr (ri\<lparr>sve_vl := sve_ctx_vl sve,
                                   extra := store_bytes (SVE_SIG_ZREG_OFFSET abi vq 0 - SVE_SIG_REGS_OFFSET abi)
                                     (take (SVE_SIG_REGS_SIZE abi vq) (sve_regs sve)) (extra ri)\<rparr>, []))))"

definition a64_reginfo_init ::
  "sve_abi \<Rightarrow> int \<Rightarrow> bool \<Rightarrow> (u64 \<Rightarrow> byte) \<Rightarrow> u64 \<Rightarrow> a64_ctx \<Rightarrow> fault + a64_reginfo \<times> string" where
  "a64_reginfo_init abi test_sve big mem image_start_address uc =
     andThen (scan_records (uc_reserved uc) None None None) (\<lambda>(fp, sve).
       a64_vectors abi test_sve fp sve (a64_core abi big mem image_start_address uc))"

definition a64_reginfo_update :: "a64_reginfo \<Rightarrow> a64_ctx \<Rightarrow> a64_ctx" where
  "a64_reginfo_update ri uc = uc"

section \<open>Comparing\<close>

text \<open>The bytes of the structure: 304 with the padding that aligns the array, then the array.\<close>

definition a64_head_bytes :: "bool \<Rightarrow> a64_reginfo \<Rightarrow> byte list" where
  "a64_head_bytes big ri =
     mem_bytes big 8 (fault_address ri) @ enc_words big 8 (regs ri) @ mem_bytes big 8 (sp ri) @ mem_bytes big 8 (pc ri) @
     mem_bytes big 4 (flags ri) @ mem_bytes big 4 (faulting_insn ri) @ mem_bytes big 4 (fpsr ri) @ mem_bytes big 4 (fpcr ri) @
     mem_bytes big 2 (sve_vl ri) @ mem_bytes big 2 (reserved ri) @ replicate 12 0"

definition a64_reginfo_bytes :: "bool \<Rightarrow> a64_reginfo \<Rightarrow> byte list" where
  "a64_reginfo_bytes big ri = a64_head_bytes big ri @ extra ri"

definition a64_reginfo_is_eq :: "sve_abi \<Rightarrow> bool \<Rightarrow> a64_reginfo \<Rightarrow> a64_reginfo \<Rightarrow> bool" where
  "a64_reginfo_is_eq abi big r1 r2 \<longleftrightarrow>
     take (a64_reginfo_size abi r1) (a64_reginfo_bytes big r1) = take (a64_reginfo_size abi r1) (a64_reginfo_bytes big r2)"

section \<open>Printing\<close>

text \<open>The pointers to registers inside of the array, as offsets, and reads through them.\<close>

definition reginfo_vreg :: "nat \<Rightarrow> nat" where
  "reginfo_vreg i = i * 16"

definition reginfo_zreg :: "sve_abi \<Rightarrow> nat \<Rightarrow> nat \<Rightarrow> nat" where
  "reginfo_zreg abi vq i = SVE_SIG_ZREG_OFFSET abi vq i - SVE_SIG_REGS_OFFSET abi"

definition reginfo_preg :: "sve_abi \<Rightarrow> nat \<Rightarrow> nat \<Rightarrow> nat" where
  "reginfo_preg abi vq i = SVE_SIG_PREG_OFFSET abi vq i - SVE_SIG_REGS_OFFSET abi"

definition extra_at :: "a64_reginfo \<Rightarrow> nat \<Rightarrow> nat \<Rightarrow> byte list" where
  "extra_at ri off n = take n (drop off (extra ri))"

definition extra_u64 :: "bool \<Rightarrow> a64_reginfo \<Rightarrow> nat \<Rightarrow> nat \<Rightarrow> u64" where
  "extra_u64 big ri p k = of_mem_bytes big (extra_at ri (p + 8 * k) 8)"

definition extra_u16 :: "bool \<Rightarrow> a64_reginfo \<Rightarrow> nat \<Rightarrow> nat \<Rightarrow> u16" where
  "extra_u16 big ri p k = of_mem_bytes big (extra_at ri (p + 2 * k) 2)"

definition sve_zreg_is_eq :: "nat \<Rightarrow> a64_reginfo \<Rightarrow> nat \<Rightarrow> a64_reginfo \<Rightarrow> nat \<Rightarrow> bool" where
  "sve_zreg_is_eq vq r1 z1 r2 z2 \<longleftrightarrow> extra_at r1 z1 (vq * 16) = extra_at r2 z2 (vq * 16)"

definition sve_preg_is_eq :: "nat \<Rightarrow> a64_reginfo \<Rightarrow> nat \<Rightarrow> a64_reginfo \<Rightarrow> nat \<Rightarrow> bool" where
  "sve_preg_is_eq vq r1 p1 r2 p2 \<longleftrightarrow> extra_at r1 p1 (vq * 2) = extra_at r2 p2 (vq * 2)"

definition sve_dump_preg :: "bool \<Rightarrow> nat \<Rightarrow> a64_reginfo \<Rightarrow> nat \<Rightarrow> string" where
  "sve_dump_preg big vq ri p = concat (map (\<lambda>q. hexn 4 (extra_u16 big ri p q)) (rev [0..<vq]))"

definition sve_dump_preg_diff :: "bool \<Rightarrow> nat \<Rightarrow> a64_reginfo \<Rightarrow> nat \<Rightarrow> a64_reginfo \<Rightarrow> nat \<Rightarrow> string" where
  "sve_dump_preg_diff big vq r1 p1 r2 p2 = sve_dump_preg big vq r1 p1 @ '' vs '' @ sve_dump_preg big vq r2 p2 @ nl"

fun zreg_diff_loop :: "bool \<Rightarrow> a64_reginfo \<Rightarrow> nat \<Rightarrow> a64_reginfo \<Rightarrow> nat \<Rightarrow> string \<Rightarrow> nat list \<Rightarrow> string" where
  "zreg_diff_loop big ra za rb zb pad [] = []"
| "zreg_diff_loop big ra za rb zb pad (q # qs) =
     (let za0 = extra_u64 big ra za (2 * q); za1 = extra_u64 big ra za (2 * q + 1);
          zb0 = extra_u64 big rb zb (2 * q); zb1 = extra_u64 big rb zb (2 * q + 1)
      in if za0 \<noteq> zb0 \<or> za1 \<noteq> zb1
         then pad @ ''q'' @ pad_right 2 (decn q) @ '': '' @ hex016 za1 @ hex016 za0 @ '' vs '' @ hex016 zb1 @ hex016 zb0 @ nl @
           zreg_diff_loop big ra za rb zb ''      '' qs
         else zreg_diff_loop big ra za rb zb pad qs)"

definition sve_dump_zreg_diff :: "bool \<Rightarrow> nat \<Rightarrow> a64_reginfo \<Rightarrow> nat \<Rightarrow> a64_reginfo \<Rightarrow> nat \<Rightarrow> string" where
  "sve_dump_zreg_diff big vq ra za rb zb = zreg_diff_loop big ra za rb zb [] [0..<vq]"

definition preg_name :: "sve_abi \<Rightarrow> string \<Rightarrow> nat \<Rightarrow> string" where
  "preg_name abi ffr i = (if i = SVE_NUM_PREGS abi then ffr else ''  P'' @ pad_right 2 (decn i) @ ''    : '')"

definition a64_reginfo_dump :: "sve_abi \<Rightarrow> bool \<Rightarrow> a64_reginfo \<Rightarrow> string" where
  "a64_reginfo_dump abi big ri =
     ''  faulting insn '' @ hex08 (faulting_insn ri) @ nl @
     for_each 31 (\<lambda>i. ''  X'' @ pad_right 2 (decn i) @ ''    : '' @ hex016 (regs ri ! i) @ nl) @
     ''  sp     : '' @ hex016 (sp ri) @ nl @
     ''  pc     : '' @ hex016 (pc ri) @ nl @
     ''  flags  : '' @ hex08 (flags ri) @ nl @
     ''  fpsr   : '' @ hex08 (fpsr ri) @ nl @
     ''  fpcr   : '' @ hex08 (fpcr ri) @ nl @
     (if sve_vl ri \<noteq> 0 then
        (let vq = sve_vq_from_vl abi (unat (sve_vl ri))
         in ''  vl     : '' @ decn (unat (sve_vl ri)) @ nl @
            for_each (SVE_NUM_ZREGS abi) (\<lambda>i.
              let z = reginfo_zreg abi vq i
              in ''  Z'' @ pad_right 2 (decn i) @ '' q'' @ pad_right 2 (decn 0) @ '': '' @
                 hex016 (extra_u64 big ri z 1) @ hex016 (extra_u64 big ri z 0) @ nl @
                 concat (map (\<lambda>q. ''      q'' @ pad_right 2 (decn q) @ '': '' @
                   hex016 (extra_u64 big ri z (q * 2 + 1)) @ hex016 (extra_u64 big ri z (q * 2)) @ nl) [1..<vq])) @
            for_each (SVE_NUM_PREGS abi + 1) (\<lambda>i.
              preg_name abi ''  FFR    : '' i @ sve_dump_preg big vq ri (reginfo_preg abi vq i) @ nl))
      else
        for_each 32 (\<lambda>i. ''  V'' @ pad_right 2 (decn i) @ ''    : '' @
          hex016 (extra_u64 big ri (reginfo_vreg i) 1) @ hex016 (extra_u64 big ri (reginfo_vreg i) 0) @ nl))"

text \<open>The lines of the report on the core registers, on SVE registers and on SIMD registers.\<close>

definition a64_core_lines :: "a64_reginfo \<Rightarrow> a64_reginfo \<Rightarrow> string" where
  "a64_core_lines m a =
     (if faulting_insn m \<noteq> faulting_insn a
      then ''  faulting insn mismatch '' @ hex08 (faulting_insn m) @ '' vs '' @ hex08 (faulting_insn a) @ nl else []) @
     for_each 31 (\<lambda>i. if regs m ! i \<noteq> regs a ! i
       then ''  X'' @ pad_right 2 (decn i) @ ''    : '' @ hex016 (regs m ! i) @ '' vs '' @ hex016 (regs a ! i) @ nl else []) @
     (if sp m \<noteq> sp a then ''  sp     : '' @ hex016 (sp m) @ '' vs '' @ hex016 (sp a) @ nl else []) @
     (if pc m \<noteq> pc a then ''  pc     : '' @ hex016 (pc m) @ '' vs '' @ hex016 (pc a) @ nl else []) @
     (if flags m \<noteq> flags a then ''  flags  : '' @ hex08 (flags m) @ '' vs '' @ hex08 (flags a) @ nl else []) @
     (if fpsr m \<noteq> fpsr a then ''  fpsr   : '' @ hex08 (fpsr m) @ '' vs '' @ hex08 (fpsr a) @ nl else []) @
     (if fpcr m \<noteq> fpcr a then ''  fpcr   : '' @ hex08 (fpcr m) @ '' vs '' @ hex08 (fpcr a) @ nl else []) @
     (if sve_vl m \<noteq> sve_vl a then ''  vl    : '' @ decn (unat (sve_vl m)) @ '' vs '' @ decn (unat (sve_vl a)) @ nl else [])"

definition a64_sve_lines :: "sve_abi \<Rightarrow> bool \<Rightarrow> a64_reginfo \<Rightarrow> a64_reginfo \<Rightarrow> string" where
  "a64_sve_lines abi big m a =
     (let vq = sve_vq_from_vl abi (unat (sve_vl m))
      in for_each (SVE_NUM_ZREGS abi) (\<lambda>i.
           let z = reginfo_zreg abi vq i
           in if \<not> sve_zreg_is_eq vq m z a z
              then ''  Z'' @ pad_right 2 (decn i) @ '' '' @ sve_dump_zreg_diff big vq m z a z else []) @
         for_each (SVE_NUM_PREGS abi + 1) (\<lambda>i.
           let p = reginfo_preg abi vq i
           in if \<not> sve_preg_is_eq vq m p a p
              then preg_name abi ''  FFR   : '' i @ sve_dump_preg_diff big vq m p a p else []))"

definition a64_simd_lines :: "bool \<Rightarrow> a64_reginfo \<Rightarrow> a64_reginfo \<Rightarrow> string" where
  "a64_simd_lines big m a =
     for_each 32 (\<lambda>i.
       let v = reginfo_vreg i
       in if extra_u64 big m v 0 \<noteq> extra_u64 big a v 0 \<or> extra_u64 big m v 1 \<noteq> extra_u64 big a v 1
          then ''  V'' @ pad_right 2 (decn i) @ ''    : '' @ hex016 (extra_u64 big m v 1) @ hex016 (extra_u64 big m v 0) @ '' vs '' @
            hex016 (extra_u64 big a v 1) @ hex016 (extra_u64 big a v 0) @ nl
          else [])"

definition a64_mismatch_lines :: "sve_abi \<Rightarrow> bool \<Rightarrow> a64_reginfo \<Rightarrow> a64_reginfo \<Rightarrow> string" where
  "a64_mismatch_lines abi big m a =
     a64_core_lines m a @ (if sve_vl m \<noteq> 0 then a64_sve_lines abi big m a else a64_simd_lines big m a)"

definition a64_reginfo_dump_mismatch :: "sve_abi \<Rightarrow> bool \<Rightarrow> a64_reginfo \<Rightarrow> a64_reginfo \<Rightarrow> string" where
  "a64_reginfo_dump_mismatch abi big m a =
     ''mismatch detail (master : apprentice):'' @ nl @ a64_mismatch_lines abi big m a"

section \<open>Lemmas\<close>

lemma ROUND_UP_16: "ROUND_UP n 16 = 16 * ((n + 15) div 16)"
proof -
  have "(k AND - 16) = 16 * (k div 16)" for k :: int
  proof -
    have "k AND - 16 = k AND NOT (mask 4)" by (simp add: mask_eq_exp_minus_1 not_eq_complement)
    also have "\<dots> = push_bit 4 (drop_bit 4 k)" by (rule bit_eqI) (auto simp: bit_simps)
    also have "\<dots> = 16 * (k div 16)" by (simp add: push_bit_eq_mult drop_bit_eq_div)
    finally show ?thesis .
  qed
  then show ?thesis by (simp add: ROUND_UP_def nat_mult_distrib nat_div_distrib)
qed

lemma sve_layoutD:
  assumes "sve_layout abi" "1 \<le> vq" "vq \<le> 16"
  shows "sve_vl_from_vq abi vq = 16 * vq" "sve_vq_from_vl abi (16 * vq) = vq" "SVE_SIG_REGS_SIZE abi vq = 546 * vq"
    "RISU_SVE_REGS_SIZE abi vq = 16 * ((546 * vq + 15) div 16)"
    "\<And>i. i < 32 \<Longrightarrow> reginfo_zreg abi vq i = i * (16 * vq)" "\<And>i. i < 17 \<Longrightarrow> reginfo_preg abi vq i = 512 * vq + i * (2 * vq)"
  using assms by (auto simp: sve_layout_def RISU_SVE_REGS_SIZE_def ROUND_UP_16 reginfo_zreg_def reginfo_preg_def)

text \<open>Arrays that agree piece by piece.\<close>

lemma take_agree_less: "take n xs = take n ys \<Longrightarrow> k \<le> n \<Longrightarrow> take k xs = take k ys"
  by (metis min.absorb1 take_take)

lemma chunks_agree:
  assumes "length xs = length ys"
  shows "(\<forall>i<n. take k (drop (i * k) xs) = take k (drop (i * k) ys)) \<longleftrightarrow> take (n * k) xs = take (n * k) ys"
proof (induction n)
  case (Suc n)
  have "take (Suc n * k) zs = take (n * k) zs @ take k (drop (n * k) zs)" for zs :: "'a list"
    by (metis add.commute mult_Suc take_add)
  then have "take (Suc n * k) xs = take (Suc n * k) ys \<longleftrightarrow>
      take (n * k) xs = take (n * k) ys \<and> take k (drop (n * k) xs) = take k (drop (n * k) ys)"
    using assms by simp
  with Suc show ?case by (auto simp: less_Suc_eq)
qed simp

lemma take_split: "length xs = length ys \<Longrightarrow>
    take (j + k) xs = take (j + k) ys \<longleftrightarrow> take j xs = take j ys \<and> take k (drop j xs) = take k (drop j ys)"
  by (simp add: take_add)

lemma of_mem_bytes_inject:
  assumes "length bs = n" "length cs = n" "8 * n \<le> LENGTH('a::len)"
  shows "(of_mem_bytes big bs :: 'a word) = of_mem_bytes big cs \<longleftrightarrow> bs = cs"
  using mem_bytes_of_mem_bytes [OF assms(1, 3), of big] mem_bytes_of_mem_bytes [OF assms(2, 3), of big] by metis

text \<open>Well-formed images, what the report shows of them and what it does not.\<close>

definition a64_wf :: "sve_abi \<Rightarrow> a64_reginfo \<Rightarrow> bool" where
  "a64_wf abi ri \<longleftrightarrow> length (regs ri) = 31 \<and> length (extra ri) = RISU_SVE_REGS_SIZE abi SVE_VQ_MAX \<and>
     (sve_vl ri = 0 \<or> (\<exists>vq\<in>{1..16}. unat (sve_vl ri) = 16 * vq))"

definition a64_shown :: "sve_abi \<Rightarrow> a64_reginfo \<Rightarrow> nat" where
  "a64_shown abi ri = (if sve_vl ri \<noteq> 0 then SVE_SIG_REGS_SIZE abi (sve_vq_from_vl abi (unat (sve_vl ri))) else RISU_SIMD_REGS_SIZE)"

definition a64_view ::
  "sve_abi \<Rightarrow> a64_reginfo \<Rightarrow> (u64 list \<times> u64 \<times> u64) \<times> (u32 \<times> u32 \<times> u32 \<times> u32 \<times> u16) \<times> byte list" where
  "a64_view abi ri =
     ((regs ri, sp ri, pc ri), (flags ri, faulting_insn ri, fpsr ri, fpcr ri, sve_vl ri), take (a64_shown abi ri) (extra ri))"

definition a64_hidden :: "sve_abi \<Rightarrow> a64_reginfo \<Rightarrow> u64 \<times> u16 \<times> byte list" where
  "a64_hidden abi ri =
     (fault_address ri, reserved ri,
      take (a64_reginfo_size abi ri - 304 - a64_shown abi ri) (drop (a64_shown abi ri) (extra ri)))"

lemma a64_head_length: "a64_wf abi ri \<Longrightarrow> length (a64_head_bytes big ri) = 304"
  by (simp add: a64_head_bytes_def a64_wf_def)

lemma a64_head_inject:
  "a64_wf abi m \<Longrightarrow> a64_wf abi a \<Longrightarrow> a64_head_bytes big m = a64_head_bytes big a \<longleftrightarrow>
   (fault_address m = fault_address a \<and> reserved m = reserved a) \<and> (regs m = regs a \<and> sp m = sp a \<and> pc m = pc a) \<and>
   flags m = flags a \<and> faulting_insn m = faulting_insn a \<and> fpsr m = fpsr a \<and> fpcr m = fpcr a \<and> sve_vl m = sve_vl a"
  by (auto simp: a64_head_bytes_def a64_wf_def layout_inject)

lemma a64_shown_le: "sve_layout abi \<Longrightarrow> a64_wf abi ri \<Longrightarrow> 304 + a64_shown abi ri \<le> a64_reginfo_size abi ri"
  using sve_layoutD [of abi]
  by (fastforce simp: a64_wf_def a64_shown_def a64_reginfo_size_def)

lemma a64_decides:
  assumes "sve_layout abi" "a64_wf abi m" "a64_wf abi a"
  shows "a64_reginfo_is_eq abi big m a \<longleftrightarrow> a64_view abi m = a64_view abi a \<and> a64_hidden abi m = a64_hidden abi a"
proof -
  define k where "k = a64_reginfo_size abi m - 304"
  have size: "a64_reginfo_size abi m = 304 + k" "a64_shown abi m \<le> k" using a64_shown_le [OF assms(1, 2)] by (auto simp: k_def)
  then have k: "k = a64_shown abi m + (k - a64_shown abi m)" by simp
  have len: "length (extra m) = length (extra a)" using assms by (simp add: a64_wf_def)
  have "a64_reginfo_is_eq abi big m a \<longleftrightarrow> a64_head_bytes big m = a64_head_bytes big a \<and> take k (extra m) = take k (extra a)"
    using a64_head_length assms by (simp add: a64_reginfo_is_eq_def a64_reginfo_bytes_def size)
  also have "\<dots> \<longleftrightarrow> a64_head_bytes big m = a64_head_bytes big a \<and> take (a64_shown abi m) (extra m) = take (a64_shown abi m) (extra a) \<and>
      take (k - a64_shown abi m) (drop (a64_shown abi m) (extra m)) = take (k - a64_shown abi m) (drop (a64_shown abi m) (extra a))"
    by (subst (1 2) k) (simp add: take_split [OF len])
  finally show ?thesis
    unfolding a64_head_inject [OF assms(2, 3)] a64_view_def a64_hidden_def
    by (auto simp: k_def a64_shown_def a64_reginfo_size_def)
qed

lemma a64_core_lines_Nil:
  "a64_wf abi m \<Longrightarrow> a64_wf abi a \<Longrightarrow> a64_core_lines m a = [] \<longleftrightarrow>
   (regs m = regs a \<and> sp m = sp a \<and> pc m = pc a) \<and>
   flags m = flags a \<and> faulting_insn m = faulting_insn a \<and> fpsr m = fpsr a \<and> fpcr m = fpcr a \<and> sve_vl m = sve_vl a"
  unfolding a64_core_lines_def a64_wf_def append_is_Nil_conv
  by (subst for_each_differing) (auto simp: nl_def)

lemma a64_sve_lines_Nil:
  assumes "sve_layout abi" "a64_wf abi m" "a64_wf abi a" "sve_vl m \<noteq> 0"
  shows "a64_sve_lines abi big m a = [] \<longleftrightarrow> take (a64_shown abi m) (extra m) = take (a64_shown abi m) (extra a)"
proof -
  obtain vq where vq: "1 \<le> vq" "vq \<le> 16" "unat (sve_vl m) = 16 * vq" using assms(2, 4) by (auto simp: a64_wf_def)
  note L = sve_layoutD [OF assms(1) vq(1, 2)]
  have len: "length (extra m) = length (extra a)" using assms by (simp add: a64_wf_def)
  have "a64_sve_lines abi big m a = [] \<longleftrightarrow>
      (\<forall>i<32. sve_zreg_is_eq vq m (i * (16 * vq)) a (i * (16 * vq))) \<and>
      (\<forall>i<17. sve_preg_is_eq vq m (512 * vq + i * (2 * vq)) a (512 * vq + i * (2 * vq)))"
    using assms(1)
    by (auto simp: a64_sve_lines_def sve_layout_def vq(3) L(2, 5, 6) for_each_Nil Let_def sve_dump_preg_diff_def nl_def)
  also have "(\<forall>i<32. sve_zreg_is_eq vq m (i * (16 * vq)) a (i * (16 * vq))) \<longleftrightarrow> take (512 * vq) (extra m) = take (512 * vq) (extra a)"
    using chunks_agree [OF len, of 32 "16 * vq"] by (simp add: sve_zreg_is_eq_def extra_at_def mult.commute)
  also have "(\<forall>i<17. sve_preg_is_eq vq m (512 * vq + i * (2 * vq)) a (512 * vq + i * (2 * vq))) \<longleftrightarrow>
      take (34 * vq) (drop (512 * vq) (extra m)) = take (34 * vq) (drop (512 * vq) (extra a))"
    using chunks_agree [of "drop (512 * vq) (extra m)" "drop (512 * vq) (extra a)" 17 "2 * vq"] len
    by (simp add: sve_preg_is_eq_def extra_at_def mult.commute add.commute)
  finally show ?thesis using take_split [OF len, of "512 * vq" "34 * vq"] assms(4) by (simp add: a64_shown_def vq(3) L)
qed

lemma a64_simd_lines_Nil:
  assumes "512 \<le> length (extra m)" "512 \<le> length (extra a)" "length (extra m) = length (extra a)"
  shows "a64_simd_lines big m a = [] \<longleftrightarrow> take 512 (extra m) = take 512 (extra a)"
proof -
  have "extra_u64 big m (reginfo_vreg i) 0 = extra_u64 big a (reginfo_vreg i) 0 \<and>
      extra_u64 big m (reginfo_vreg i) 1 = extra_u64 big a (reginfo_vreg i) 1 \<longleftrightarrow>
      take 16 (drop (i * 16) (extra m)) = take 16 (drop (i * 16) (extra a))" if "i < 32" for i
    using that assms take_split [of "drop (i * 16) (extra m)" "drop (i * 16) (extra a)" 8 8]
    by (simp add: extra_u64_def extra_at_def reginfo_vreg_def of_mem_bytes_inject [where n = 8] add.commute)
  then have "a64_simd_lines big m a = [] \<longleftrightarrow> (\<forall>i<32. take 16 (drop (i * 16) (extra m)) = take 16 (drop (i * 16) (extra a)))"
    by (auto simp: a64_simd_lines_def for_each_Nil Let_def nl_def)
  then show ?thesis using chunks_agree [OF assms(3), of 32 16] by simp
qed

lemma a64_silent:
  assumes "sve_layout abi" "a64_wf abi m" "a64_wf abi a"
  shows "a64_mismatch_lines abi big m a = [] \<longleftrightarrow> a64_view abi m = a64_view abi a"
proof (cases "a64_core_lines m a = []")
  case True
  then have core: "(regs m = regs a \<and> sp m = sp a \<and> pc m = pc a) \<and>
      flags m = flags a \<and> faulting_insn m = faulting_insn a \<and> fpsr m = fpsr a \<and> fpcr m = fpcr a \<and> sve_vl m = sve_vl a"
    using a64_core_lines_Nil [OF assms(2, 3)] by blast
  have len: "length (extra m) = length (extra a)" "512 \<le> length (extra m)"
    using assms sve_layoutD(4) [OF assms(1), of 16] by (simp_all add: a64_wf_def SVE_VQ_MAX_def)
  have "a64_mismatch_lines abi big m a = [] \<longleftrightarrow> take (a64_shown abi m) (extra m) = take (a64_shown abi m) (extra a)"
    using a64_sve_lines_Nil [OF assms] a64_simd_lines_Nil [of m a big] len True
    by (simp add: a64_mismatch_lines_def a64_shown_def RISU_SIMD_REGS_SIZE_def)
  with core show ?thesis by (simp add: a64_view_def a64_shown_def)
next
  case False
  then show ?thesis using a64_core_lines_Nil [OF assms(2, 3)] by (auto simp: a64_mismatch_lines_def a64_view_def)
qed

text \<open>The layout is a hypothesis of the back end, so that it becomes a part of well-formedness in the contract.\<close>

interpretation a64: register_comparison "\<lambda>ri. sve_layout abi \<and> a64_wf abi ri" "a64_reginfo_is_eq abi big" "a64_mismatch_lines abi big"
    "a64_view abi" "a64_hidden abi" for abi big
  by unfold_locales (simp_all add: a64_decides a64_silent)

lemma store_bytes_length: "off + length bs \<le> length m \<Longrightarrow> length (store_bytes off bs m) = length m"
  by (simp add: store_bytes_def)

lemma a64_simd_wf:
  "sve_layout abi \<Longrightarrow> a64_wf abi ri \<Longrightarrow> a64_wf abi (a64_simd fp ri)"
  using sve_layoutD(4) [of abi 16]
  by (simp add: a64_wf_def a64_simd_def store_bytes_length SVE_VQ_MAX_def RISU_SIMD_REGS_SIZE_def)

lemma a64_vectors_wf:
  assumes "sve_layout abi" "0 \<le> test_sve" "test_sve \<le> 16" "a64_wf abi ri0" "a64_vectors abi test_sve fp sve ri0 = Inr (ri, err)"
  shows "a64_wf abi ri"
proof (cases "test_sve = 0")
  case True
  have "a64_wf abi (ri0\<lparr>fpsr := x, fpcr := y\<rparr>)" for x y using assms(4) by (simp add: a64_wf_def)
  with True show ?thesis
    using assms(4, 5) a64_simd_wf [OF assms(1)] by (auto simp: a64_vectors_def Let_def split: option.splits if_splits)
next
  case False
  define vq where "vq = nat test_sve"
  have vq: "1 \<le> vq" "vq \<le> 16" using False assms(2, 3) by (auto simp: vq_def)
  note L = sve_layoutD [OF assms(1) vq]
  have max: "RISU_SVE_REGS_SIZE abi SVE_VQ_MAX = 8736" using sve_layoutD(4) [OF assms(1), of 16] by (simp add: SVE_VQ_MAX_def)
  have off: "SVE_SIG_ZREG_OFFSET abi vq 0 - SVE_SIG_REGS_OFFSET abi = 0" using L(5) [of 0] by (simp add: reginfo_zreg_def)
  have "a64_wf abi (ri0\<lparr>fpsr := x, fpcr := y, sve_vl := v, extra := store_bytes 0 (take (546 * vq) bs) (extra ri0)\<rparr>)"
    if "unat v = 16 * vq" for x y v bs
    using that vq assms(4) by (auto simp: a64_wf_def store_bytes_length max)
  moreover have "a64_wf abi (ri0\<lparr>fpsr := x, fpcr := y\<rparr>)" for x y using assms(4) by (simp add: a64_wf_def)
  ultimately show ?thesis
    using assms(4, 5) False a64_simd_wf [OF assms(1)]
    by (auto simp: a64_vectors_def Let_def vq_def [symmetric] L off simp del: nat_eq_iff split: option.splits if_splits)
qed

text \<open>An option value that is accepted is a vector length of the layout, and images taken with it are well-formed.\<close>

lemma a64_process_arch_opt_range: "a64_process_arch_opt opt arg = Inr t \<Longrightarrow> opt = FIRST_ARCH_OPT \<and> 1 \<le> t \<and> t \<le> 16"
  by (auto simp: a64_process_arch_opt_def Let_def SVE_VQ_MAX_def split: if_splits)

lemma a64_process_arch_opt_decn:
  assumes "1 \<le> n" "n \<le> 16"
  shows "a64_process_arch_opt FIRST_ARCH_OPT (decn n) = Inr (int n)"
proof -
  have "strtol_10 64 (decn n) = int n" using assms by (intro strtol_10_decn) simp
  moreover have "sint (word_of_int (int n) :: u32) = int n" using assms unfolding signed_of_int by (simp add: signed_take_bit_int_eq_self)
  ultimately show ?thesis using assms by (simp add: a64_process_arch_opt_def SVE_VQ_MAX_def Let_def)
qed

lemma a64_core_wf: "a64_wf abi (a64_core abi big mem start uc)"
  by (simp add: a64_core_def a64_wf_def)

lemma a64_reginfo_init_wf:
  "sve_layout abi \<Longrightarrow> 0 \<le> test_sve \<Longrightarrow> test_sve \<le> 16 \<Longrightarrow> a64_reginfo_init abi test_sve big mem start uc = Inr (ri, err) \<Longrightarrow> a64_wf abi ri"
  by (auto simp: a64_reginfo_init_def intro: a64_vectors_wf [OF _ _ _ a64_core_wf])

text \<open>The registers of a complete SVE record are in the image, at the place the dump reads them from.\<close>

lemma a64_vectors_sve:
  assumes "sve_layout abi" "1 \<le> vq" "vq \<le> 16" "a64_wf abi ri"
    and "fp_size fp = sizeof_fpsimd_context abi" "unat (sve_ctx_vl sve) = 16 * vq"
    and "SVE_SIG_CONTEXT_SIZE abi 0 < sve_size sve" "SVE_SIG_CONTEXT_SIZE abi vq \<le> sve_size sve" "546 * vq \<le> length (sve_regs sve)"
  obtains ri' where "a64_vectors abi (int vq) (Some fp) (Some sve) ri = Inr (ri', [])" "sve_vl ri' = sve_ctx_vl sve"
    "take (546 * vq) (extra ri') = take (546 * vq) (sve_regs sve)"
proof -
  note L = sve_layoutD [OF assms(1-3)]
  have "SVE_SIG_ZREG_OFFSET abi vq 0 - SVE_SIG_REGS_OFFSET abi = 0" using L(5) [of 0] by (simp add: reginfo_zreg_def)
  then show thesis
    using assms that by (simp add: a64_vectors_def Let_def L store_bytes_def)
qed

text \<open>
  What the report does not show of an image that was taken: the fault address, and bytes that are clear.
\<close>

definition a64_rest :: "sve_abi \<Rightarrow> u16 \<Rightarrow> nat" where
  "a64_rest abi v = (if v \<noteq> 0 then let vq = sve_vq_from_vl abi (unat v) in RISU_SVE_REGS_SIZE abi vq - SVE_SIG_REGS_SIZE abi vq else 0)"

lemma a64_rest_size: "a64_reginfo_size abi ri - 304 - a64_shown abi ri = a64_rest abi (sve_vl ri)"
  by (simp add: a64_rest_def a64_reginfo_size_def a64_shown_def Let_def)

lemma a64_hidden_simd: "sve_vl ri = 0 \<Longrightarrow> a64_hidden abi ri = (fault_address ri, reserved ri, [])"
  unfolding a64_hidden_def a64_rest_size by (simp add: a64_rest_def)

lemma a64_hidden_sve:
  assumes "sve_layout abi" "1 \<le> vq" "vq \<le> 16" "unat (sve_vl ri) = 16 * vq" "extra ri = store_bytes 0 bs (replicate 8736 0)" "length bs = 546 * vq"
  shows "a64_hidden abi ri = (fault_address ri, reserved ri, replicate (a64_rest abi (sve_vl ri)) 0)"
proof -
  note L = sve_layoutD [OF assms(1-3)]
  have v: "sve_vl ri \<noteq> 0" using assms(2, 4) by auto
  have "a64_shown abi ri = 546 * vq" "a64_rest abi (sve_vl ri) = 16 * ((546 * vq + 15) div 16) - 546 * vq"
    using v by (simp_all add: a64_shown_def a64_rest_def Let_def assms(4) L)
  moreover have "16 * ((546 * vq + 15) div 16) - 546 * vq \<le> 8736 - 546 * vq"
    using div_le_mono [of "546 * vq + 15" 8751 16] assms(3) by simp
  ultimately show ?thesis unfolding a64_hidden_def a64_rest_size by (simp add: assms(5, 6) store_bytes_def min_absorb1)
qed

lemma a64_init_hidden:
  assumes "sve_layout abi" "0 \<le> test_sve" "test_sve \<le> 16" "a64_reginfo_init abi test_sve big mem start uc = Inr (ri, err)"
  shows "a64_hidden abi ri = (uc_fault_address uc, 0, replicate (a64_rest abi (sve_vl ri)) 0)"
proof -
  let ?c = "a64_core abi big mem start uc"
  obtain fpo sveo where v: "a64_vectors abi test_sve fpo sveo ?c = Inr (ri, err)"
    using assms(4) by (auto simp: a64_reginfo_init_def)
  have max: "RISU_SVE_REGS_SIZE abi SVE_VQ_MAX = 8736" using sve_layoutD(4) [OF assms(1), of 16] by (simp add: SVE_VQ_MAX_def)
  have c: "fault_address ?c = uc_fault_address uc" "reserved ?c = 0" "sve_vl ?c = 0" "extra ?c = replicate 8736 0"
    by (simp_all add: a64_core_def max)
  define vq where "vq = nat test_sve"
  have "fault_address ri = uc_fault_address uc \<and> reserved ri = 0 \<and>
    (sve_vl ri = 0 \<or> (\<exists>bs. 1 \<le> vq \<and> vq \<le> 16 \<and> unat (sve_vl ri) = 16 * vq \<and> extra ri = store_bytes 0 bs (replicate 8736 0) \<and> length bs = 546 * vq))"
  proof (cases "test_sve = 0")
    case True
    then show ?thesis using v c by (auto simp: a64_vectors_def Let_def a64_simd_def split: option.splits if_splits)
  next
    case False
    have vq: "1 \<le> vq" "vq \<le> 16" using False assms(2, 3) by (auto simp: vq_def)
    note L = sve_layoutD [OF assms(1) vq]
    have off: "SVE_SIG_ZREG_OFFSET abi vq 0 - SVE_SIG_REGS_OFFSET abi = 0" using L(5) [of 0] by (simp add: reginfo_zreg_def)
    show ?thesis
      using v c vq False
      by (auto simp: a64_vectors_def Let_def vq_def [symmetric] L off a64_simd_def simp del: nat_eq_iff split: option.splits if_splits)
  qed
  then show ?thesis
    using a64_hidden_simd [of ri abi] a64_hidden_sve [OF assms(1), of vq ri] by (auto simp: a64_rest_def)
qed

text \<open>The report does not look at the fault address, which is copied from the context and has no other use.\<close>

lemma a64_report_ignores_fault_address:
  "a64_reginfo_dump_mismatch abi big (m\<lparr>fault_address := v\<rparr>) (a\<lparr>fault_address := w\<rparr>) = a64_reginfo_dump_mismatch abi big m a"
proof -
  have z: "zreg_diff_loop big (m\<lparr>fault_address := v\<rparr>) x (a\<lparr>fault_address := w\<rparr>) y pad qs = zreg_diff_loop big m x a y pad qs" for x y pad qs
    by (induction qs arbitrary: pad) (simp_all add: extra_u64_def extra_at_def Let_def cong: if_cong)
  show ?thesis
    by (simp add: a64_reginfo_dump_mismatch_def a64_mismatch_lines_def a64_core_lines_def a64_sve_lines_def a64_simd_lines_def
        sve_zreg_is_eq_def sve_preg_is_eq_def sve_dump_zreg_diff_def sve_dump_preg_diff_def sve_dump_preg_def z
        extra_u64_def extra_u16_def extra_at_def Let_def cong: if_cong)
qed

lemma a64_init_fault_address:
  assumes "a64_reginfo_init abi test_sve big mem start uc = Inr (ri, err)"
  shows "a64_reginfo_init abi test_sve big mem start (uc\<lparr>uc_fault_address := w\<rparr>) = Inr (ri\<lparr>fault_address := w\<rparr>, err)"
proof -
  have c: "a64_core abi big mem start (uc\<lparr>uc_fault_address := w\<rparr>) = (a64_core abi big mem start uc)\<lparr>fault_address := w\<rparr>"
    by (simp add: a64_core_def)
  have "a64_vectors abi test_sve fp sve r = Inr (ri, err) \<Longrightarrow>
      a64_vectors abi test_sve fp sve (r\<lparr>fault_address := w\<rparr>) = Inr (ri\<lparr>fault_address := w\<rparr>, err)" for fp sve r
    by (auto simp: a64_vectors_def a64_simd_def Let_def split: option.splits if_splits)
  then show ?thesis using assms by (auto simp: a64_reginfo_init_def c)
qed

text \<open>The layout of the system headers, and a context whose SVE state is in an extra record.\<close>

definition sample_sve_abi :: sve_abi where
  "sample_sve_abi = \<lparr>sve_vl_from_vq = (\<lambda>vq. 16 * vq), sve_vq_from_vl = (\<lambda>v. v div 16), SVE_NUM_ZREGS = 32, SVE_NUM_PREGS = 16,
     SVE_SIG_REGS_OFFSET = 16, SVE_SIG_REGS_SIZE = (\<lambda>vq. 546 * vq), SVE_SIG_CONTEXT_SIZE = (\<lambda>vq. 16 + 546 * vq),
     SVE_SIG_ZREG_OFFSET = (\<lambda>vq i. 16 + i * (16 * vq)), SVE_SIG_PREG_OFFSET = (\<lambda>vq i. 16 + 512 * vq + i * (2 * vq)),
     sizeof_fpsimd_context = 528\<rparr>"

definition sample_a64 :: "u64 \<Rightarrow> a64_ctx" where
  "sample_a64 addr = \<lparr>uc_fault_address = addr, uc_regs = replicate 31 0, uc_pc = 0, uc_pstate = 0,
     uc_reserved = [FPSIMD \<lparr>fp_size = 528, fp_fpsr = 0, fp_fpcr = 0, fp_vregs = replicate 512 0\<rparr>,
       EXTRA [SVE \<lparr>sve_size = 562, sve_ctx_vl = 16, sve_regs = replicate 546 0\<rparr>, END], END]\<rparr>"

lemma sample_sve_layout: "sve_layout sample_sve_abi"
  by (simp add: sve_layout_def sample_sve_abi_def)

lemma sample_a64_moved: "sample_a64 addr = (sample_a64 0)\<lparr>uc_fault_address := addr\<rparr>"
  by (simp add: sample_a64_def)

lemma sample_a64_image: "\<exists>ri. a64_reginfo_init sample_sve_abi 1 False no_code 0 (sample_a64 addr) = Inr (ri, [])"
  by (simp add: a64_reginfo_init_def sample_a64_def a64_vectors_def sample_sve_abi_def Let_def)

end
