(* ===== verification/Arch_I386.thy ===== *)
theory Arch_I386
  imports Reg_Compare
begin

text \<open>
  The back end for i386 and x86-64 (\<^verbatim>\<open>src/risu_i386.c\<close>, \<^verbatim>\<open>src/risu_reginfo_i386.c\<close> and \<^verbatim>\<open>src/risu_reginfo_i386.h\<close>). Which register has
  which place in \<^verbatim>\<open>gregset_t\<close> is a fact of the system's headers and a parameter, as is the \<^verbatim>\<open>cpuid\<close> instruction. Registers are
  64 bits wide; those of an i386 have the upper half clear.
\<close>

unbundle bit_operations_syntax

section \<open>State\<close>

text \<open>The registers that are recorded, and their places; \<open>None\<close> stands for the others.\<close>

datatype i386_greg = EFL | IP | AX | BX | CX | DX | DI | SI | BP | SP | R8 | R9 | R10 | R11 | R12 | R13 | R14 | R15

record i386_abi =
  x86_64 :: bool
  greg_places :: "i386_greg option list"

definition NGREG :: "i386_abi \<Rightarrow> nat" where
  "NGREG abi = length (greg_places abi)"

definition REG_E :: "i386_abi \<Rightarrow> i386_greg \<Rightarrow> nat" where
  "REG_E abi r = length (takeWhile (\<lambda>p. p \<noteq> Some r) (greg_places abi))"

record i386_reginfo =
  faulting_insn :: u32
  mxcsr :: u32
  xfeatures :: u64
  gregs :: "u64 list"
  vregs :: "u64 list list"
  kregs :: "u64 list"

text \<open>
  \<^verbatim>\<open>_fpstate\<close>, of which the 32-bit form has a magic number of its own, and the \<^verbatim>\<open>_xstate\<close> it may be the beginning of: its
  features, its size and its bytes.
\<close>

record xstate =
  extended_size :: u32
  xstate_features :: u64
  xstate_bytes :: "byte list"

record fpstate =
  fxsr_magic :: bool
  fp_mxcsr :: u32
  xmm_space :: "u64 list"
  fp_xstate :: "xstate option"

record i386_ctx =
  uc_gregs :: "u64 list"
  uc_fpregs :: "fpstate option"

definition XFEAT_X87 :: u64 where "XFEAT_X87 = push_bit 0 1"
definition XFEAT_SSE :: u64 where "XFEAT_SSE = push_bit 1 1"
definition XFEAT_AVX :: u64 where "XFEAT_AVX = push_bit 2 1"
definition XFEAT_AVX512_OPMASK :: u64 where "XFEAT_AVX512_OPMASK = push_bit 5 1"
definition XFEAT_AVX512_ZMM_HI256 :: u64 where "XFEAT_AVX512_ZMM_HI256 = push_bit 6 1"
definition XFEAT_AVX512_HI16_ZMM :: u64 where "XFEAT_AVX512_HI16_ZMM = push_bit 7 1"

definition XFEAT_AVX512 :: u64 where
  "XFEAT_AVX512 = XFEAT_AVX512_OPMASK OR XFEAT_AVX512_ZMM_HI256 OR XFEAT_AVX512_HI16_ZMM"

definition has :: "u64 \<Rightarrow> u64 \<Rightarrow> bool" where
  "has features f \<longleftrightarrow> features AND f \<noteq> 0"

section \<open>Instructions and registers\<close>

text \<open>A value in a register of the machine's width.\<close>

definition greg :: "i386_abi \<Rightarrow> u64 \<Rightarrow> u64" where
  "greg abi v = (if x86_64 abi then v else take_bit 32 v)"

definition i386_advance_pc :: "i386_abi \<Rightarrow> i386_ctx \<Rightarrow> i386_ctx" where
  "i386_advance_pc abi uc = uc\<lparr>uc_gregs := (uc_gregs uc)[REG_E abi IP := greg abi (uc_gregs uc ! REG_E abi IP + 3)]\<rparr>"

definition i386_get_uc_pc :: "i386_abi \<Rightarrow> i386_ctx \<Rightarrow> u64" where
  "i386_get_uc_pc abi uc = uc_gregs uc ! REG_E abi IP"

definition i386_set_ucontext_paramreg :: "i386_abi \<Rightarrow> i386_ctx \<Rightarrow> u64 \<Rightarrow> i386_ctx" where
  "i386_set_ucontext_paramreg abi uc value = uc\<lparr>uc_gregs := (uc_gregs uc)[REG_E abi AX := greg abi value]\<rparr>"

text \<open>The registers are signed, so that those of an i386 are sign extended.\<close>

definition i386_get_reginfo_paramreg :: "i386_abi \<Rightarrow> i386_reginfo \<Rightarrow> u64" where
  "i386_get_reginfo_paramreg abi ri =
     (let v = gregs ri ! REG_E abi AX in if x86_64 abi then v else scast (ucast v :: u32))"

definition i386_get_risuop :: "i386_reginfo \<Rightarrow> RisuOp" where
  "i386_get_risuop ri =
     (if faulting_insn ri AND 0xf8ffff = 0xc0b90f then op_of_int (uint (drop_bit 16 (faulting_insn ri) AND 7)) else OP_SIGILL)"

definition i386_get_pc :: "i386_abi \<Rightarrow> i386_reginfo \<Rightarrow> u64" where
  "i386_get_pc abi ri = gregs ri ! REG_E abi IP"

section \<open>Options\<close>

text \<open>The result is the new value of \<^verbatim>\<open>xfeatures\<close>.\<close>

definition i386_process_arch_opt :: "int \<Rightarrow> string \<Rightarrow> (fault \<times> string) + u64" where
  "i386_process_arch_opt opt arg =
     (if opt \<noteq> FIRST_ARCH_OPT then Inl (Abort, [])
      else if arg = ''sse'' then Inr (XFEAT_X87 OR XFEAT_SSE)
      else if arg = ''avx'' then Inr (XFEAT_X87 OR XFEAT_SSE OR XFEAT_AVX)
      else if arg = ''avx512'' then Inr (XFEAT_X87 OR XFEAT_SSE OR XFEAT_AVX OR XFEAT_AVX512)
      else
        (let (v, endptr) = strtoull_0 arg
         in if endptr \<noteq> []
            then Inl (Exit_Failure, ''Unable to parse '' @ [CHR 0x27] @ endptr @ [CHR 0x27] @ '' in '' @ [CHR 0x27] @ arg @ [CHR 0x27] @
                        '' into an xfeatures integer mask'' @ nl)
            else Inr (of_nat v)))"

definition i386_reginfo_size :: "i386_abi \<Rightarrow> int" where
  "i386_reginfo_size abi = int (16 + (if x86_64 abi then 8 else 4) * NGREG abi + 64 * (if x86_64 abi then 32 else 8) + 64)"

section \<open>Taking an image\<close>

text \<open>\<open>cpuid leaf subleaf\<close> gives \<^verbatim>\<open>eax\<close> and \<^verbatim>\<open>ebx\<close>, or nothing if the leaf is not supported. The result is an offset in the state.\<close>

definition xsave_feature_buf :: "(nat \<Rightarrow> u64 \<Rightarrow> (u32 \<times> u32) option) \<Rightarrow> xstate \<Rightarrow> u64 \<Rightarrow> fault + nat" where
  "xsave_feature_buf cpuid xs feature =
     (case cpuid 0xd feature of
        None \<Rightarrow> Inl Abort
      | Some (eax, ebx) \<Rightarrow> if extended_size xs < eax + ebx then Inl Abort else Inr (unat ebx))"

definition i386_greg_value :: "i386_abi \<Rightarrow> u64 \<Rightarrow> i386_ctx \<Rightarrow> nat \<Rightarrow> u64" where
  "i386_greg_value abi image_start_address uc i =
     (case greg_places abi ! i of
        None \<Rightarrow> 0
      | Some r \<Rightarrow>
          if r = IP then greg abi (uc_gregs uc ! i - image_start_address)
          else if r = EFL then uc_gregs uc ! i AND 0xd5
          else if r = SP then 0xdeadbeef
          else uc_gregs uc ! i)"

definition read_u64s :: "byte list \<Rightarrow> nat \<Rightarrow> nat \<Rightarrow> fault + u64 list" where
  "read_u64s bs off n = (if length bs < off + 8 * n then Inl Out_Of_Bounds else Inr (dec_words False 8 n (drop off bs)))"

text \<open>A loop that copies \<open>q\<close> elements for each of \<open>n\<close> registers from the state to element \<open>at\<close> of register \<open>first + i\<close>.\<close>

definition put_at :: "nat \<Rightarrow> u64 list \<Rightarrow> u64 list \<Rightarrow> u64 list" where
  "put_at k new old = take k old @ new @ drop (k + length new) old"

definition copy_feature :: "nat \<Rightarrow> nat \<Rightarrow> nat \<Rightarrow> nat \<Rightarrow> u64 list \<Rightarrow> u64 list list \<Rightarrow> u64 list list" where
  "copy_feature first n at q ws vs =
     map (\<lambda>j. if first \<le> j \<and> j < first + n then put_at at (take q (drop (q * (j - first)) ws)) (vs ! j) else vs ! j) [0..<length vs]"

definition load_feature ::
  "(nat \<Rightarrow> u64 \<Rightarrow> (u32 \<times> u32) option) \<Rightarrow> xstate \<Rightarrow> u64 \<Rightarrow> nat \<Rightarrow> nat \<Rightarrow> nat \<Rightarrow> nat \<Rightarrow> i386_reginfo \<Rightarrow> fault + i386_reginfo" where
  "load_feature cpuid xs feature first n at q ri =
     andThen (xsave_feature_buf cpuid xs feature) (\<lambda>buf.
       andThen (read_u64s (xstate_bytes xs) buf (q * n)) (\<lambda>ws. Inr (ri\<lparr>vregs := copy_feature first n at q ws (vregs ri)\<rparr>)))"

definition load_opmask :: "(nat \<Rightarrow> u64 \<Rightarrow> (u32 \<times> u32) option) \<Rightarrow> xstate \<Rightarrow> i386_reginfo \<Rightarrow> fault + i386_reginfo" where
  "load_opmask cpuid xs ri =
     andThen (xsave_feature_buf cpuid xs XFEAT_AVX512_OPMASK) (\<lambda>buf.
       andThen (read_u64s (xstate_bytes xs) buf 8) (\<lambda>ws. Inr (ri\<lparr>kregs := ws\<rparr>)))"

definition load_xstate ::
  "i386_abi \<Rightarrow> (nat \<Rightarrow> u64 \<Rightarrow> (u32 \<times> u32) option) \<Rightarrow> nat \<Rightarrow> xstate \<Rightarrow> u64 \<Rightarrow> i386_reginfo \<Rightarrow> fault + i386_reginfo" where
  "load_xstate abi cpuid nvecregs xs features ri =
     andThen (if has features XFEAT_AVX then load_feature cpuid xs XFEAT_AVX 0 nvecregs 2 2 ri else Inr ri) (\<lambda>ri.
     andThen (if has features XFEAT_AVX512_OPMASK then load_opmask cpuid xs ri else Inr ri) (\<lambda>ri.
     andThen (if has features XFEAT_AVX512_ZMM_HI256 then load_feature cpuid xs XFEAT_AVX512_ZMM_HI256 0 nvecregs 4 4 ri else Inr ri) (\<lambda>ri.
       if x86_64 abi \<and> has features XFEAT_AVX512_HI16_ZMM
       then load_feature cpuid xs XFEAT_AVX512_HI16_ZMM 16 16 0 8 ri else Inr ri)))"

definition i386_core :: "i386_abi \<Rightarrow> u64 \<Rightarrow> (u64 \<Rightarrow> byte) \<Rightarrow> u64 \<Rightarrow> i386_ctx \<Rightarrow> i386_reginfo" where
  "i386_core abi features mem image_start_address uc =
     \<lparr>faulting_insn = mem_u32 False mem (uc_gregs uc ! REG_E abi IP), mxcsr = 0, xfeatures = features,
      gregs = map (i386_greg_value abi image_start_address uc) [0..<NGREG abi],
      vregs = replicate (if x86_64 abi then 32 else 8) (replicate 8 0), kregs = replicate 8 0\<rparr>"

definition i386_vectors ::
  "i386_abi \<Rightarrow> (nat \<Rightarrow> u64 \<Rightarrow> (u32 \<times> u32) option) \<Rightarrow> u64 \<Rightarrow> fpstate option \<Rightarrow> i386_reginfo \<Rightarrow> fault + i386_reginfo" where
  "i386_vectors abi cpuid features fpo ri0 =
     (case fpo of
        None \<Rightarrow> Inr ri0
      | Some fp \<Rightarrow>
          if \<not> x86_64 abi \<and> \<not> fxsr_magic fp then Inr ri0
          else
            (let nvecregs = (if x86_64 abi then 16 else 8);
                 ri = ri0\<lparr>mxcsr := fp_mxcsr fp, vregs := copy_feature 0 nvecregs 0 2 (xmm_space fp) (vregs ri0)\<rparr>
             in case fp_xstate fp of
                  None \<Rightarrow> Inr ri
                | Some xs \<Rightarrow> load_xstate abi cpuid nvecregs xs (features AND xstate_features xs) ri))"

definition i386_reginfo_init ::
  "i386_abi \<Rightarrow> (nat \<Rightarrow> u64 \<Rightarrow> (u32 \<times> u32) option) \<Rightarrow> u64 \<Rightarrow> (u64 \<Rightarrow> byte) \<Rightarrow> u64 \<Rightarrow> i386_ctx \<Rightarrow> fault + i386_reginfo" where
  "i386_reginfo_init abi cpuid features mem image_start_address uc =
     i386_vectors abi cpuid features (uc_fpregs uc) (i386_core abi features mem image_start_address uc)"

definition i386_reginfo_update :: "i386_reginfo \<Rightarrow> i386_ctx \<Rightarrow> i386_ctx" where
  "i386_reginfo_update ri uc = uc"

section \<open>Comparing\<close>

text \<open>The bytes of the structure, which has no padding.\<close>

definition i386_reginfo_bytes :: "i386_abi \<Rightarrow> i386_reginfo \<Rightarrow> byte list" where
  "i386_reginfo_bytes abi ri =
     mem_bytes False 4 (faulting_insn ri) @ mem_bytes False 4 (mxcsr ri) @ mem_bytes False 8 (xfeatures ri) @
     (if x86_64 abi then enc_words False 8 (gregs ri) else enc_words False 4 (map ucast (gregs ri) :: u32 list)) @
     enc_words False 8 (concat (vregs ri)) @ enc_words False 8 (kregs ri)"

definition i386_reginfo_is_eq :: "i386_abi \<Rightarrow> i386_reginfo \<Rightarrow> i386_reginfo \<Rightarrow> bool" where
  "i386_reginfo_is_eq abi m a \<longleftrightarrow> i386_reginfo_bytes abi m = i386_reginfo_bytes abi a"

section \<open>Printing\<close>

fun greg_suffix :: "i386_greg \<Rightarrow> string" where
  "greg_suffix EFL = ''flags''" | "greg_suffix IP = ''ip''" | "greg_suffix AX = ''ax''" | "greg_suffix BX = ''bx''"
| "greg_suffix CX = ''cx''" | "greg_suffix DX = ''dx''" | "greg_suffix DI = ''di''" | "greg_suffix SI = ''si''"
| "greg_suffix BP = ''bp''" | "greg_suffix SP = ''sp''" | "greg_suffix R8 = ''8''" | "greg_suffix R9 = ''9''"
| "greg_suffix R10 = ''10''" | "greg_suffix R11 = ''11''" | "greg_suffix R12 = ''12''" | "greg_suffix R13 = ''13''"
| "greg_suffix R14 = ''14''" | "greg_suffix R15 = ''15''"

definition regname :: "i386_abi \<Rightarrow> nat \<Rightarrow> string option" where
  "regname abi i =
     (case greg_places abi ! i of
        None \<Rightarrow> None
      | Some r \<Rightarrow> Some ((if x86_64 abi \<and> r \<noteq> EFL then ''r'' else ''e'') @ greg_suffix r))"

definition print_greg :: "i386_abi \<Rightarrow> u64 \<Rightarrow> string" where
  "print_greg abi v = (if x86_64 abi then hex016 v else hex08 (ucast v))"

definition get_nvecregs :: "i386_abi \<Rightarrow> u64 \<Rightarrow> nat" where
  "get_nvecregs abi features = (if x86_64 abi then if has features XFEAT_AVX512_HI16_ZMM then 32 else 16 else 8)"

definition get_nvecquads :: "u64 \<Rightarrow> nat" where
  "get_nvecquads features = (if has features XFEAT_AVX512_ZMM_HI256 then 8 else if has features XFEAT_AVX then 4 else 2)"

definition get_vecletter :: "u64 \<Rightarrow> char" where
  "get_vecletter features =
     (if has features (XFEAT_AVX512_ZMM_HI256 OR XFEAT_AVX512_HI16_ZMM) then CHR ''z''
      else if has features XFEAT_AVX then CHR ''y'' else CHR ''x'')"

text \<open>The elements of a vector register, from \<open>w - 1\<close> down to 0, with a space or a newline behind each.\<close>

definition print_quads :: "nat \<Rightarrow> u64 list \<Rightarrow> string" where
  "print_quads w v = concat (map (\<lambda>j. hex016 (v ! j) @ (if j = 0 then nl else '' '')) (rev [0..<w]))"

definition i386_reginfo_dump :: "i386_abi \<Rightarrow> i386_reginfo \<Rightarrow> string" where
  "i386_reginfo_dump abi ri =
     (let features = xfeatures ri; n = get_nvecregs abi features; w = get_nvecquads features; r = get_vecletter features
      in ''  faulting insn '' @ hexm 8 (faulting_insn ri) @ nl @
         for_each (NGREG abi) (\<lambda>i. case regname abi i of None \<Rightarrow> []
           | Some name \<Rightarrow> ''  '' @ pad_right 6 name @ '': '' @ print_greg abi (gregs ri ! i) @ nl) @
         ''  mxcsr : '' @ hexm 8 (mxcsr ri) @ nl @
         ''  xfeat : '' @ hexm 16 (xfeatures ri) @ nl @
         for_each n (\<lambda>i. ''  '' @ [r] @ ''mm'' @ pad_right 3 (decn i) @ '': '' @ print_quads w (vregs ri ! i)) @
         (if has features XFEAT_AVX512_OPMASK
          then for_each 8 (\<lambda>i. ''  k'' @ pad_right 5 (decn i) @ '': '' @ hex016 (kregs ri ! i) @ nl) else []))"

definition i386_mismatch_lines :: "i386_abi \<Rightarrow> i386_reginfo \<Rightarrow> i386_reginfo \<Rightarrow> string" where
  "i386_mismatch_lines abi m a =
     (let features = xfeatures m; n = get_nvecregs abi features; w = get_nvecquads features; r = get_vecletter features
      in for_each (NGREG abi) (\<lambda>i. if gregs m ! i \<noteq> gregs a ! i
           then ''  '' @ pad_right 6 (case regname abi i of Some name \<Rightarrow> name | None \<Rightarrow> []) @ '': '' @
             print_greg abi (gregs m ! i) @ '' v '' @ print_greg abi (gregs a ! i) @ nl
           else []) @
         (if mxcsr m \<noteq> mxcsr a then ''  mxcsr : '' @ hexm 8 (mxcsr m) @ '' v '' @ hexm 8 (mxcsr a) @ nl else []) @
         (if xfeatures m \<noteq> xfeatures a then ''  xfeat : '' @ hexm 16 (xfeatures m) @ '' v '' @ hexm 16 (xfeatures a) @ nl else []) @
         for_each n (\<lambda>i. if take w (vregs m ! i) \<noteq> take w (vregs a ! i)
           then ''  '' @ [r] @ ''mm'' @ pad_right 3 (decn i) @ '': '' @ print_quads w (vregs m ! i) @
             ''       v: '' @ print_quads w (vregs a ! i)
           else []) @
         for_each 8 (\<lambda>i. if kregs m ! i \<noteq> kregs a ! i
           then ''  k'' @ pad_right 5 (decn i) @ '': '' @ hex016 (kregs m ! i) @ '' v '' @ hex016 (kregs a ! i) @ nl else []))"

text \<open>The report, unless the assertion fails that a register that differs has a name.\<close>

definition i386_reginfo_dump_mismatch :: "i386_abi \<Rightarrow> i386_reginfo \<Rightarrow> i386_reginfo \<Rightarrow> fault + string" where
  "i386_reginfo_dump_mismatch abi m a =
     (if list_ex (\<lambda>i. gregs m ! i \<noteq> gregs a ! i \<and> regname abi i = None) [0..<NGREG abi] then Inl Abort
      else Inr (''Mismatch (master v apprentice):'' @ nl @ i386_mismatch_lines abi m a))"

section \<open>Lemmas\<close>

text \<open>Well-formed images: registers that are not recorded are clear, and on an i386 the upper halves.\<close>

definition i386_wf :: "i386_abi \<Rightarrow> i386_reginfo \<Rightarrow> bool" where
  "i386_wf abi ri \<longleftrightarrow>
     length (gregs ri) = NGREG abi \<and> (\<forall>i<NGREG abi. regname abi i = None \<longrightarrow> gregs ri ! i = 0) \<and>
     (\<forall>v\<in>set (gregs ri). greg abi v = v) \<and>
     length (vregs ri) = (if x86_64 abi then 32 else 8) \<and> (\<forall>v\<in>set (vregs ri). length v = 8) \<and> length (kregs ri) = 8"

text \<open>What the report shows of the vector registers depends on the features; the rest is compared but not shown.\<close>

definition i386_view :: "i386_abi \<Rightarrow> i386_reginfo \<Rightarrow> u64 list \<times> u32 \<times> u64 \<times> u64 list list \<times> u64 list" where
  "i386_view abi ri =
     (gregs ri, mxcsr ri, xfeatures ri,
      map (take (get_nvecquads (xfeatures ri))) (take (get_nvecregs abi (xfeatures ri)) (vregs ri)), kregs ri)"

definition i386_hidden :: "i386_abi \<Rightarrow> i386_reginfo \<Rightarrow> u32 \<times> u64 list list \<times> u64 list list" where
  "i386_hidden abi ri =
     (faulting_insn ri, map (drop (get_nvecquads (xfeatures ri))) (take (get_nvecregs abi (xfeatures ri)) (vregs ri)),
      drop (get_nvecregs abi (xfeatures ri)) (vregs ri))"

lemma concat_inject:
  "length xs = length ys \<Longrightarrow> \<forall>x\<in>set xs. length x = n \<Longrightarrow> \<forall>y\<in>set ys. length y = n \<Longrightarrow> concat xs = concat ys \<longleftrightarrow> xs = ys"
  by (induction xs ys rule: list_induct2) auto

lemma concat_length: "\<forall>x\<in>set xs. length x = n \<Longrightarrow> length (concat xs) = n * length xs"
  by (induction xs) auto

lemma map_ucast_inject:
  "\<forall>v\<in>set xs. take_bit 32 v = v \<Longrightarrow> \<forall>v\<in>set ys. take_bit 32 v = v \<Longrightarrow> (map ucast xs :: u32 list) = map ucast ys \<longleftrightarrow> xs = (ys :: u64 list)"
proof (induction xs arbitrary: ys)
  case (Cons x xs)
  have "x = y" if "(ucast x :: u32) = ucast y" "take_bit 32 y = y" for y
  proof -
    have "(ucast (ucast v :: u32) :: u64) = take_bit 32 v" for v :: u64 by (rule bit_word_eqI) (auto simp: bit_simps)
    then show ?thesis using that Cons.prems(1) by (metis list.set_intros(1))
  qed
  then show ?case using Cons by (cases ys) auto
qed auto

lemma i386_bytes_inject:
  assumes "i386_wf abi m" "i386_wf abi a"
  shows "i386_reginfo_bytes abi m = i386_reginfo_bytes abi a \<longleftrightarrow> m = a"
proof -
  have v: "length (concat (vregs m)) = length (concat (vregs a))" "concat (vregs m) = concat (vregs a) \<longleftrightarrow> vregs m = vregs a"
    using assms concat_inject [of "vregs m" "vregs a" 8] by (simp_all add: i386_wf_def concat_length [where n = 8])
  have g: "(map ucast (gregs m) :: u32 list) = map ucast (gregs a) \<longleftrightarrow> gregs m = gregs a" if "\<not> x86_64 abi"
    using assms that by (intro map_ucast_inject) (auto simp: i386_wf_def greg_def)
  have "length (gregs m) = length (gregs a)" "length (kregs m) = length (kregs a)" using assms by (simp_all add: i386_wf_def)
  then show ?thesis
    using v g by (cases m; cases a; cases "x86_64 abi") (auto simp: i386_reginfo_bytes_def layout_inject)
qed

lemma take_drop_agree: "map (take k) xs = map (take k) ys \<and> map (drop k) xs = map (drop k) ys \<longleftrightarrow> xs = ys"
  by (auto simp: list_eq_iff_nth_eq [of xs] list_eq_iff_nth_eq [of "map _ xs"]) (metis append_take_drop_id)

lemma i386_decides:
  "i386_wf abi m \<Longrightarrow> i386_wf abi a \<Longrightarrow>
   i386_reginfo_is_eq abi m a \<longleftrightarrow> i386_view abi m = i386_view abi a \<and> i386_hidden abi m = i386_hidden abi a"
proof -
  assume wf: "i386_wf abi m" "i386_wf abi a"
  have "vregs m = vregs a" if "xfeatures m = xfeatures a" "i386_view abi m = i386_view abi a" "i386_hidden abi m = i386_hidden abi a"
  proof -
    let ?n = "get_nvecregs abi (xfeatures a)"
    have "take ?n (vregs m) = take ?n (vregs a)" "drop ?n (vregs m) = drop ?n (vregs a)"
      using that take_drop_agree [of "get_nvecquads (xfeatures a)" "take ?n (vregs m)" "take ?n (vregs a)"]
      by (simp_all add: i386_view_def i386_hidden_def)
    then show ?thesis by (metis append_take_drop_id)
  qed
  then show ?thesis
    unfolding i386_reginfo_is_eq_def i386_bytes_inject [OF wf]
    by (auto simp: i386_view_def i386_hidden_def intro: i386_reginfo.equality)
qed

lemma i386_silent:
  assumes "i386_wf abi m" "i386_wf abi a"
  shows "i386_mismatch_lines abi m a = [] \<longleftrightarrow> i386_view abi m = i386_view abi a"
proof -
  let ?n = "get_nvecregs abi (xfeatures m)" and ?w = "get_nvecquads (xfeatures m)"
  have len: "?n \<le> length (vregs m)" "?n \<le> length (vregs a)" using assms by (auto simp: i386_wf_def get_nvecregs_def)
  have V: "(\<forall>i<?n. take ?w (vregs m ! i) = take ?w (vregs a ! i)) \<longleftrightarrow> map (take ?w) (take ?n (vregs m)) = map (take ?w) (take ?n (vregs a))"
    using len by (auto simp: list_eq_iff_nth_eq)
  have G: "(\<forall>i<NGREG abi. gregs m ! i = gregs a ! i) \<longleftrightarrow> gregs m = gregs a" and K: "(\<forall>i<8. kregs m ! i = kregs a ! i) \<longleftrightarrow> kregs m = kregs a"
    using assms by (auto simp: i386_wf_def intro!: nth_agree)
  have "i386_mismatch_lines abi m a = [] \<longleftrightarrow> (\<forall>i<NGREG abi. gregs m ! i = gregs a ! i) \<and> mxcsr m = mxcsr a \<and> xfeatures m = xfeatures a \<and>
      (\<forall>i<?n. take ?w (vregs m ! i) = take ?w (vregs a ! i)) \<and> (\<forall>i<8. kregs m ! i = kregs a ! i)"
    by (auto simp: i386_mismatch_lines_def Let_def for_each_Nil nl_def)
  then show ?thesis unfolding V G K by (auto simp: i386_view_def)
qed

interpretation i386: register_comparison "i386_wf abi" "i386_reginfo_is_eq abi" "i386_mismatch_lines abi" "i386_view abi" "i386_hidden abi"
  for abi
  by unfold_locales (simp_all add: i386_decides i386_silent)

text \<open>The report does not look at the instruction.\<close>

lemma i386_report_ignores_insn:
  "i386_reginfo_dump_mismatch abi (m\<lparr>faulting_insn := v\<rparr>) (a\<lparr>faulting_insn := w\<rparr>) = i386_reginfo_dump_mismatch abi m a"
  by (simp add: i386_reginfo_dump_mismatch_def i386_mismatch_lines_def Let_def cong: if_cong)

lemma i386_dump_mismatch_returns:
  "i386_wf abi m \<Longrightarrow> i386_wf abi a \<Longrightarrow>
   i386_reginfo_dump_mismatch abi m a = Inr (''Mismatch (master v apprentice):'' @ nl @ i386_mismatch_lines abi m a)"
  by (auto simp: i386_reginfo_dump_mismatch_def i386_wf_def list_ex_iff)

text \<open>
  What taking an image keeps: the shape of the vector registers, and that they are clear from register \<open>n\<close> and from element
  \<open>w\<close> on, as long as the loops stay below.
\<close>

definition quiet :: "nat \<Rightarrow> nat \<Rightarrow> u64 list list \<Rightarrow> bool" where
  "quiet n w vs \<longleftrightarrow> (\<forall>v\<in>set vs. length v = 8) \<and> (\<forall>j<length vs. \<forall>k<8. n \<le> j \<or> w \<le> k \<longrightarrow> vs ! j ! k = 0)"

lemma put_at_length: "length old = 8 \<Longrightarrow> k + length xs \<le> 8 \<Longrightarrow> length (put_at k xs old) = 8"
  by (simp add: put_at_def)

lemma put_at_beyond: "length old = 8 \<Longrightarrow> k + length xs \<le> j \<Longrightarrow> j < 8 \<Longrightarrow> put_at k xs old ! j = old ! j"
  by (auto simp: put_at_def nth_append)

lemma copy_feature_length [simp]: "length (copy_feature first m at q ws vs) = length vs"
  by (simp add: copy_feature_def)

lemma copy_feature_quiet:
  assumes "quiet n w vs" "first + m \<le> n" "at + q \<le> w" "w \<le> 8"
  shows "quiet n w (copy_feature first m at q ws vs)"
proof -
  have len: "length (vs ! j) = 8" if "j < length vs" for j using assms(1) that by (simp add: quiet_def)
  let ?c = "copy_feature first m at q ws vs"
  have nth: "?c ! j = (if first \<le> j \<and> j < first + m then put_at at (take q (drop (q * (j - first)) ws)) (vs ! j) else vs ! j)"
    if "j < length vs" for j using that by (simp add: copy_feature_def)
  have le: "at + length (take q xs) \<le> at + q" for xs :: "u64 list" by simp
  have "length (?c ! j) = 8" if "j < length vs" for j
    using len [OF that] assms(3, 4) le [of "drop (q * (j - first)) ws"] by (simp add: nth [OF that] put_at_length)
  moreover have "?c ! j ! k = 0" if "j < length vs" "k < 8" "n \<le> j \<or> w \<le> k" for j k
  proof -
    have "vs ! j ! k = 0" using assms(1) that by (auto simp: quiet_def)
    moreover have "at + length (take q (drop (q * (j - first)) ws)) \<le> k" if "w \<le> k" using that assms(3) le by (meson order_trans)
    ultimately show ?thesis using that assms(2) len [OF that(1)] by (auto simp: nth [OF that(1)] put_at_beyond)
  qed
  ultimately show ?thesis by (auto simp: quiet_def set_conv_nth)
qed

lemma load_feature_vregs:
  assumes "load_feature cpuid xs feature first m at q ri = Inr ri'"
  obtains ws where "ri' = ri\<lparr>vregs := copy_feature first m at q ws (vregs ri)\<rparr>"
  using assms by (auto simp: load_feature_def)

lemma load_opmask_kregs:
  assumes "load_opmask cpuid xs ri = Inr ri'"
  obtains ws where "ri' = ri\<lparr>kregs := ws\<rparr>" "length ws = 8"
  using assms by (auto simp: load_opmask_def read_u64s_def split: if_splits)

text \<open>The fields that the vector state does not touch, and the shape of the others.\<close>

definition i386_shape :: "nat \<Rightarrow> nat \<Rightarrow> i386_reginfo \<Rightarrow> i386_reginfo \<Rightarrow> bool" where
  "i386_shape n w ri ri' \<longleftrightarrow> gregs ri' = gregs ri \<and> xfeatures ri' = xfeatures ri \<and> faulting_insn ri' = faulting_insn ri \<and>
     length (vregs ri') = length (vregs ri) \<and> quiet n w (vregs ri') \<and> length (kregs ri') = 8"

lemma load_feature_shape:
  "load_feature cpuid xs feature first m at q ri = Inr ri' \<Longrightarrow> i386_shape n w ri0 ri \<Longrightarrow> first + m \<le> n \<Longrightarrow> at + q \<le> w \<Longrightarrow> w \<le> 8 \<Longrightarrow>
   i386_shape n w ri0 ri'"
  by (erule load_feature_vregs) (simp add: i386_shape_def copy_feature_quiet)

lemma load_opmask_shape: "load_opmask cpuid xs ri = Inr ri' \<Longrightarrow> i386_shape n w ri0 ri \<Longrightarrow> i386_shape n w ri0 ri'"
  by (erule load_opmask_kregs) (simp add: i386_shape_def)

lemma load_xstate_shape:
  assumes "load_xstate abi cpuid m xs features ri = Inr ri'" "i386_shape n w ri0 ri" "m \<le> n" "w \<le> 8"
    and "has features XFEAT_AVX \<Longrightarrow> 4 \<le> w" "has features XFEAT_AVX512_ZMM_HI256 \<Longrightarrow> w = 8"
    and "x86_64 abi \<Longrightarrow> has features XFEAT_AVX512_HI16_ZMM \<Longrightarrow> n = 32 \<and> w = 8"
  shows "i386_shape n w ri0 ri'"
proof -
  obtain r1 r2 r3 where steps:
    "(if has features XFEAT_AVX then load_feature cpuid xs XFEAT_AVX 0 m 2 2 ri else Inr ri) = Inr r1"
    "(if has features XFEAT_AVX512_OPMASK then load_opmask cpuid xs r1 else Inr r1) = Inr r2"
    "(if has features XFEAT_AVX512_ZMM_HI256 then load_feature cpuid xs XFEAT_AVX512_ZMM_HI256 0 m 4 4 r2 else Inr r2) = Inr r3"
    "(if x86_64 abi \<and> has features XFEAT_AVX512_HI16_ZMM then load_feature cpuid xs XFEAT_AVX512_HI16_ZMM 16 16 0 8 r3 else Inr r3) = Inr ri'"
    using assms(1) unfolding load_xstate_def andThen_eq_Inr by blast
  have "i386_shape n w ri0 r1" using steps(1) assms(2-5) load_feature_shape [of cpuid xs XFEAT_AVX 0 m 2 2 ri r1 n w ri0] by (auto split: if_splits)
  then have "i386_shape n w ri0 r2" using steps(2) by (auto split: if_splits intro: load_opmask_shape)
  then have "i386_shape n w ri0 r3"
    using steps(3) assms(3, 4, 6) load_feature_shape [of cpuid xs XFEAT_AVX512_ZMM_HI256 0 m 4 4 r2 r3 n w ri0] by (auto split: if_splits)
  then show ?thesis
    using steps(4) assms(7) load_feature_shape [of cpuid xs XFEAT_AVX512_HI16_ZMM 16 16 0 8 r3 ri' n w ri0] by (auto split: if_splits)
qed

lemma has_and: "has (f AND g) x \<Longrightarrow> has f x"
  unfolding has_def by (metis and.assoc and.commute and_zero_eq)

lemma i386_vectors_shape:
  assumes "i386_vectors abi cpuid f fpo ri = Inr ri'" "i386_shape n w ri ri" "w \<le> 8" "2 \<le> w" "(if x86_64 abi then 16 else 8) \<le> n"
    and "has f XFEAT_AVX \<Longrightarrow> 4 \<le> w" "has f XFEAT_AVX512_ZMM_HI256 \<Longrightarrow> w = 8"
    and "x86_64 abi \<Longrightarrow> has f XFEAT_AVX512_HI16_ZMM \<Longrightarrow> n = 32 \<and> w = 8"
  shows "i386_shape n w ri ri'"
proof (cases fpo)
  case None
  then show ?thesis using assms(1, 2) by (simp add: i386_vectors_def)
next
  case (Some fp)
  define m where "m = (if x86_64 abi then 16 else 8 :: nat)"
  define r where "r = ri\<lparr>mxcsr := fp_mxcsr fp, vregs := copy_feature 0 m 0 2 (xmm_space fp) (vregs ri)\<rparr>"
  have "i386_shape n w ri r" using assms(2-5) by (simp add: r_def i386_shape_def m_def copy_feature_quiet)
  moreover have "i386_shape n w ri ri'" if "load_xstate abi cpuid m xs (f AND xstate_features xs) r = Inr ri'" for xs
    by (rule load_xstate_shape [OF that]) (use calculation assms(3, 5-8) has_and in \<open>auto simp: m_def\<close>)
  moreover have "ri' = ri \<or> ri' = r \<or> (\<exists>xs. load_xstate abi cpuid m xs (f AND xstate_features xs) r = Inr ri')"
    using assms(1) Some by (auto simp: i386_vectors_def Let_def m_def r_def split: if_splits option.splits)
  ultimately show ?thesis using assms(2) by blast
qed

definition i386_ctx_wf :: "i386_abi \<Rightarrow> i386_ctx \<Rightarrow> bool" where
  "i386_ctx_wf abi uc \<longleftrightarrow> length (uc_gregs uc) = NGREG abi \<and> (\<forall>v\<in>set (uc_gregs uc). greg abi v = v)"

lemma i386_core_wf:
  assumes "i386_ctx_wf abi uc"
  shows "i386_wf abi (i386_core abi f mem start uc)"
proof -
  have u: "greg abi (uc_gregs uc ! i) = uc_gregs uc ! i" if "i < NGREG abi" for i using assms that by (simp add: i386_ctx_wf_def)
  have "greg abi (v AND 0xd5) = v AND 0xd5" if "greg abi v = v" for v
    using that by (auto simp: greg_def take_bit_and split: if_splits)
  then have "greg abi (i386_greg_value abi start uc i) = i386_greg_value abi start uc i" if "i < NGREG abi" for i
    using u [OF that] by (auto simp: i386_greg_value_def greg_def split: option.splits)
  then show ?thesis
    by (auto simp: i386_wf_def i386_core_def regname_def i386_greg_value_def split: option.splits)
qed

lemma i386_core_shape: "i386_shape n w (i386_core abi f mem start uc) (i386_core abi f mem start uc)"
  by (simp add: i386_shape_def i386_core_def quiet_def)

lemma i386_reginfo_init_wf:
  assumes "i386_ctx_wf abi uc" "i386_reginfo_init abi cpuid f mem start uc = Inr ri"
  shows "i386_wf abi ri"
proof -
  have "i386_shape 32 8 (i386_core abi f mem start uc) ri"
    by (rule i386_vectors_shape [OF assms(2) [unfolded i386_reginfo_init_def] i386_core_shape]) auto
  then show ?thesis using i386_core_wf [OF assms(1), of f mem start] by (auto simp: i386_shape_def i386_wf_def quiet_def)
qed

text \<open>
  When the features that are asked for include the upper halves of the first 16 registers with those of the last 16, as the
  named sets do, what the report does not show of the vector registers is clear.
\<close>

definition i386_coherent :: "u64 \<Rightarrow> bool" where
  "i386_coherent f \<longleftrightarrow> has f XFEAT_AVX512_HI16_ZMM \<longrightarrow> has f XFEAT_AVX512_ZMM_HI256"

lemma quiet_hidden:
  assumes "quiet n w vs" "w \<le> 8" "n \<le> length vs"
  shows "map (drop w) (take n vs) = replicate n (replicate (8 - w) 0)" "drop n vs = replicate (length vs - n) (replicate 8 0)"
proof -
  have len: "length (vs ! j) = 8" if "j < length vs" for j using assms(1) that by (simp add: quiet_def)
  have zero: "vs ! j ! k = 0" if "j < length vs" "k < 8" "n \<le> j \<or> w \<le> k" for j k using assms(1) that by (auto simp: quiet_def)
  show "map (drop w) (take n vs) = replicate n (replicate (8 - w) 0)"
    using assms(3) len zero by (auto simp: list_eq_iff_nth_eq)
  show "drop n vs = replicate (length vs - n) (replicate 8 0)"
    using assms(3) len zero by (auto simp: list_eq_iff_nth_eq)
qed

lemma i386_init_hidden:
  assumes "i386_coherent f" "i386_reginfo_init abi cpuid f mem start uc = Inr ri"
  shows "i386_hidden abi ri =
    (mem_u32 False mem (uc_gregs uc ! REG_E abi IP), replicate (get_nvecregs abi f) (replicate (8 - get_nvecquads f) 0),
     replicate ((if x86_64 abi then 32 else 8) - get_nvecregs abi f) (replicate 8 0))"
proof -
  let ?n = "get_nvecregs abi f" and ?w = "get_nvecquads f" and ?c = "i386_core abi f mem start uc"
  have s: "i386_shape ?n ?w ?c ri"
    by (rule i386_vectors_shape [OF assms(2) [unfolded i386_reginfo_init_def] i386_core_shape])
      (use assms(1) in \<open>auto simp: get_nvecregs_def get_nvecquads_def i386_coherent_def\<close>)
  have c: "xfeatures ?c = f" "length (vregs ?c) = (if x86_64 abi then 32 else 8)" "faulting_insn ?c = mem_u32 False mem (uc_gregs uc ! REG_E abi IP)"
    by (simp_all add: i386_core_def)
  have "?w \<le> 8" "?n \<le> length (vregs ri)" using s c by (auto simp: i386_shape_def get_nvecregs_def get_nvecquads_def)
  then show ?thesis using quiet_hidden [of ?n ?w "vregs ri"] s c by (simp add: i386_hidden_def i386_shape_def)
qed

text \<open>
  The location of a feature is asked for with its bit in the mask of features in place of its number, 4 for AVX, which is
  component 2. Where the processor has no component 4, the answer is 0 and the upper halves are read from the start of the
  state.
\<close>

lemma xsave_avx_subleaf: "xsave_feature_buf cpuid xs XFEAT_AVX =
    (case cpuid 0xd 4 of None \<Rightarrow> Inl Abort | Some (eax, ebx) \<Rightarrow> if extended_size xs < eax + ebx then Inl Abort else Inr (unat ebx))"
  by (simp add: xsave_feature_buf_def XFEAT_AVX_def push_bit_eq_mult)

text \<open>The layout of the system headers for x86-64, and a context.\<close>

definition sample_i386_abi :: i386_abi where
  "sample_i386_abi = \<lparr>x86_64 = True,
     greg_places = map Some [R8, R9, R10, R11, R12, R13, R14, R15, DI, SI, BP, BX, DX, AX, CX, SP, IP, EFL] @ replicate 5 None\<rparr>"

definition sample_i386 :: i386_ctx where
  "sample_i386 = \<lparr>uc_gregs = replicate 23 0, uc_fpregs = None\<rparr>"

lemma sample_i386_image:
  "i386_ctx_wf sample_i386_abi sample_i386" "\<exists>ri. i386_reginfo_init sample_i386_abi cpuid 3 mem 0 sample_i386 = Inr ri"
  by (simp_all add: i386_ctx_wf_def sample_i386_def sample_i386_abi_def greg_def NGREG_def i386_reginfo_init_def i386_vectors_def)

end
