(* ===== verification/Backends.thy ===== *)
theory Backends
  imports Arch_Arm Arch_M68k Arch_S390x Arch_Loongarch64 Arch_AArch64 Arch_I386
begin

text \<open>
  What the six back ends other than PowerPC promise: which registers of two signal contexts they compare, that what they report
  is a difference the comparison sees, and how far the report shows what the comparison sees.
\<close>

unbundle bit_operations_syntax

section \<open>Images and their comparison\<close>

text \<open>
  That images are well-formed is shown for each back end (\<open>arm_reginfo_init_wf\<close> and so on). Taking two images and comparing
  them makes a verdict on the contexts.

  C18: what the ARM, m68k and s390x back ends compare of two signal contexts. For s390x, the images are accepted if and only
  if the contexts have the same general and floating point registers and FPC, and the faulting instructions the same offset;
  the PSW mask, with the condition code, is ignored. For m68k, if and only if the contexts agree in PS, the data and address
  registers but A6 and SP, FPCR, FPSR and the floating point registers; neither the program counter nor the instruction is looked
  at. For ARM, with the VFP block first in the area for coprocessors, both images can be taken, and are accepted if and only if the
  contexts agree in r0 to r12 and r14, in the offset of the program counter, in the flags of CPSR, in the 32 floating point
  registers, in FPSCR (without the exception flags unless they are tested) and in the size and the halfwords of the instruction.
\<close>

theorem verdict_on_contexts:
  "(s390x_ctx_wf sm \<and> s390x_ctx_wf sa \<longrightarrow>
      (s390x_reginfo_is_eq (s390x_reginfo_init smem sstart sm saddr) (s390x_reginfo_init smem' sstart' sa saddr') \<longleftrightarrow>
         saddr - sstart = saddr' - sstart' \<and> uc_fpc sm = uc_fpc sa \<and> uc_gprs sm = uc_gprs sa \<and> uc_fprs sm = uc_fprs sa)) \<and>
   (16 \<le> m68k_layout.NGREG L \<and> R_PS L < m68k_layout.NGREG L \<longrightarrow>
      (m68k_reginfo_is_eq L (m68k_reginfo_init L mmem mstart mm) (m68k_reginfo_init L mmem' mstart' ma) \<longleftrightarrow>
         m68k_ctx.uc_gregs mm ! R_PS L = m68k_ctx.uc_gregs ma ! R_PS L \<and>
         (\<forall>i<16. i \<noteq> R_SP L \<and> i \<noteq> R_A6 L \<longrightarrow> m68k_ctx.uc_gregs mm ! i = m68k_ctx.uc_gregs ma ! i) \<and>
         f_pcr (m68k_ctx.uc_fpregs mm) = f_pcr (m68k_ctx.uc_fpregs ma) \<and> f_psr (m68k_ctx.uc_fpregs mm) = f_psr (m68k_ctx.uc_fpregs ma) \<and>
         (\<forall>i<8. f_fpregs (m68k_ctx.uc_fpregs mm) ! i = f_fpregs (m68k_ctx.uc_fpregs ma) ! i))) \<and>
   (arm_ctx_wf ucm \<and> arm_ctx_wf uca \<and> vfp_first (uc_regspace ucm) \<and> vfp_first (uc_regspace uca) \<longrightarrow>
      (\<exists>m ucm' a uca'. arm_reginfo_init t big mem start ucm = Inr (m, ucm') \<and>
        arm_reginfo_init t big mem' start' uca = Inr (a, uca') \<and>
        (arm_reginfo_is_eq big m a \<longleftrightarrow>
           (\<forall>i\<in>set [0..<13] \<union> {14}. arm_regs ucm ! i = arm_regs uca ! i) \<and> arm_pc ucm - start = arm_pc uca - start' \<and>
           arm_cpsr ucm AND 0xF80F0000 = arm_cpsr uca AND 0xF80F0000 \<and>
           (\<forall>k<64. uc_regspace ucm ! (2 + k) = uc_regspace uca ! (2 + k)) \<and>
           uc_regspace ucm ! 66 AND vfp_mask t = uc_regspace uca ! 66 AND vfp_mask t \<and>
           arm_insnsize big mem ucm = arm_insnsize big mem' uca \<and>
           mem_u16 big mem (ucast (arm_pc ucm)) = mem_u16 big mem' (ucast (arm_pc uca)) \<and>
           (arm_insnsize big mem ucm \<noteq> 2 \<longrightarrow>
              mem_u16 big mem (ucast (arm_pc ucm) + 2) = mem_u16 big mem' (ucast (arm_pc uca) + 2)))))"
proof (intro conjI impI)
  assume "arm_ctx_wf ucm \<and> arm_ctx_wf uca \<and> vfp_first (uc_regspace ucm) \<and> vfp_first (uc_regspace uca)"
  then have "arm_ctx_wf ucm" "arm_ctx_wf uca" "vfp_first (uc_regspace ucm)" "vfp_first (uc_regspace uca)" by blast+
  note V = arm_verdict [OF this]
  show "\<exists>m ucm' a uca'. arm_reginfo_init t big mem start ucm = Inr (m, ucm') \<and>
        arm_reginfo_init t big mem' start' uca = Inr (a, uca') \<and>
        (arm_reginfo_is_eq big m a \<longleftrightarrow>
           (\<forall>i\<in>set [0..<13] \<union> {14}. arm_regs ucm ! i = arm_regs uca ! i) \<and> arm_pc ucm - start = arm_pc uca - start' \<and>
           arm_cpsr ucm AND 0xF80F0000 = arm_cpsr uca AND 0xF80F0000 \<and>
           (\<forall>k<64. uc_regspace ucm ! (2 + k) = uc_regspace uca ! (2 + k)) \<and>
           uc_regspace ucm ! 66 AND vfp_mask t = uc_regspace uca ! 66 AND vfp_mask t \<and>
           arm_insnsize big mem ucm = arm_insnsize big mem' uca \<and>
           mem_u16 big mem (ucast (arm_pc ucm)) = mem_u16 big mem' (ucast (arm_pc uca)) \<and>
           (arm_insnsize big mem ucm \<noteq> 2 \<longrightarrow>
              mem_u16 big mem (ucast (arm_pc ucm) + 2) = mem_u16 big mem' (ucast (arm_pc uca) + 2)))"
    by (rule V)
qed (blast intro!: s390x_verdict m68k_verdict)+

theorem verdict_on_contexts_witness:
  "let uc = sample_arm\<lparr>uc_regspace := [0x56465001, 268] @ replicate 64 7 @ [0x1f, 0, 0]\<rparr>
   in s390x_reginfo_is_eq (s390x_reginfo_init no_code 0 sample_s390x 4) (s390x_reginfo_init no_code 8 (sample_s390x\<lparr>uc_psw_mask := 1\<rparr>) 12) \<and>
      \<not> m68k_reginfo_is_eq sample_m68k_layout (m68k_reginfo_init sample_m68k_layout no_code 0 sample_m68k)
          (m68k_reginfo_init sample_m68k_layout no_code 0 (sample_m68k\<lparr>m68k_ctx.uc_gregs := (replicate 18 0)[13 := 1]\<rparr>)) \<and>
      (\<exists>m ucm' a uca'. arm_reginfo_init True False no_code 0 uc = Inr (m, ucm') \<and>
         arm_reginfo_init True False no_code 0 (uc\<lparr>arm_cpsr := 0x80000000\<rparr>) = Inr (a, uca') \<and> \<not> arm_reginfo_is_eq False m a)"
proof -
  define uc where "uc = sample_arm\<lparr>uc_regspace := [0x56465001, 268] @ replicate 64 7 @ [0x1f, 0, 0]\<rparr>"
  have arm: "arm_ctx_wf uc" "arm_ctx_wf (uc\<lparr>arm_cpsr := 0x80000000\<rparr>)" "vfp_first (uc_regspace uc)"
      "vfp_first (uc_regspace (uc\<lparr>arm_cpsr := 0x80000000\<rparr>))" "arm_cpsr uc = 0"
    by (simp_all add: uc_def sample_arm_def arm_ctx_wf_def vfp_first_def)
  have s390x: "s390x_ctx_wf sample_s390x" "s390x_ctx_wf (sample_s390x\<lparr>uc_psw_mask := 1\<rparr>)"
    by (simp_all add: s390x_ctx_wf_def sample_s390x_def)
  have m68k: "16 \<le> m68k_layout.NGREG sample_m68k_layout" "R_PS sample_m68k_layout < m68k_layout.NGREG sample_m68k_layout"
      "R_SP sample_m68k_layout = 15" "R_A6 sample_m68k_layout = 14"
      "m68k_ctx.uc_gregs sample_m68k ! 13 \<noteq> m68k_ctx.uc_gregs (sample_m68k\<lparr>m68k_ctx.uc_gregs := (replicate 18 0)[13 := 1]\<rparr>) ! 13"
    by (simp_all add: sample_m68k_layout_def sample_m68k_def)
  note V = verdict_on_contexts [of sample_s390x "sample_s390x\<lparr>uc_psw_mask := 1\<rparr>" no_code 0 4 no_code 8 12 sample_m68k_layout
      no_code 0 sample_m68k no_code 0 "sample_m68k\<lparr>m68k_ctx.uc_gregs := (replicate 18 0)[13 := 1]\<rparr>" uc "uc\<lparr>arm_cpsr := 0x80000000\<rparr>"
      True False no_code 0 no_code 0]
  have "s390x_reginfo_is_eq (s390x_reginfo_init no_code 0 sample_s390x 4) (s390x_reginfo_init no_code 8 (sample_s390x\<lparr>uc_psw_mask := 1\<rparr>) 12)"
    using V [THEN conjunct1] s390x by simp
  moreover have "\<not> m68k_reginfo_is_eq sample_m68k_layout (m68k_reginfo_init sample_m68k_layout no_code 0 sample_m68k)
          (m68k_reginfo_init sample_m68k_layout no_code 0 (sample_m68k\<lparr>m68k_ctx.uc_gregs := (replicate 18 0)[13 := 1]\<rparr>))"
    using V [THEN conjunct2, THEN conjunct1] m68k by fastforce
  moreover have "\<exists>m ucm' a uca'. arm_reginfo_init True False no_code 0 uc = Inr (m, ucm') \<and>
         arm_reginfo_init True False no_code 0 (uc\<lparr>arm_cpsr := 0x80000000\<rparr>) = Inr (a, uca') \<and> \<not> arm_reginfo_is_eq False m a"
  proof -
    have "arm_cpsr uc AND 0xF80F0000 \<noteq> arm_cpsr (uc\<lparr>arm_cpsr := 0x80000000\<rparr>) AND 0xF80F0000" using arm(5) by simp
    then show ?thesis using V [THEN conjunct2, THEN conjunct2, rule_format, OF conjI [OF arm(1) conjI [OF arm(2) conjI [OF arm(3,4)]]]] by blast
  qed
  ultimately show ?thesis unfolding Let_def uc_def [symmetric] by blast
qed

section \<open>Comparison and report\<close>

text \<open>
  C19: for well-formed images of the ARM, m68k, s390x and LoongArch back ends, the comparison fails exactly when the report of
  the mismatch has something to show: it is never empty for a mismatch, and never shows one that the comparison accepts.
\<close>

theorem reports_are_complete:
  "(arm_wf am \<and> arm_wf aa \<longrightarrow> (arm_reginfo_is_eq big am aa \<longleftrightarrow> arm_reginfo_dump_mismatch am aa = arm_mismatch_heading)) \<and>
   (m68k_wf L mm \<and> m68k_wf L ma \<longrightarrow> (m68k_reginfo_is_eq L mm ma \<longleftrightarrow> m68k_reginfo_dump_mismatch L mm ma = [])) \<and>
   (s390x_wf sm \<and> s390x_wf sa \<longrightarrow> (s390x_reginfo_is_eq sm sa \<longleftrightarrow> s390x_reginfo_dump_mismatch sm sa = [])) \<and>
   (la_wf lm \<and> la_wf la \<longrightarrow>
      (la_reginfo_is_eq lm la \<longleftrightarrow> la_reginfo_dump_mismatch lm la = ''mismatch detail (master : apprentice):'' @ nl))"
  using arm.reported m68k.reported s390x.reported la.reported
  by (auto simp: arm_reginfo_dump_mismatch_def la_reginfo_dump_mismatch_def)

theorem reports_are_complete_witness:
  "let r = \<lparr>arm_reginfo.fpregs = replicate 32 0, faulting_insn = 0, faulting_insn_size = 4, gpreg = replicate 16 0, cpsr = 0, fpscr = 0\<rparr>;
       m = m68k_reginfo_init sample_m68k_layout no_code 0 sample_m68k;
       s = s390x_reginfo_init no_code 0 sample_s390x 0; l = la_core no_code 0 (sample_la sample_lasx)
   in \<not> arm_reginfo_is_eq True r (r\<lparr>cpsr := 1\<rparr>) \<and> m68k_reginfo_is_eq sample_m68k_layout m (m\<lparr>pc_rel := 4\<rparr>) \<and>
      \<not> s390x_reginfo_is_eq s (s\<lparr>fpc := 1\<rparr>) \<and> \<not> la_reginfo_is_eq l (l\<lparr>fcsr := 1\<rparr>)"
proof -
  define r where "r = \<lparr>arm_reginfo.fpregs = replicate 32 0, faulting_insn = 0, faulting_insn_size = 4, gpreg = replicate 16 0, cpsr = 0, fpscr = 0\<rparr>"
  define m where "m = m68k_reginfo_init sample_m68k_layout no_code 0 sample_m68k"
  define s where "s = s390x_reginfo_init no_code 0 sample_s390x 0"
  define l where "l = la_core no_code 0 (sample_la sample_lasx)"
  have "arm_wf r" "arm_wf (r\<lparr>cpsr := 1\<rparr>)" "m68k_wf sample_m68k_layout m" "m68k_wf sample_m68k_layout (m\<lparr>pc_rel := 4\<rparr>)"
    by (simp_all add: r_def m_def arm_wf_def m68k_wf_def m68k_reginfo_init_def)
  moreover have "s390x_wf s" "s390x_wf (s\<lparr>fpc := 1\<rparr>)" "la_wf l" "la_wf (l\<lparr>fcsr := 1\<rparr>)"
    by (simp_all add: s_def l_def s390x_wf_def s390x_reginfo_init_def sample_s390x_def la_wf_def la_core_def split: prod.split)
  moreover have "arm_reginfo_dump_mismatch r (r\<lparr>cpsr := 1\<rparr>) \<noteq> arm_mismatch_heading"
      "m68k_reginfo_dump_mismatch sample_m68k_layout m (m\<lparr>pc_rel := 4\<rparr>) = []"
    by (simp_all add: arm_reginfo_dump_mismatch_def arm_mismatch_lines_def m68k_reginfo_dump_mismatch_def for_each_Nil r_def)
  moreover have "s390x_reginfo_dump_mismatch s (s\<lparr>fpc := 1\<rparr>) \<noteq> []"
      "la_reginfo_dump_mismatch l (l\<lparr>fcsr := 1\<rparr>) \<noteq> ''mismatch detail (master : apprentice):'' @ nl"
    by (simp_all add: s_def l_def s390x_reginfo_dump_mismatch_def s390x_reginfo_init_def sample_s390x_def la_reginfo_dump_mismatch_def
        la_mismatch_lines_def la_core_def split: prod.split)
  ultimately show ?thesis
    using reports_are_complete [of r "r\<lparr>cpsr := 1\<rparr>" True sample_m68k_layout m "m\<lparr>pc_rel := 4\<rparr>" s "s\<lparr>fpc := 1\<rparr>" l "l\<lparr>fcsr := 1\<rparr>"]
    unfolding Let_def r_def [symmetric] m_def [symmetric] s_def [symmetric] l_def [symmetric] by blast
qed

text \<open>
  C21: an i386 mismatch whose report shows nothing is one in the instruction that raised the signal. For two images taken with
  the same features, of which the upper halves of the last 16 vector registers come only with those of the first 16,
  \<^verbatim>\<open>reginfo_dump_mismatch\<close> returns (no register without a name differs), and the comparison accepts the images exactly when
  the report is empty and the instructions are the same. The report never shows the instructions: it is the same whatever they are.
\<close>

theorem i386_report_omits_instruction:
  assumes "i386_coherent f" "i386_ctx_wf abi ucm" "i386_ctx_wf abi uca"
    and "i386_reginfo_init abi cpuid f mem startm ucm = Inr m" "i386_reginfo_init abi cpuid' f mem' starta uca = Inr a"
  shows "\<exists>txt. i386_reginfo_dump_mismatch abi m a = Inr (''Mismatch (master v apprentice):'' @ nl @ txt) \<and>
    (i386_reginfo_is_eq abi m a \<longleftrightarrow> txt = [] \<and> i386_reginfo.faulting_insn m = i386_reginfo.faulting_insn a) \<and>
    (\<forall>v w. i386_reginfo_dump_mismatch abi (m\<lparr>faulting_insn := v\<rparr>) (a\<lparr>faulting_insn := w\<rparr>) = i386_reginfo_dump_mismatch abi m a)"
proof -
  have wf: "i386_wf abi m" "i386_wf abi a" using assms i386_reginfo_init_wf by blast+
  have hidden: "i386_hidden abi m = i386_hidden abi a \<longleftrightarrow> i386_reginfo.faulting_insn m = i386_reginfo.faulting_insn a"
    using i386_init_hidden [OF assms(1, 4)] i386_init_hidden [OF assms(1, 5)] by (auto simp: i386_hidden_def)
  show ?thesis
    using i386_dump_mismatch_returns [OF wf] i386.decides [OF wf] i386.silent [OF wf] hidden i386_report_ignores_insn by blast
qed

theorem i386_report_omits_instruction_witness:
  "\<exists>m a. i386_reginfo_init sample_i386_abi (\<lambda>_ _. None) 3 no_code 0 sample_i386 = Inr m \<and>
     i386_reginfo_init sample_i386_abi (\<lambda>_ _. None) 3 (no_code(0 := 0x0f)) 0 sample_i386 = Inr a \<and>
     \<not> i386_reginfo_is_eq sample_i386_abi m a \<and>
     i386_reginfo_dump_mismatch sample_i386_abi m a = Inr (''Mismatch (master v apprentice):'' @ nl)"
proof -
  define m where "m = i386_core sample_i386_abi 3 no_code 0 sample_i386"
  define a where "a = i386_core sample_i386_abi 3 (no_code(0 := 0x0f)) 0 sample_i386"
  have init: "i386_reginfo_init sample_i386_abi (\<lambda>_ _. None) 3 no_code 0 sample_i386 = Inr m"
      "i386_reginfo_init sample_i386_abi (\<lambda>_ _. None) 3 (no_code(0 := 0x0f)) 0 sample_i386 = Inr a"
    by (simp_all add: i386_reginfo_init_def i386_vectors_def sample_i386_def m_def a_def)
  have "i386_wf sample_i386_abi m" "i386_wf sample_i386_abi a" "i386_view sample_i386_abi m = i386_view sample_i386_abi a"
    using i386_core_wf [OF sample_i386_image(1)] by (simp_all add: m_def a_def i386_view_def i386_core_def)
  then have silent: "i386_mismatch_lines sample_i386_abi m a = []" by (simp add: i386.silent)
  have differ: "i386_reginfo.faulting_insn m \<noteq> i386_reginfo.faulting_insn a"
    by (simp add: m_def a_def i386_core_def sample_i386_def sample_i386_abi_def REG_E_def mem_u32_def of_mem_bytes_def no_code_def)
  have "i386_coherent 3" by (simp add: i386_coherent_def has_def XFEAT_AVX512_HI16_ZMM_def push_bit_eq_mult)
  from i386_report_omits_instruction [OF this sample_i386_image(1) sample_i386_image(1) init] differ silent init
  show ?thesis by (intro exI [of _ m] exI [of _ a]) (auto simp: i386_reginfo_dump_mismatch_def split: if_splits)
qed

text \<open>
  C22: an AArch64 mismatch whose report shows nothing is one in the fault address. For two images taken with the same vector
  length option, the comparison accepts them exactly when the report has nothing but its heading and the fault addresses
  are the same. The report never shows the fault addresses: it is the same whatever they are.
\<close>

theorem aarch64_report_omits_fault_address:
  assumes "sve_layout abi" "0 \<le> test_sve" "test_sve \<le> 16"
    and "a64_reginfo_init abi test_sve big mem startm ucm = Inr (m, errm)" "a64_reginfo_init abi test_sve big mem' starta uca = Inr (a, erra)"
  shows "(a64_reginfo_is_eq abi big m a \<longleftrightarrow>
      a64_reginfo_dump_mismatch abi big m a = ''mismatch detail (master : apprentice):'' @ nl \<and> fault_address m = fault_address a) \<and>
    (\<forall>v w. a64_reginfo_dump_mismatch abi big (m\<lparr>fault_address := v\<rparr>) (a\<lparr>fault_address := w\<rparr>) = a64_reginfo_dump_mismatch abi big m a)"
proof -
  have wf: "sve_layout abi \<and> a64_wf abi m" "sve_layout abi \<and> a64_wf abi a"
    using assms a64_reginfo_init_wf by blast+
  have hidden: "a64_hidden abi m = a64_hidden abi a \<longleftrightarrow> fault_address m = fault_address a" if "sve_vl m = sve_vl a"
    using a64_init_hidden [OF assms(1-4)] a64_init_hidden [OF assms(1-3, 5)] that by (auto simp: a64_hidden_def)
  have "sve_vl m = sve_vl a" if "a64_view abi m = a64_view abi a" using that by (simp add: a64_view_def)
  then have "a64_reginfo_is_eq abi big m a \<longleftrightarrow>
      a64_reginfo_dump_mismatch abi big m a = ''mismatch detail (master : apprentice):'' @ nl \<and> fault_address m = fault_address a"
    unfolding a64.decides [OF wf] a64_reginfo_dump_mismatch_def using a64.silent [OF wf] hidden by auto
  then show ?thesis using a64_report_ignores_fault_address by blast
qed

theorem aarch64_report_omits_fault_address_witness:
  "\<exists>m a. a64_reginfo_init sample_sve_abi 1 False no_code 0 (sample_a64 0) = Inr (m, []) \<and>
     a64_reginfo_init sample_sve_abi 1 False no_code 0 (sample_a64 4096) = Inr (a, []) \<and>
     \<not> a64_reginfo_is_eq sample_sve_abi False m a \<and>
     a64_reginfo_dump_mismatch sample_sve_abi False m a = ''mismatch detail (master : apprentice):'' @ nl"
proof -
  obtain m where m: "a64_reginfo_init sample_sve_abi 1 False no_code 0 (sample_a64 0) = Inr (m, [])" using sample_a64_image by blast
  let ?a = "m\<lparr>fault_address := 4096\<rparr>"
  have a: "a64_reginfo_init sample_sve_abi 1 False no_code 0 (sample_a64 4096) = Inr (?a, [])"
    using a64_init_fault_address [OF m, of 4096] by (simp flip: sample_a64_moved)
  have "fault_address m = 0" using a64_init_fault_address [OF m, of 0] m
    by (simp flip: sample_a64_moved) (metis a64_reginfo.select_convs(1) a64_reginfo.surjective a64_reginfo.update_convs(1))
  then have differ: "fault_address m \<noteq> fault_address ?a" by simp
  note T = aarch64_report_omits_fault_address [OF sample_sve_layout, of 1 False no_code 0 "sample_a64 0" m "[]"]
  have "a64_reginfo_dump_mismatch sample_sve_abi False m m = ''mismatch detail (master : apprentice):'' @ nl"
    using T [OF _ _ m m] by (simp add: a64_reginfo_is_eq_def)
  moreover have "a64_reginfo_dump_mismatch sample_sve_abi False m ?a = a64_reginfo_dump_mismatch sample_sve_abi False m m"
    using T [OF _ _ m m, THEN conjunct2, rule_format, of "fault_address m" 4096] by simp
  moreover have "\<not> a64_reginfo_is_eq sample_sve_abi False m ?a" using T [OF _ _ m a] differ by simp
  ultimately show ?thesis using m a by metis
qed

section \<open>Particulars\<close>

text \<open>
  C23: taking an ARM image clears the cumulative exception flags of the floating point status in the context, as the comment in
  \<^verbatim>\<open>reginfo_init_vfp\<close> intends: an image of the context that is left has the same registers and instruction and the flags clear,
  whatever the option to test them says, and leaves that context as it is.
\<close>

theorem arm_image_clears_exceptions:
  "arm_reginfo_init test_fp_exc big mem start uc = Inr (ri, uc') \<Longrightarrow>
   arm_reginfo_init u big mem start uc' = Inr (ri\<lparr>fpscr := fpscr ri AND NOT 0x9f\<rparr>, uc')"
  by (rule arm_reginfo_init_again)

theorem arm_image_clears_exceptions_witness:
  "let uc = sample_arm\<lparr>uc_regspace := [0x56465001, 268] @ replicate 64 7 @ [0x1f, 0, 0]\<rparr>
   in \<exists>ri uc'. arm_reginfo_init True False no_code 0 uc = Inr (ri, uc') \<and> fpscr ri = 0x1f \<and>
        arm_reginfo_init True False no_code 0 uc' = Inr (ri\<lparr>fpscr := 0\<rparr>, uc')"
proof -
  define uc where "uc = sample_arm\<lparr>uc_regspace := [0x56465001, 268] @ replicate 64 7 @ [0x1f, 0, 0]\<rparr>"
  obtain ri uc' where i: "arm_reginfo_init True False no_code 0 uc = Inr (ri, uc')" "arm_reginfo.fpscr ri = 0x1f"
    by (simp add: uc_def sample_arm_def arm_reginfo_init_def arm_reginfo_init_vfp.simps [of _ _ 0] Let_def nth_append)
  with arm_image_clears_exceptions [OF i(1), of True] show ?thesis unfolding Let_def uc_def [symmetric] by auto
qed

text \<open>
  C40: on a LoongArch machine without LASX the image cannot be taken within the bounds of the context's arrays. The loops over
  the registers of an LSX block, which has 64 elements, and of an FPU block, which has 32, use the indices of the LASX block
  and leave the array.
\<close>

theorem loongarch_narrow_vectors_overrun:
  assumes "parse_extcontext abi (sc_extcontext uc) \<lparr>fpu = None, lsx = None, lasx = None\<rparr> = Inr (rc, ext)"
    and "lasx ext = None" "lsx ext \<noteq> None \<or> fpu ext \<noteq> None"
    and "\<forall>b. lsx ext = Some b \<longrightarrow> length (ctx_regs b) = 64" "\<forall>b. fpu ext = Some b \<longrightarrow> length (ctx_regs b) = 32"
  shows "la_reginfo_init abi mem start uc = Inl Out_Of_Bounds"
  using la_vectors_narrow [OF assms(2, 4, 5, 3)] assms(1) by (simp add: la_reginfo_init_def)

theorem loongarch_narrow_vectors_overrun_witness:
  "la_reginfo_init sample_la_abi no_code 0 (sample_la sample_lsx) = Inl Out_Of_Bounds"
  using loongarch_narrow_vectors_overrun [of sample_la_abi "sample_la sample_lsx" 0 "\<lparr>fpu = None, lsx = Some sample_lsx, lasx = None\<rparr>"]
  by (simp add: sample_la_def sample_lsx_def la_end_def sample_la_abi_def)

end
