(* ===== verification/Fronts.thy ===== *)
theory Fronts
  imports Console Backends
begin

text \<open>
  The command line options of the back ends other than PowerPC, as tables and handlers for \<open>risu_main\<close>. The tables of m68k, s390x
  and LoongArch are null pointers. Each table is proper, so that the command line is understood as the reference parser does
  it for every back end.
\<close>

definition arm_long_opts :: "long_option option list" where
  "arm_long_opts = [Some \<lparr>opt_name = ''test-fp-exc'', has_arg = no_argument, flag = Some ''test_fp_exc'', val = 1\<rparr>, None]"

definition arm_extra_help :: string where
  "arm_extra_help = ''  --test-fp-exc     Check FP exception bits when comparing'' @ nl"

definition a64_long_opts :: "long_option option list" where
  "a64_long_opts = [Some \<lparr>opt_name = ''test-sve'', has_arg = required_argument, flag = None, val = FIRST_ARCH_OPT\<rparr>, None]"

definition a64_extra_help :: string where
  "a64_extra_help = ''  --test-sve=<vq>        Compare SVE registers with VQ'' @ nl"

definition i386_long_opts :: "long_option option list" where
  "i386_long_opts = [Some \<lparr>opt_name = ''xfeatures'', has_arg = required_argument, flag = None, val = FIRST_ARCH_OPT\<rparr>, None]"

definition i386_extra_help :: string where
  "i386_extra_help = ''  --xfeatures=<mask>  Use features in mask for XSAVE'' @ nl"

text \<open>A handler that prints a message and leaves the program, or stores the new value of its variable.\<close>

definition storing :: "(int \<Rightarrow> string \<Rightarrow> (fault \<times> string) + 'o) \<Rightarrow> int \<Rightarrow> string option \<Rightarrow> 'o \<Rightarrow> fault + 'o" where
  "storing handler c arg x =
     (case arg of
        None \<Rightarrow> Inl Out_Of_Bounds
      | Some a \<Rightarrow> (case handler c a of Inl (e, msg) \<Rightarrow> Inl e | Inr v \<Rightarrow> Inr v))"

definition linux_front ::
  "nat \<Rightarrow> long_option option list option \<Rightarrow> string option \<Rightarrow> (int \<Rightarrow> string option \<Rightarrow> 'o \<Rightarrow> fault + 'o) \<Rightarrow> 'o front" where
  "linux_front bits opts help handler =
     \<lparr>on_macos9 = False, with_zlib = False, no_signal = False, long_bits = bits, arch_long_opts = opts, arch_extra_help = help,
      arch_process_opt = handler\<rparr>"

definition arm_front :: "unit front" where
  "arm_front = linux_front 32 (Some arm_long_opts) (Some arm_extra_help) (\<lambda>c arg x. arm_process_arch_opt c arg)"

definition m68k_front :: "unit front" where
  "m68k_front = linux_front 32 None None (\<lambda>c arg x. m68k_process_arch_opt c arg)"

definition s390x_front :: "unit front" where
  "s390x_front = linux_front 64 None None (\<lambda>c arg x. s390x_process_arch_opt c arg)"

definition la_front :: "unit front" where
  "la_front = linux_front 64 None None (\<lambda>c arg x. la_process_arch_opt c arg)"

definition a64_front :: "int front" where
  "a64_front = linux_front 64 (Some a64_long_opts) (Some a64_extra_help) (storing a64_process_arch_opt)"

definition i386_front :: "nat \<Rightarrow> u64 front" where
  "i386_front bits = linux_front bits (Some i386_long_opts) (Some i386_extra_help) (storing i386_process_arch_opt)"

lemmas front_defs = linux_front_def arm_front_def m68k_front_def s390x_front_def la_front_def a64_front_def i386_front_def
  arm_long_opts_def a64_long_opts_def i386_long_opts_def

lemma fronts_proper:
  "proper_table arm_front" "proper_table m68k_front" "proper_table s390x_front" "proper_table la_front"
  "proper_table a64_front" "proper_table (i386_front bits)"
  by (simp_all add: proper_table_def front_defs EOF_def FIRST_ARCH_OPT_def)

text \<open>
  The options reach the variables that the register images are taken with: a run of the AArch64 program starts with a vector
  length of the SVE layout, if it was given one.
\<close>

lemma storing_a64: "storing a64_process_arch_opt c arg x = Inr x' \<Longrightarrow> 0 \<le> x' \<and> x' \<le> 16"
  by (auto simp: storing_def dest: a64_process_arch_opt_range split: option.splits sum.splits prod.splits)

lemma handle_option_a64:
  "handle_option a64_front c arg s = Inr (Some s') \<Longrightarrow> 0 \<le> arch_settings s \<and> arch_settings s \<le> 16 \<Longrightarrow>
   0 \<le> arch_settings s' \<and> arch_settings s' \<le> 16"
  by (auto simp: handle_option_def a64_front_def linux_front_def dest: storing_a64 split: if_splits option.splits)

lemma take_options_a64:
  "take_options a64_front evs s = Inr (stop, s') \<Longrightarrow> 0 \<le> arch_settings s \<and> arch_settings s \<le> 16 \<Longrightarrow>
   0 \<le> arch_settings s' \<and> arch_settings s' \<le> 16"
proof (induction a64_front evs s rule: take_options.induct)
  case (2 c a f es s)
  then show ?case using handle_option_a64 [of c a s] by (auto split: sum.splits option.splits)
qed simp

lemma main_result_a64:
  "main_result a64_front sys nt vars 0 evs operands = (out, Inr (start, test_sve)) \<Longrightarrow> 0 \<le> test_sve \<and> test_sve \<le> 16"
  by (auto simp: main_result_def default_settings_def dest!: take_options_a64 split: sum.splits bool.splits prod.splits)

end
