(* ===== verification/PPC_Start.thy ===== *)
theory PPC_Start
  imports PPC_Backend
begin

text \<open>
  How a PowerPC image is started: \<^verbatim>\<open>arch_init\<close> and \<^verbatim>\<open>do_image\<close> of \<^verbatim>\<open>src/risu_reginfo_ppc64.c\<close>. The DingusPPC emulator is not
  part of the repository; what is asked of it is the list of the calls, in their order.
\<close>

unbundle bit_operations_syntax

section \<open>Set-up of the emulator\<close>

definition DPPC_RISU_ROM_START :: u32 where "DPPC_RISU_ROM_START = 0xf0000000"
definition DPPC_RISU_RAM_START :: u32 where "DPPC_RISU_RAM_START = 0xb0000000"
definition DPPC_RISU_STACK :: u32 where "DPPC_RISU_STACK = 0xbfff79b0"
definition DPPC_RISU_RAM_SIZE :: u32 where "DPPC_RISU_RAM_SIZE = 0x20000000"

lemmas dppc_layout = DPPC_RISU_ROM_START_def DPPC_RISU_RAM_START_def DPPC_RISU_STACK_def DPPC_RISU_RAM_SIZE_def

datatype PPC_VER = MPC601 | MPC750

datatype dppc_call =
    New_MemCtrl
  | Ppc_Cpu_Init PPC_VER bool u64
  | Add_Ram_Region u32 u32
  | Add_Rom_Region u32 u32
  | Set_Data u32 arch_ptr u32

text \<open>The calls, and the state of the processor afterwards; on the other platforms there is nothing to do.\<close>

definition arch_init :: "ppc_env \<Rightarrow> ppc_opts \<Rightarrow> ppc_ctx \<Rightarrow> dppc_call list \<times> ppc_ctx" where
  "arch_init env opts uc =
     (if platform env = RISU_DPPC then
        (let bus_freq = 50000000; timebase_freq = bus_freq div 4; sz = of_nat (image_size env)
         in ([New_MemCtrl,
              Ppc_Cpu_Init (if cpu_opts opts AND cpu_opt_use_601 \<noteq> 0 then MPC601 else MPC750)
                (cpu_opts opts AND cpu_opt_include_601 \<noteq> 0) timebase_freq,
              Add_Ram_Region DPPC_RISU_RAM_START DPPC_RISU_RAM_SIZE,
              Add_Rom_Region DPPC_RISU_ROM_START sz,
              Set_Data DPPC_RISU_ROM_START (image_start_address env) sz],
             uc\<lparr>uc_pc := DPPC_RISU_ROM_START, uc_gpr := (uc_gpr uc)[1 := DPPC_RISU_STACK]\<rparr>))
      else ([], uc))"

section \<open>Starting the image\<close>

text \<open>The loop that fills the stack, from index \<open>i\<close> on, \<open>n\<close> times.\<close>

fun fill_stack :: "u32 \<Rightarrow> nat \<Rightarrow> nat \<Rightarrow> (u32 \<Rightarrow> byte) \<Rightarrow> u32 \<Rightarrow> byte" where
  "fill_stack base i 0 mem = mem"
| "fill_stack base i (Suc n) mem = fill_stack base (Suc i) n (mem(base + of_nat i := of_nat i))"

text \<open>
  The context in which the image starts to run. \<open>stack_bytes\<close> is the address of the local array, on the platforms that have
  one; with signals the image is called like a function, on whatever stack the compiler set up.
\<close>

definition do_image :: "ppc_env \<Rightarrow> u32 \<Rightarrow> ppc_ctx \<Rightarrow> fault + ppc_ctx" where
  "do_image env stack_bytes uc =
     (case platform env of
        RISU_DPPC \<Rightarrow>
          (case get_arch_memory env (DPPC_RISU_STACK + 0x3C) of
             None \<Rightarrow> Inl Out_Of_Bounds
           | Some p \<Rightarrow> Inr (uc\<lparr>uc_mem := fill_stack p 0 32768 (uc_mem uc)\<rparr>))
      | RISU_MACOS9 \<Rightarrow>
          Inr (uc\<lparr>uc_mem := fill_stack stack_bytes 0 32768 (uc_mem uc), uc_gpr := (uc_gpr uc)[1 := stack_bytes - 0x3C],
                 uc_ctr := image_start_address env, uc_pc := image_start_address env\<rparr>)
      | _ \<Rightarrow>
          Inr (uc\<lparr>uc_mem := fill_stack stack_bytes 0 32768 (uc_mem uc), uc_pc := image_start_address env\<rparr>))"

section \<open>What the image finds\<close>

lemma fill_stack_outside:
  "(\<And>k. k < n \<Longrightarrow> x \<noteq> base + of_nat (i + k)) \<Longrightarrow> fill_stack base i n mem x = mem x"
proof (induction n arbitrary: i mem)
  case (Suc n)
  have "x \<noteq> base + of_nat (Suc i + k)" if "k < n" for k using Suc.prems [of "Suc k"] that by simp
  then have "fill_stack base i (Suc n) mem x = (mem(base + of_nat i := of_nat i)) x" using Suc.IH [of "Suc i"] by simp
  also have "\<dots> = mem x" using Suc.prems [of 0] by simp
  finally show ?case .
qed simp

lemma of_nat_u32_eq: "i < 2 ^ 32 \<Longrightarrow> j < 2 ^ 32 \<Longrightarrow> (of_nat i :: u32) = of_nat j \<longleftrightarrow> i = j"
  by (simp add: word_of_nat_eq_iff take_bit_nat_eq_self)

lemma fill_stack_inside:
  "k < n \<Longrightarrow> i + n \<le> 2 ^ 32 \<Longrightarrow> fill_stack base i n mem (base + of_nat (i + k)) = of_nat (i + k)"
proof (induction n arbitrary: i k mem)
  case (Suc n)
  show ?case
  proof (cases k)
    case 0
    have "base + of_nat i \<noteq> base + of_nat (Suc i + j)" if "j < n" for j
      using of_nat_u32_eq [of i "Suc i + j"] Suc.prems that by (simp del: of_nat_Suc of_nat_add)
    then show ?thesis using 0 fill_stack_outside [of n "base + of_nat i" base "Suc i"] by simp
  next
    case (Suc j)
    then show ?thesis using Suc.IH [of j "Suc i"] Suc.prems by simp
  qed
qed simp

text \<open>
  On the platforms that pass a stack pointer to the image, the bytes 0, 1, 2, \<open>\<dots>\<close> begin at offset 0x3C from it, as the image
  would find them where it is called as a function on Mac OS X; elsewhere memory is as it was.
\<close>

lemma image_finds_stack:
  assumes "platform env = RISU_DPPC \<or> platform env = RISU_MACOS9" "length (uc_gpr uc) = 32"
    and "do_image env stack_bytes (snd (arch_init env opts uc)) = Inr uc'" "i < 32768"
  shows "uc_mem uc' (uc_gpr uc' ! 1 + 0x3C + of_nat i) = of_nat i"
proof -
  have fill: "fill_stack b 0 32768 mem (b + of_nat i) = of_nat i" for b mem
    using fill_stack_inside [of i 32768 0 b mem] assms(4) by simp
  from assms(1) show ?thesis
  proof
    assume "platform env = RISU_DPPC"
    with assms(2, 3) show ?thesis
      using fill [of "DPPC_RISU_STACK + 0x3C"] by (auto simp: do_image_def arch_init_def get_arch_memory_def Let_def simp del: fill_stack.simps split: if_splits)
  next
    assume "platform env = RISU_MACOS9"
    with assms(2, 3) show ?thesis using fill [of stack_bytes] by (auto simp: do_image_def arch_init_def simp del: fill_stack.simps)
  qed
qed

text \<open>The image starts at its first instruction, and the pattern lies inside of the RAM the emulator was given.\<close>

lemma image_starts_at_start:
  "do_image env stack_bytes (snd (arch_init env opts uc)) = Inr uc' \<Longrightarrow> uc_pc uc' = get_arch_start_address env"
  by (auto simp: do_image_def arch_init_def get_arch_start_address_def dppc_layout Let_def simp del: fill_stack.simps
      split: platform.splits option.splits if_splits)

lemma stack_in_ram:
  assumes "i < 32768"
  shows "DPPC_RISU_RAM_START \<le> DPPC_RISU_STACK + 0x3C + of_nat i \<and>
    DPPC_RISU_STACK + 0x3C + of_nat i < DPPC_RISU_RAM_START + DPPC_RISU_RAM_SIZE"
proof -
  have "unat (of_nat i :: u32) = i" using assms by (simp add: unsigned_of_nat take_bit_nat_eq_self)
  then have "unat (0xbfff79ec + of_nat i :: u32) = 0xbfff79ec + i" using assms by (subst unat_add_lem [THEN iffD1]) auto
  then show ?thesis using assms by (simp add: dppc_layout word_le_nat_alt word_less_nat_alt)
qed

end
