(* ===== verification/Entry.thy ===== *)
theory Entry
  imports Session
begin

text \<open>
  How a signal finds the handler: \<^verbatim>\<open>set_sigill_handler\<close> of \<^verbatim>\<open>src/risu.c\<close>, and the entry points of \<^verbatim>\<open>src/risu_ppc64.c\<close> for the
  platforms without signals (\<^verbatim>\<open>NO_SIGNAL\<close>), the DingusPPC emulator and Mac OS 9. Whether \<^verbatim>\<open>sigaction\<close> succeeds is a
  parameter.
\<close>

record 'h signals =
  sig_handler :: "'h option"
  sigactions :: "signal \<Rightarrow> 'h option"

definition set_sigill_handler :: "bool \<Rightarrow> (signal \<Rightarrow> bool) \<Rightarrow> 'h \<Rightarrow> 'h signals \<Rightarrow> fault + 'h signals" where
  "set_sigill_handler no_sig sigaction_ok fn S =
     (if no_sig then Inr (S\<lparr>sig_handler := Some fn\<rparr>)
      else if \<not> sigaction_ok SIGILL then Inl Exit_Failure
      else
        (let S = S\<lparr>sigactions := (sigactions S)(SIGILL := Some fn)\<rparr>
         in if \<not> sigaction_ok SIGBUS then Inl Exit_Failure
            else Inr (S\<lparr>sigactions := (sigactions S)(SIGBUS := Some fn)\<rparr>)))"

text \<open>Calling a function pointer; without one the call leaves the program.\<close>

definition call_handler :: "('uc, 'ri) handler option \<Rightarrow> ('uc, 'ri) handler" where
  "call_handler h sig a uc st = (case h of None \<Rightarrow> Inl Out_Of_Bounds | Some fn \<Rightarrow> fn sig a uc st)"

text \<open>The emulator tells a program exception from all others.\<close>

definition ppc_exception_handler_risu ::
  "('uc, 'ri) handler signals \<Rightarrow> bool \<Rightarrow> arch_ptr \<Rightarrow> 'uc \<Rightarrow> 'ri risu \<Rightarrow> fault + 'uc handler_exit \<times> 'ri risu" where
  "ppc_exception_handler_risu S is_program ppc_pc uc st =
     (if is_program then call_handler (sig_handler S) SIGILL ppc_pc uc st
      else call_handler (sig_handler S) SIGBUS ppc_pc uc st)"

text \<open>
  Mac OS 9: breakpoints and single steps are left to the debugger, which is the result \<open>None\<close> (-1 in C). What was printed
  goes along.
\<close>

datatype exception_kind = kTrapException | kTraceException | kIllegalInstructionException | Other_Exception int

definition classic_exception_handler ::
  "('uc, 'ri) handler signals \<Rightarrow> exception_kind \<Rightarrow> arch_ptr \<Rightarrow> 'uc \<Rightarrow> 'ri risu \<Rightarrow>
     string \<times> (fault + 'uc handler_exit \<times> 'ri risu) option" where
  "classic_exception_handler S kind machine_pc uc st =
     (case kind of
        kTrapException \<Rightarrow> ([], None)
      | kTraceException \<Rightarrow> ([], None)
      | kIllegalInstructionException \<Rightarrow> ([], Some (call_handler (sig_handler S) SIGILL machine_pc uc st))
      | Other_Exception k \<Rightarrow>
          (''exception '' @ decs k @ nl, Some (call_handler (sig_handler S) SIGBUS machine_pc uc st)))"

text \<open>What happens when the image raises a signal where there are signals.\<close>

definition raise_signal :: "('uc, 'ri) handler signals \<Rightarrow> ('uc, 'ri) handler" where
  "raise_signal S sig = call_handler (sigactions S sig) sig"

section \<open>The handler that was installed is the one that runs\<close>

lemma installed:
  assumes "set_sigill_handler no_sig sigaction_ok fn S = Inr S'"
  shows "\<not> no_sig \<Longrightarrow> raise_signal S' = fn" and "no_sig \<Longrightarrow> sig_handler S' = Some fn"
proof -
  assume "\<not> no_sig"
  with assms have S': "S' = S\<lparr>sigactions := (sigactions S)(SIGILL := Some fn, SIGBUS := Some fn)\<rparr>"
    by (auto simp: set_sigill_handler_def Let_def split: if_splits)
  have "raise_signal S' sig a uc st = fn sig a uc st" for sig a uc st
    by (cases sig) (simp_all add: raise_signal_def call_handler_def S')
  then show "raise_signal S' = fn" by blast
next
  assume "no_sig"
  with assms show "sig_handler S' = Some fn" by (auto simp: set_sigill_handler_def)
qed

text \<open>A run between signals, as the session has it, is a run of the handler that was installed.\<close>

lemma run_after_installation:
  "set_sigill_handler False sigaction_ok H S = Inr S' \<Longrightarrow> runs (raise_signal S') cpu = runs H cpu"
  by (simp add: installed)

text \<open>
  On the platforms without signals an illegal instruction reaches the handler as \<^verbatim>\<open>SIGILL\<close> and everything else as \<^verbatim>\<open>SIGBUS\<close>, with
  the program counter as the address, except for what belongs to the debugger of Mac OS 9.
\<close>

lemma exceptions_reach_handler:
  assumes "set_sigill_handler True sigaction_ok fn S = Inr S'"
  shows "ppc_exception_handler_risu S' is_program p uc st = fn (if is_program then SIGILL else SIGBUS) p uc st"
    and "kind \<notin> {kTrapException, kTraceException} \<Longrightarrow>
      snd (classic_exception_handler S' kind p uc st) = Some (fn (if kind = kIllegalInstructionException then SIGILL else SIGBUS) p uc st)"
  by (simp_all add: ppc_exception_handler_risu_def classic_exception_handler_def call_handler_def installed(2) [OF assms] split: exception_kind.split)

end
