(* ===== verification/Program.thy ===== *)
theory Program
  imports Console PPC_Start Entry
begin

text \<open>
  The PowerPC program from its command line to its exit status: \<^verbatim>\<open>risu_main\<close> of \<^verbatim>\<open>src/risu.c\<close> around the session, with the trace
  file as the file system keeps it. A build with zlib writes a compressed file; the library is a parameter. The stream of such a
  build is the uncompressed one, and its calls are \<^verbatim>\<open>gzread\<close> and \<^verbatim>\<open>gzwrite\<close>, which return a count or -1 like \<^verbatim>\<open>read\<close> and \<^verbatim>\<open>write\<close>.
\<close>

section \<open>The end of a run\<close>

text \<open>
  What zlib makes of the bytes that were written to a stream: the file after \<^verbatim>\<open>gzclose\<close>, the file of a stream that was never
  closed, and the bytes that are read from a file.
\<close>

record zlib =
  gz_closed :: "byte list \<Rightarrow> byte list"
  gz_unclosed :: "byte list \<Rightarrow> byte list"
  gz_content :: "byte list \<Rightarrow> byte list"

datatype fd_call = Gzclose | Close

definition close_comm :: "bool \<Rightarrow> bool \<Rightarrow> channel \<Rightarrow> fd_call list" where
  "close_comm zlib tr chan = (if zlib \<and> tr \<and> chan \<noteq> Standard_Output then [Gzclose] else []) @ [Close]"

text \<open>
  The blocks that are freed, and the variables afterwards: \<^verbatim>\<open>image_size\<close> is not reset, but the next image sets it before it is read.
\<close>

definition unload_image :: "ppc_env \<Rightarrow> arch_ptr list \<times> ppc_env" where
  "unload_image env =
     (if platform env = RISU_MACOS9 then [image_start_address env] else [], env\<lparr>image_start_address := 0\<rparr>)"

lemma next_image_unaffected:
  "(snd (unload_image env))\<lparr>image_start_address := addr, image_size := len\<rparr> = env\<lparr>image_start_address := addr, image_size := len\<rparr>"
  by (simp add: unload_image_def)

section \<open>A run\<close>

text \<open>
  The machine: the platform, the processor, the context in which \<^verbatim>\<open>do_image\<close> is called (the image is in its memory), the local
  array of \<^verbatim>\<open>do_image\<close>, and whether \<^verbatim>\<open>sigaction\<close> succeeds.
\<close>

record ppc_machine =
  base_env :: ppc_env
  endian_macro :: bool
  cpu_of :: "ppc_ctx \<Rightarrow> ppc_ctx Session.event"
  boot_ctx :: ppc_ctx
  stack_array :: u32
  sigaction_ok :: "signal \<Rightarrow> bool"

definition loaded_env :: "ppc_machine \<Rightarrow> arch_ptr \<Rightarrow> nat \<Rightarrow> ppc_env" where
  "loaded_env M addr len = (base_env M)\<lparr>image_start_address := addr, image_size := len\<rparr>"

definition loaded_arch :: "ppc_machine \<Rightarrow> arch_ptr \<Rightarrow> nat \<Rightarrow> ppc_opts \<Rightarrow> (ppc_ctx, reginfo) arch" where
  "loaded_arch M addr len opts = ppc_arch (loaded_env M addr len) opts (endian_macro M)"

definition image_entry :: "ppc_machine \<Rightarrow> arch_ptr \<Rightarrow> nat \<Rightarrow> ppc_opts \<Rightarrow> fault + ppc_ctx" where
  "image_entry M addr len opts =
     do_image (loaded_env M addr len) (stack_array M) (snd (arch_init (loaded_env M addr len) opts (boot_ctx M)))"

definition is_trace :: "channel \<Rightarrow> bool" where
  "is_trace chan = (case chan of Listening p \<Rightarrow> False | Connected h p \<Rightarrow> False | _ \<Rightarrow> True)"

text \<open>The variables of a process that has just been started, which are zero, with the stream that was opened.\<close>

definition zero_reginfo :: reginfo where
  "zero_reginfo =
     \<lparr>second_prev_insn = 0, prev_insn = 0, faulting_insn = 0, next_insn = 0, nip = 0, gregs = replicate 41 0, fpregs = replicate 32 0,
      fpscr = 0\<rparr>"

definition initial_risu :: "bool \<Rightarrow> byte list \<Rightarrow> sysret list \<Rightarrow> reginfo risu" where
  "initial_risu tr stream answers =
     reset_globals tr
       \<lparr>ri_master = zero_reginfo, ri_apprentice = zero_reginfo, other_memblock = replicate MEMBLOCKLEN 0,
        header = \<lparr>magic = 0, size = 0, risu_op = 0, pc = 0\<rparr>, memblock = None, arch_memblock = 0,
        comm = \<lparr>rx = stream, tx = [], errno = 0, plan = answers\<rparr>, trace = False,
        signal_count = 0, illegal_instructions = 0, signal_pc = 0, is_setup = False\<rparr>"

definition stream_of :: "'o front \<Rightarrow> zlib \<Rightarrow> (string \<Rightarrow> byte list) \<Rightarrow> channel \<Rightarrow> byte list" where
  "stream_of F Z files chan =
     (case chan of
        Trace_File name False \<Rightarrow> if with_zlib F then gz_content Z (files name) else files name
      | _ \<Rightarrow> [])"

definition files_after :: "'o front \<Rightarrow> zlib \<Rightarrow> channel \<Rightarrow> fd_call list \<Rightarrow> byte list \<Rightarrow> (string \<Rightarrow> byte list) \<Rightarrow> string \<Rightarrow> byte list" where
  "files_after F Z chan calls bs files =
     (case chan of
        Trace_File name True \<Rightarrow>
          files(name := if \<not> with_zlib F then bs else if Gzclose \<in> set calls then gz_closed Z bs else gz_unclosed Z bs)
      | _ \<Rightarrow> files)"

text \<open>The handler that answers the exceptions of the image.\<close>

definition handler_in :: "'o front \<Rightarrow> ('uc, 'ri) handler signals \<Rightarrow> ('uc, 'ri) handler" where
  "handler_in F S = (if no_signal F then call_handler (sig_handler S) else raise_signal S)"

definition no_handlers :: "'h signals" where
  "no_handlers = \<lparr>sig_handler = None, sigactions = (\<lambda>_. None)\<rparr>"

definition starting_image :: "('uc, 'ri) arch \<Rightarrow> string" where
  "starting_image A = ''starting image at 0x'' @ hexs (start_address A) @ nl"

text \<open>
  A run that gets as far as the image and ends: the text on \<^verbatim>\<open>stderr\<close>, the exit status and the files. The result of
  \<^verbatim>\<open>master\<close> and \<^verbatim>\<open>apprentice\<close> is 0 the first time around, and the image returns, or what \<^verbatim>\<open>siglongjmp\<close> passed.
\<close>

inductive ppc_run ::
  "ppc_machine \<Rightarrow> ppc_opts front \<Rightarrow> zlib \<Rightarrow> next_option \<Rightarrow> os_answers \<Rightarrow> sysret list \<Rightarrow> getopt_state \<Rightarrow> ppc_opts \<Rightarrow>
     (string \<Rightarrow> byte list) \<Rightarrow> string \<times> int \<times> (string \<Rightarrow> byte list) \<Rightarrow> bool"
  for M F Z next_opt sys answers g x files where
  master_stopped:
    "risu_main F next_opt sys True g x = Some (out, Inr (Starts True chan addr len, g', opts)) \<Longrightarrow>
     image_entry M addr len opts = Inr uc \<Longrightarrow>
     set_sigill_handler (no_signal F) (sigaction_ok M) (master_sigill (loaded_arch M addr len opts)) no_handlers = Inr S \<Longrightarrow>
     runs (handler_in F S) (cpu_of M) (Running uc (initial_risu (is_trace chan) (stream_of F Z files chan) answers)) (Stopped res st) \<Longrightarrow>
     master (loaded_arch M addr len opts) res st = (report, closed, status) \<Longrightarrow>
     calls = (if closed then close_comm (with_zlib F) (is_trace chan) chan else []) \<Longrightarrow>
     ppc_run M F Z next_opt sys answers g x files
       (out @ starting_image (loaded_arch M addr len opts) @ report, status, files_after F Z chan calls (tx (comm st)) files)"
| master_returned:
    "risu_main F next_opt sys True g x = Some (out, Inr (Starts True chan addr len, g', opts)) \<Longrightarrow>
     image_entry M addr len opts = Inr uc \<Longrightarrow>
     set_sigill_handler (no_signal F) (sigaction_ok M) (master_sigill (loaded_arch M addr len opts)) no_handlers = Inr S \<Longrightarrow>
     runs (handler_in F S) (cpu_of M) (Running uc (initial_risu (is_trace chan) (stream_of F Z files chan) answers)) (Fell_Out st) \<Longrightarrow>
     master (loaded_arch M addr len opts) RES_OK st = (report, closed, status) \<Longrightarrow>
     calls = (if closed then close_comm (with_zlib F) (is_trace chan) chan else []) \<Longrightarrow>
     ppc_run M F Z next_opt sys answers g x files (out @ report, status, files_after F Z chan calls (tx (comm st)) files)"
| apprentice_stopped:
    "risu_main F next_opt sys True g x = Some (out, Inr (Starts False chan addr len, g', opts)) \<Longrightarrow>
     image_entry M addr len opts = Inr uc \<Longrightarrow>
     set_sigill_handler (no_signal F) (sigaction_ok M) (apprentice_sigill (loaded_arch M addr len opts)) no_handlers = Inr S \<Longrightarrow>
     runs (handler_in F S) (cpu_of M) (Running uc (initial_risu (is_trace chan) (stream_of F Z files chan) answers)) (Stopped res st) \<Longrightarrow>
     apprentice (loaded_arch M addr len opts) res st = Inr (report, status) \<Longrightarrow>
     ppc_run M F Z next_opt sys answers g x files (out @ starting_image (loaded_arch M addr len opts) @ report, status, files)"
| apprentice_returned:
    "risu_main F next_opt sys True g x = Some (out, Inr (Starts False chan addr len, g', opts)) \<Longrightarrow>
     image_entry M addr len opts = Inr uc \<Longrightarrow>
     set_sigill_handler (no_signal F) (sigaction_ok M) (apprentice_sigill (loaded_arch M addr len opts)) no_handlers = Inr S \<Longrightarrow>
     runs (handler_in F S) (cpu_of M) (Running uc (initial_risu (is_trace chan) (stream_of F Z files chan) answers)) (Fell_Out st) \<Longrightarrow>
     apprentice (loaded_arch M addr len opts) RES_OK st = Inr (report, status) \<Longrightarrow>
     ppc_run M F Z next_opt sys answers g x files (out @ report, status, files)"

section \<open>Lemmas\<close>

lemma handler_in_installed: "set_sigill_handler (no_signal F) ok fn no_handlers = Inr S \<Longrightarrow> handler_in F S = fn"
  using installed [of "no_signal F" ok fn no_handlers S]
  by (cases "no_signal F") (auto simp: handler_in_def call_handler_def fun_eq_iff)

lemma handlers_install: "(\<And>sig. ok sig) \<Longrightarrow> \<exists>S. set_sigill_handler no_sig ok fn S0 = Inr S"
  by (simp add: set_sigill_handler_def Let_def)

lemma initial_risu_simps [simp]:
  "trace (initial_risu tr bs p) = tr" "rx (comm (initial_risu tr bs p)) = bs" "tx (comm (initial_risu tr bs p)) = []"
  "plan (comm (initial_risu tr bs p)) = p" "is_setup (initial_risu tr bs p) = False" "memblock (initial_risu tr bs p) = None"
  "arch_memblock (initial_risu tr bs p) = 0" "ri_master (initial_risu tr bs p) = zero_reginfo"
  "length (other_memblock (initial_risu tr bs p)) = MEMBLOCKLEN" "signal_count (initial_risu tr bs p) = 0"
  "illegal_instructions (initial_risu tr bs p) = 0"
  by (simp_all add: initial_risu_def reset_globals_def)

lemma wf_zero_reginfo: "wf_reginfo zero_reginfo"
  by (simp add: zero_reginfo_def wf_reginfo_def risu_reg_index)

lemma image_entry_wf: "image_entry M addr len opts = Inr uc \<Longrightarrow> wf_ctx (boot_ctx M) \<Longrightarrow> wf_ctx uc"
  by (auto simp: image_entry_def do_image_def arch_init_def wf_ctx_def Let_def simp del: fill_stack.simps split: platform.splits option.splits if_splits)

text \<open>Success is the end of the test, and then the stream is closed.\<close>

lemma master_success: "master A res st = (report, closed, EXIT_SUCCESS) \<Longrightarrow> res = RES_END \<and> closed \<and> report = ''done'' @ print_stats st"
  by (cases res) (auto simp: master_def EXIT_SUCCESS_def EXIT_FAILURE_def)

lemma trace_file_read_back:
  assumes "with_zlib F \<Longrightarrow> gz_content Z (gz_closed Z bs) = bs"
  shows "stream_of F Z (files_after F Z (Trace_File name True) (close_comm (with_zlib F) True (Trace_File name True)) bs files) (Trace_File name False) = bs"
  using assms by (simp add: stream_of_def files_after_def close_comm_def)

text \<open>What the master of a successful run left behind.\<close>

lemma successful_master:
  assumes "ppc_run M F Z next_opt sys answers g x files (text, EXIT_SUCCESS, files')"
    and "risu_main F next_opt sys True g x = Some (out, Inr (Starts True (Trace_File name True) addr len, g', opts))"
  obtains uc stF where "image_entry M addr len opts = Inr uc"
    "runs (master_sigill (loaded_arch M addr len opts)) (cpu_of M) (Running uc (initial_risu True [] answers)) (Stopped RES_END stF)"
    "text = out @ starting_image (loaded_arch M addr len opts) @ ''done'' @ print_stats stF"
    "files' = files_after F Z (Trace_File name True) (close_comm (with_zlib F) True (Trace_File name True)) (tx (comm stF)) files"
    "\<exists>S. set_sigill_handler (no_signal F) (sigaction_ok M) (master_sigill (loaded_arch M addr len opts)) no_handlers = Inr S"
  using assms(1)
proof (cases rule: ppc_run.cases)
  case (master_stopped out2 chan addr2 len2 g2 opts2 uc S res st report closed calls)
  with assms(2) have e: "out2 = out" "chan = Trace_File name True" "addr2 = addr" "len2 = len" "opts2 = opts" by simp_all
  note m = master_stopped [unfolded e]
  have r: "res = RES_END" "closed" "report = ''done'' @ print_stats st" using master_success [of _ res st report closed] m by auto
  show thesis
    using m r handler_in_installed [OF m(5)] by (intro that [of uc st]) (simp_all add: is_trace_def stream_of_def)
qed (use assms(2) in \<open>auto simp: master_def EXIT_SUCCESS_def EXIT_FAILURE_def\<close>)

text \<open>
  A compressed trace is complete only if the session came to its end, a bus error or an unexpected result: after an i/o error,
  and when the image returns, the stream is not closed.
\<close>

lemma stream_left_open:
  "master A RES_BAD_IO st = (report, closed, status) \<or> master A RES_OK st = (report, closed, status) \<Longrightarrow> with_zlib F \<Longrightarrow>
   files_after F Z (Trace_File name True) (if closed then close_comm True True (Trace_File name True) else []) bs files name = gz_unclosed Z bs"
  by (auto simp: master_def files_after_def)

text \<open>The apprentice's side, given what the session shows.\<close>

lemma successful_apprentice:
  assumes "risu_main F next_opt sys True g x = Some (out, Inr (Starts False (Trace_File name False) addr len, g', opts))"
    and "image_entry M addr len opts = Inr uc"
    and "set_sigill_handler (no_signal F) (sigaction_ok M) H no_handlers = Inr S"
    and "stream_of F Z files (Trace_File name False) = bs"
    and "runs (apprentice_sigill (loaded_arch M addr len opts)) (cpu_of M) (Running uc (initial_risu True bs answers)) (Stopped RES_END st)"
  shows "ppc_run M F Z next_opt sys answers g x files
    (out @ starting_image (loaded_arch M addr len opts) @ ''done'' @ print_stats st, EXIT_SUCCESS, files)"
proof -
  obtain S' where S': "set_sigill_handler (no_signal F) (sigaction_ok M) (apprentice_sigill (loaded_arch M addr len opts)) no_handlers = Inr S'"
    using assms(3) by (auto simp: set_sigill_handler_def Let_def split: if_splits)
  show ?thesis
    by (rule apprentice_stopped [OF assms(1,2) S', where res = RES_END])
      (use assms(4,5) handler_in_installed [OF S'] in \<open>simp_all add: is_trace_def apprentice_def\<close>)
qed

text \<open>The apprentice's run on what the master's run has written.\<close>

lemma session_replays:
  assumes "\<And>u sig a u'. wf_ctx u \<Longrightarrow> cpu_of M u = Signal sig a u' \<Longrightarrow> wf_ctx u'" and "wf_ctx (boot_ctx M)"
    and "endian_macro M \<noteq> get_arch_big_endian (base_env M)" and uc: "image_entry M addr len opts = Inr uc"
    and mem: "\<And>u st sig a u1 r.
      runs (master_sigill (loaded_arch M addr len opts)) (cpu_of M) (Running uc (initial_risu True [] answers)) (Running u st) \<Longrightarrow>
      cpu_of M u = Signal sig a u1 \<Longrightarrow> reginfo_init (loaded_env M addr len) u1 a = Inr r \<Longrightarrow> get_risuop r = OP_COMPAREMEM \<Longrightarrow>
      memblock st \<noteq> None"
    and run: "runs (master_sigill (loaded_arch M addr len opts)) (cpu_of M) (Running uc (initial_risu True [] answers)) (Stopped RES_END stF)"
  shows "\<exists>n. \<forall>answers2. roomy n answers2 \<longrightarrow>
    (\<exists>stE. runs (apprentice_sigill (loaded_arch M addr len opts)) (cpu_of M) (Running uc (initial_risu True (tx (comm stF)) answers2)) (Stopped RES_END stE) \<and>
       print_stats stE = print_stats stF)"
proof -
  let ?A = "loaded_arch M addr len opts" and ?e = "loaded_env M addr len"
  have big: "get_arch_big_endian ?e = get_arch_big_endian (base_env M)" by (simp add: loaded_env_def get_arch_big_endian_def)
  have "ppc.memory_set_first ?e opts (endian_macro M) (cpu_of M) (Running uc (initial_risu True [] answers))"
    unfolding ppc.memory_set_first_def ppc_arch_simps using mem unfolding loaded_arch_def by blast
  then have "\<exists>rec n. tx (comm stF) = rec \<and> ppc.replays ?e opts (endian_macro M) (cpu_of M) uc (initial_risu True [] answers) stF rec n"
    using ppc.record_replay [of "cpu_of M" ?e opts "endian_macro M" uc "initial_risu True [] answers" stF]
      assms(1,3) run image_entry_wf [OF uc assms(2)] by (auto simp: ppc_swaps big loaded_arch_def)
  then obtain n where n: "ppc.replays ?e opts (endian_macro M) (cpu_of M) uc (initial_risu True [] answers) stF (tx (comm stF)) n"
    by blast
  have "\<exists>stE. runs (apprentice_sigill ?A) (cpu_of M) (Running uc (initial_risu True (tx (comm stF)) answers2)) (Stopped RES_END stE) \<and>
      print_stats stE = print_stats stF" if "roomy n answers2" for answers2
  proof -
    have "ppc.in_step (initial_risu True [] answers) (initial_risu True (tx (comm stF)) answers2)"
      by (simp add: ppc.in_step_def wf_zero_reginfo)
    with n that obtain stE where
      "runs (apprentice_sigill ?A) (cpu_of M) (Running uc (initial_risu True (tx (comm stF)) answers2)) (Stopped RES_END stE)"
      "same_progress (initial_risu True [] answers) stF (initial_risu True (tx (comm stF)) answers2) stE"
      unfolding ppc.replays_def loaded_arch_def by fastforce
    moreover from this(2) have "print_stats stE = print_stats stF" by (simp add: same_progress_def print_stats_def)
    ultimately show ?thesis by blast
  qed
  then show ?thesis by blast
qed

section \<open>Recording and replaying\<close>

text \<open>
  C3: what was recorded replays, from command line to exit status: after a run as a master with a trace file that ends with
  status 0, a run as an apprentice with the same file, image and options on the same kind of machine ends with status 0 as
  well, and both report the same numbers of checkpoints and illegal instructions. This holds with compressed files too,
  because the stream is closed before the program ends.
\<close>

theorem recorded_run_replays:
  assumes "\<And>u sig a u'. wf_ctx u \<Longrightarrow> cpu_of M u = Signal sig a u' \<Longrightarrow> wf_ctx u'" and "wf_ctx (boot_ctx M)"
    and "endian_macro M \<noteq> get_arch_big_endian (base_env M)"
    and "\<And>bs. with_zlib F \<Longrightarrow> gz_content Z (gz_closed Z bs) = bs"
    and "\<And>uc u st sig a u1 r. image_entry M addr len opts = Inr uc \<Longrightarrow>
      runs (master_sigill (loaded_arch M addr len opts)) (cpu_of M) (Running uc (initial_risu True [] answers)) (Running u st) \<Longrightarrow>
      cpu_of M u = Signal sig a u1 \<Longrightarrow> reginfo_init (loaded_env M addr len) u1 a = Inr r \<Longrightarrow> get_risuop r = OP_COMPAREMEM \<Longrightarrow>
      memblock st \<noteq> None"
    and "risu_main F next_opt sys True g x = Some (out, Inr (Starts True (Trace_File name True) addr len, g1, opts))"
    and "risu_main F next_opt sys2 True g2 x2 = Some (out2, Inr (Starts False (Trace_File name False) addr len, g3, opts))"
    and "ppc_run M F Z next_opt sys answers g x files (text, EXIT_SUCCESS, files')"
  shows "\<exists>report n. text = out @ report \<and>
    (\<forall>answers2. roomy n answers2 \<longrightarrow> ppc_run M F Z next_opt sys2 answers2 g2 x2 files' (out2 @ report, EXIT_SUCCESS, files'))"
proof -
  let ?A = "loaded_arch M addr len opts" and ?T = "Trace_File name"
  from successful_master [OF assms(8,6)] obtain uc stF where
    uc: "image_entry M addr len opts = Inr uc" and
    run: "runs (master_sigill ?A) (cpu_of M) (Running uc (initial_risu True [] answers)) (Stopped RES_END stF)" and
    said: "text = out @ starting_image ?A @ ''done'' @ print_stats stF" and
    kept: "files' = files_after F Z (?T True) (close_comm (with_zlib F) True (?T True)) (tx (comm stF)) files" and
    inst: "\<exists>S. set_sigill_handler (no_signal F) (sigaction_ok M) (master_sigill ?A) no_handlers = Inr S"
    by blast
  have "\<exists>n. \<forall>answers2. roomy n answers2 \<longrightarrow>
      (\<exists>stE. runs (apprentice_sigill ?A) (cpu_of M) (Running uc (initial_risu True (tx (comm stF)) answers2)) (Stopped RES_END stE) \<and>
         print_stats stE = print_stats stF)"
    by (rule session_replays [OF _ assms(2,3) uc _ run]) (use assms(1) assms(5) [OF uc] in blast)+
  then obtain n where n: "\<And>answers2. roomy n answers2 \<Longrightarrow>
      \<exists>stE. runs (apprentice_sigill ?A) (cpu_of M) (Running uc (initial_risu True (tx (comm stF)) answers2)) (Stopped RES_END stE) \<and>
        print_stats stE = print_stats stF" by blast
  have reread: "stream_of F Z files' (?T False) = tx (comm stF)"
    unfolding kept by (rule trace_file_read_back) (use assms(4) in blast)
  have "ppc_run M F Z next_opt sys2 answers2 g2 x2 files' (out2 @ starting_image ?A @ ''done'' @ print_stats stF, EXIT_SUCCESS, files')"
    if "roomy n answers2" for answers2
    using successful_apprentice [OF assms(7) uc _ reread] inst n [OF that] by metis
  then show ?thesis using said by blast
qed

text \<open>A machine with the image that ends at once, and command lines for both sides of a compressed trace.\<close>

definition sample_machine :: ppc_machine where
  "sample_machine =
     \<lparr>base_env = sample_env, endian_macro = False, cpu_of = (\<lambda>_. Signal SIGILL 0 end_ctx), boot_ctx = end_ctx, stack_array = 0x8000,
      sigaction_ok = (\<lambda>_. True)\<rparr>"

definition sample_front :: "ppc_opts front" where
  "sample_front = (ppc_front False 32)\<lparr>with_zlib := True\<rparr>"

definition sample_zlib :: zlib where
  "sample_zlib = \<lparr>gz_closed = (\<lambda>bs. 0x1f # 0x8b # bs), gz_unclosed = (\<lambda>_. []), gz_content = drop 2\<rparr>"

definition sample_os :: os_answers where
  "sample_os = sample_sys\<lparr>image_files := (\<lambda>_. Image 64 0x1000)\<rparr>"

lemma sample_front_simps:
  "proper_table sample_front" "all_options sample_front = all_options (ppc_front False 32)" "with_zlib sample_front"
  using ppc_proper [of False 32] by (simp_all add: sample_front_def proper_table_def all_options_def)

lemma sample_parses:
  "parse ''h:p:t:'' (all_options sample_front) [''--master'', ''-tout'', ''image''] =
     ([Event 0 None (Some (''ismaster'', 1)), Event (code (CHR ''t'')) (Some ''out'') None], [''image''])"
  "parse ''h:p:t:'' (all_options sample_front) [''-tout'', ''image''] = ([Event (code (CHR ''t'')) (Some ''out'') None], [''image''])"
  by (simp_all add: sample_front_simps parse.simps is_nonopt_def ch_def long_event_def choose_long_def ppc_options default_opts_list_def default_longopts_def
      extra_opts_def abbreviated_def before_equals_def from_equals_def no_argument_def required_argument_def chosen_event_def)

lemmas sample_main_defs = main_result_def handle_option_def default_settings_def sample_front_def ppc_front_def code_def FIRST_ARCH_OPT_def applied_def
  after_options_def open_trace_def start_session_def load_image_def first_operand_def sample_os_def sample_sys_def

lemma risu_main_starts:
  assumes "proper_table F" "fresh (prog # av) g" "tidy (all_options F) (prog # av)" "parse ''h:p:t:'' (all_options F) av = (evs, operands)"
    and "\<exists>out. main_result F sys null_terminated (flag_vars g) x evs operands = (out, Inr (start, x'))"
  shows "\<exists>out g'. risu_main F (getopt_long False) sys null_terminated g x = Some (out, Inr (start, g', x'))"
  using risu_main_parses [OF assms(1-4), of sys null_terminated x] assms(5) by auto

lemma sample_commands:
  "\<exists>out g'. risu_main sample_front (getopt_long False) sample_os True (example_state [''risu'', ''--master'', ''-tout'', ''image'']) x =
     Some (out, Inr (Starts True (Trace_File ''out'' True) 0x1000 64, g', x))"
  "\<exists>out g'. risu_main sample_front (getopt_long False) sample_os True (example_state [''risu'', ''-tout'', ''image'']) x =
     Some (out, Inr (Starts False (Trace_File ''out'' False) 0x1000 64, g', x))"
proof -
  have fr: "fresh av (example_state av)" for av by (simp add: fresh_def example_state_def)
  have td: "tidy (all_options sample_front) [''risu'', ''--master'', ''-tout'', ''image'']" "tidy (all_options sample_front) [''risu'', ''-tout'', ''image'']"
    by (simp_all add: sample_front_simps ppc_tidy)
  have "\<exists>out. main_result sample_front sample_os True vars x [Event 0 None (Some (''ismaster'', 1)), Event (code (CHR ''t'')) (Some ''out'') None] [''image''] =
      (out, Inr (Starts True (Trace_File ''out'' True) 0x1000 64, x))" for vars
    by (simp add: sample_main_defs)
  with risu_main_starts [OF sample_front_simps(1) fr td(1) sample_parses(1)]
  show "\<exists>out g'. risu_main sample_front (getopt_long False) sample_os True (example_state [''risu'', ''--master'', ''-tout'', ''image'']) x =
     Some (out, Inr (Starts True (Trace_File ''out'' True) 0x1000 64, g', x))"
    by blast
  have "\<exists>out. main_result sample_front sample_os True vars x [Event (code (CHR ''t'')) (Some ''out'') None] [''image''] =
      (out, Inr (Starts False (Trace_File ''out'' False) 0x1000 64, x))" for vars
    by (simp add: sample_main_defs)
  with risu_main_starts [OF sample_front_simps(1) fr td(2) sample_parses(2)]
  show "\<exists>out g'. risu_main sample_front (getopt_long False) sample_os True (example_state [''risu'', ''-tout'', ''image'']) x =
     Some (out, Inr (Starts False (Trace_File ''out'' False) 0x1000 64, g', x))"
    by blast
qed

lemma sample_machine_simps:
  "cpu_of sample_machine u = Signal SIGILL 0 end_ctx" "boot_ctx sample_machine = end_ctx" "base_env sample_machine = sample_env"
  "loaded_env sample_machine 0x1000 64 = sample_env" "loaded_arch sample_machine 0x1000 64 opts = ppc_arch sample_env opts False"
  "\<exists>uc. image_entry sample_machine 0x1000 64 opts = Inr uc"
  by (simp_all add: sample_machine_def loaded_arch_def loaded_env_def image_entry_def sample_env_def do_image_def del: fill_stack.simps)

lemma sample_recording:
  "\<exists>text files'. ppc_run sample_machine sample_front sample_zlib (getopt_long False) sample_os (replicate 2 (Xfer MEMBLOCKLEN))
     (example_state [''risu'', ''--master'', ''-tout'', ''image'']) x files (text, EXIT_SUCCESS, files')"
proof -
  let ?A = "ppc_arch sample_env x False"
  obtain out g' where c: "risu_main sample_front (getopt_long False) sample_os True (example_state [''risu'', ''--master'', ''-tout'', ''image'']) x =
     Some (out, Inr (Starts True (Trace_File ''out'' True) 0x1000 64, g', x))" using sample_commands(1) by blast
  obtain uc where uc: "image_entry sample_machine 0x1000 64 x = Inr uc" using sample_machine_simps(6) by blast
  obtain stF where run: "runs (master_sigill ?A) (\<lambda>_. Signal SIGILL 0 end_ctx) (Running uc (initial_risu True [] (replicate 2 (Xfer MEMBLOCKLEN)))) (Stopped RES_END stF)"
    using end_run [of "initial_risu True [] (replicate 2 (Xfer MEMBLOCKLEN))" x uc] by (auto simp: numeral_2_eq_2)
  obtain S where S: "set_sigill_handler (no_signal sample_front) (sigaction_ok sample_machine) (master_sigill ?A) no_handlers = Inr S"
    using handlers_install [of "sigaction_ok sample_machine" "no_signal sample_front" "master_sigill ?A" no_handlers]
    by (auto simp: sample_machine_def)
  have go: "runs (handler_in sample_front S) (cpu_of sample_machine) (Running uc (initial_risu (is_trace (Trace_File ''out'' True))
      (stream_of sample_front sample_zlib files (Trace_File ''out'' True)) (replicate 2 (Xfer MEMBLOCKLEN)))) (Stopped RES_END stF)"
    using run handler_in_installed [OF S] by (simp add: sample_machine_def is_trace_def stream_of_def)
  have m: "master (loaded_arch sample_machine 0x1000 64 x) RES_END stF = (''done'' @ print_stats stF, True, EXIT_SUCCESS)"
    by (simp add: master_def)
  show ?thesis using master_stopped [OF c uc S [folded sample_machine_simps(5)] go m refl] by blast
qed

theorem recorded_run_replays_witness:
  "\<exists>files' n out report out2.
     ppc_run sample_machine sample_front sample_zlib (getopt_long False) sample_os (replicate 2 (Xfer MEMBLOCKLEN))
       (example_state [''risu'', ''--master'', ''-tout'', ''image'']) (default_opts APPLE) (\<lambda>_. []) (out @ report, EXIT_SUCCESS, files') \<and>
     ppc_run sample_machine sample_front sample_zlib (getopt_long False) sample_os (replicate n (Xfer MEMBLOCKLEN))
       (example_state [''risu'', ''-tout'', ''image'']) (default_opts APPLE) files' (out2 @ report, EXIT_SUCCESS, files')"
proof -
  let ?o = "default_opts APPLE" and ?a = "replicate 2 (Xfer MEMBLOCKLEN)"
  obtain said files' where rec: "ppc_run sample_machine sample_front sample_zlib (getopt_long False) sample_os ?a
      (example_state [''risu'', ''--master'', ''-tout'', ''image'']) ?o (\<lambda>_. []) (said, EXIT_SUCCESS, files')"
    using sample_recording by blast
  obtain out g1 where m: "risu_main sample_front (getopt_long False) sample_os True (example_state [''risu'', ''--master'', ''-tout'', ''image'']) ?o =
      Some (out, Inr (Starts True (Trace_File ''out'' True) 0x1000 64, g1, ?o))" using sample_commands(1) by blast
  obtain out2 g3 where a: "risu_main sample_front (getopt_long False) sample_os True (example_state [''risu'', ''-tout'', ''image'']) ?o =
      Some (out2, Inr (Starts False (Trace_File ''out'' False) 0x1000 64, g3, ?o))" using sample_commands(2) by blast
  have "\<exists>report n. said = out @ report \<and> (\<forall>answers2. roomy n answers2 \<longrightarrow>
      ppc_run sample_machine sample_front sample_zlib (getopt_long False) sample_os answers2
        (example_state [''risu'', ''-tout'', ''image'']) ?o files' (out2 @ report, EXIT_SUCCESS, files'))"
  proof (rule recorded_run_replays [OF _ _ _ _ _ m a rec])
    show "gz_content sample_zlib (gz_closed sample_zlib bs) = bs" for bs by (simp add: sample_zlib_def)
    show "endian_macro sample_machine \<noteq> get_arch_big_endian (base_env sample_machine)"
      using sample_big_endian by (simp add: sample_machine_def)
  qed (auto simp: sample_machine_simps wf_end_ctx dest: end_op)
  then obtain report n where "said = out @ report" "\<And>answers2. roomy n answers2 \<Longrightarrow>
      ppc_run sample_machine sample_front sample_zlib (getopt_long False) sample_os answers2
        (example_state [''risu'', ''-tout'', ''image'']) ?o files' (out2 @ report, EXIT_SUCCESS, files')" by blast
  with rec show ?thesis using roomy_replicate [of n] by blast
qed

end
