(* ===== verification/Transport.thy ===== *)
theory Transport
  imports Session
begin

text \<open>
  What the two transports have in common, for runs that may fail: if a buffer was written, its bytes are on the stream, and if
  one was read, its bytes were next on the stream. A trace file carries a buffer as it is, a socket as a packet. Nothing is
  assumed about how reads are cut into pieces; writes on a socket must not be short, because \<^verbatim>\<open>safe_writev\<close> repeats data then.
\<close>

section \<open>Buffers on a stream\<close>

definition framed :: "bool \<Rightarrow> byte list \<Rightarrow> byte list" where
  "framed tr bs = (if tr then bs else pkt_frame bs)"

text \<open>No transfer is shorter than a memory block with its length; calls may be interrupted or fail.\<close>

definition whole :: "sysret list \<Rightarrow> bool" where
  "whole p \<longleftrightarrow> (\<forall>k. Xfer k \<in> set p \<longrightarrow> MEMBLOCKLEN + 4 \<le> k)"

definition linked :: "('uc, 'ri) arch \<Rightarrow> 'ri risu \<Rightarrow> bool" where
  "linked A st \<longleftrightarrow> trace st \<or> has_sockets A \<and> whole (plan (comm st))"

lemma whole_simps [simp]: "whole []" "whole (Fail e # p) \<longleftrightarrow> whole p" "whole (Xfer k # p) \<longleftrightarrow> MEMBLOCKLEN + 4 \<le> k \<and> whole p"
  by (auto simp: whole_def)

lemma whole_replicate [simp]: "whole (replicate n (Xfer (MEMBLOCKLEN + 4)))"
  by (simp add: whole_def)

lemma sys_read_whole: "sys_read n s = Some (i, bs, s') \<Longrightarrow> whole (plan s) \<Longrightarrow> whole (plan s')"
  by (auto simp: sys_read_def Let_def split: list.splits sysret.splits)

section \<open>Writing\<close>

lemma safe_writev_sent:
  assumes "safe_writev_loop r iov s = Inr (v, s')" "whole (plan s)" "wf_iov iov" "length (gather iov) \<le> MEMBLOCKLEN + 4" "v \<noteq> -1"
  shows "tx s' = tx s @ gather iov \<and> whole (plan s')"
  using assms(1,2)
proof (induction "plan s" arbitrary: s)
  case Nil
  then show ?case by (simp add: safe_writev_loop.simps [of r iov s] sys_write_def)
next
  case (Cons e p)
  show ?case
  proof (cases e)
    case (Xfer k)
    with Cons.prems assms(4) Cons.hyps(2) [symmetric] have "length (gather iov) \<le> k" by simp
    with Xfer Cons.prems Cons.hyps(2) [symmetric] assms(3) show ?thesis
      by (auto simp: safe_writev_loop.simps [of r iov s] sys_write_def)
  next
    case (Fail e')
    let ?s = "s\<lparr>errno := e', plan := p\<rparr>"
    have "safe_writev_loop r iov ?s = Inr (v, s')"
      using Fail Cons.prems(1) Cons.hyps(2) [symmetric] assms(5) by (auto simp: safe_writev_loop.simps [of r iov s] sys_write_def split: if_splits)
    then show ?thesis using Cons.hyps(1) [of ?s] Fail Cons.prems(2) Cons.hyps(2) [symmetric] by simp
  qed
qed

lemma send_data_pkt_sent:
  assumes "send_data_pkt bs n s = Inr (r, s')" "whole (plan s)" "n \<le> MEMBLOCKLEN"
  shows "n \<le> length bs" "tx s' = tx s @ pkt_frame (take n bs)" "whole (plan s')"
proof -
  let ?iov = "[(mem_bytes True 4 (of_nat n :: u32), 4), (bs, n)]"
  show n: "n \<le> length bs" using assms(1) by (auto simp: send_data_pkt_def split: if_splits)
  obtain v s1 i b where w: "safe_writev_loop 0 ?iov s = Inr (v, s1)" "v \<noteq> -1" "sys_read 1 s1 = Some (i, b, s')"
    using assms(1) by (auto simp: send_data_pkt_def safe_writev_def Let_def split: if_splits sum.splits option.splits)
  have "gather ?iov = pkt_frame (take n bs)" using n by (simp add: pkt_frame_def)
  moreover have "length (gather ?iov) \<le> MEMBLOCKLEN + 4" using assms(3) n by simp
  ultimately have "tx s1 = tx s @ pkt_frame (take n bs)" "whole (plan s1)"
    using safe_writev_sent [OF w(1) assms(2)] w(2) n by simp_all
  then show "tx s' = tx s @ pkt_frame (take n bs)" "whole (plan s')"
    using sys_read_SomeD(2) [OF w(3)] sys_read_whole [OF w(3)] by simp_all
qed

lemma write_buffer_sent:
  assumes "write_buffer A bs n st = Inr (r, st')" "linked A st" "n \<le> MEMBLOCKLEN" "r \<noteq> RES_BAD_IO"
  obtains s where "st' = st\<lparr>comm := s\<rparr>" "tx s = tx (comm st) @ framed (trace st) (take n bs)" "linked A st'" "trace st \<longrightarrow> r = RES_OK"
proof (cases "trace st")
  case True
  then have r: "r = RES_OK" using write_buffer_trace_result [OF assms(1)] assms(4) by blast
  then show thesis using True write_buffer_traceD(2) [OF assms(1) [unfolded r] True] that by (auto simp: framed_def linked_def)
next
  case False
  then have l: "has_sockets A" "whole (plan (comm st))" using assms(2) by (simp_all add: linked_def)
  obtain s where s: "send_data_pkt bs n (comm st) = Inr (r, s)" "st' = st\<lparr>comm := s\<rparr>"
    using assms(1) False l by (auto simp: write_buffer_def)
  show thesis
    using send_data_pkt_sent [OF s(1) l(2) assms(3)] s(2) False l by (intro that [of s]) (simp_all add: framed_def linked_def)
qed

section \<open>Reading\<close>

lemma read_buffer_ok:
  assumes "read_buffer B n st = Inr (RES_OK, bs, st')" "trace st \<or> has_sockets B" "rx (comm st) = framed (trace st) xs @ rest" "length xs = n"
  obtains s where "bs = xs" "st' = st\<lparr>comm := s\<rparr>" "rx s = rest"
proof (cases "trace st")
  case True
  obtain res s where r: "sys_read n (comm st) = Some (res, bs, s)" "res = int n" "st' = st\<lparr>comm := s\<rparr>"
    using assms(1) True by (auto simp: read_buffer_def split: option.splits if_splits)
  have "bs = take (length bs) (rx (comm st))" "length bs = n" "rx s = drop (length bs) (rx (comm st))"
    using r(1,2) by (auto simp: sys_read_def Let_def split: list.splits sysret.splits)
  with r(3) assms(3,4) True show thesis by (intro that [of s]) (auto simp: framed_def)
next
  case False
  then obtain s where s: "recv_data_pkt n (comm st) = Inr (RES_OK, bs, s)" "st' = st\<lparr>comm := s\<rparr>"
    using assms(1,2) by (auto simp: read_buffer_def)
  then obtain lb s1 where r: "recv_bytes 4 (comm st) = Inr (lb, s1)" "recv_bytes n s1 = Inr (bs, s)"
    by (auto simp: recv_data_pkt_def Let_def split: sum.splits if_splits)
  have "rx s1 = xs @ rest" using recv_bytes_sound [OF r(1)] assms(3) False by (auto simp: framed_def pkt_frame_def append_eq_append_conv)
  then have "bs = xs" "rx s = rest" using recv_bytes_sound [OF r(2)] assms(4) by auto
  with s(2) that show thesis by blast
qed

text \<open>Nothing is read from a socket without data.\<close>

lemma read_buffer_dry: "read_buffer B n st = Inr (r, bs, st') \<Longrightarrow> \<not> trace st \<Longrightarrow> has_sockets B \<Longrightarrow> rx (comm st) \<noteq> []"
  by (auto simp: read_buffer_def recv_data_pkt_def split: sum.splits dest: recv_bytes_sound)

lemma respond_rx: "respond r st = Inr st' \<Longrightarrow> \<exists>s. st' = st\<lparr>comm := s\<rparr> \<and> rx s = rx (comm st)"
proof (cases "trace st")
  case False
  assume "respond r st = Inr st'"
  with False obtain s where s: "send_response_byte r (comm st) = Inr s" "st' = st\<lparr>comm := s\<rparr>" by (auto simp: respond_def)
  then have "rx s = rx (comm st)" by (auto simp: send_response_byte_def split: option.splits if_splits dest: sys_write_SomeD(1))
  with s show ?thesis by blast
qed (auto intro: exI [of _ "comm st"])

section \<open>A record of the master\<close>

text \<open>
  Either the whole record was written, and the last packet was answered with \<^verbatim>\<open>RES_OK\<close> or not at all, or the other side
  wanted no more, possibly after the header.
\<close>

lemma send_record_parts:
  assumes ini: "ri_init A uc a = Inr r" and act: "\<not> (risuop_of A r = OP_SIGILL \<and> is_setup st)"
    and l: "linked A st" and ns: "\<not> swaps_header A" and ok: "res \<in> {RES_OK, RES_END}"
    and small: "\<And>sz extra st1. payload A uc (risuop_of A r) (count_illegal (risuop_of A r) (st\<lparr>ri_master := r\<rparr>)) = Inr (sz, extra, st1) \<Longrightarrow> unat sz \<le> MEMBLOCKLEN"
    and send: "send_register_info A uc a st = Inr (res, uc', st')"
  obtains sz extra st1 where
    "payload A uc (risuop_of A r) (count_illegal (risuop_of A r) (st\<lparr>ri_master := r\<rparr>)) = Inr (sz, extra, st1)" "linked A st'"
    "tx (comm st') = tx (comm st) @ framed (trace st) (header_bytes (host_is_big A) (record_header A uc r sz)) @
         (case extra of None \<Rightarrow> [] | Some bs \<Rightarrow> framed (trace st) (take (unat sz) bs)) \<and>
       (res = RES_OK \<longrightarrow> risuop_of A r \<noteq> OP_TESTEND) \<and> (trace st \<and> res = RES_END \<longrightarrow> risuop_of A r = OP_TESTEND) \<or>
     \<not> trace st \<and> res = RES_END \<and> extra \<noteq> None \<and>
       tx (comm st') = tx (comm st) @ framed False (header_bytes (host_is_big A) (record_header A uc r sz))"
proof -
  let ?op = "risuop_of A r"
  obtain sz extra st1 where pay: "payload A uc ?op (count_illegal ?op (st\<lparr>ri_master := r\<rparr>)) = Inr (sz, extra, st1)"
    and st1: "comm st1 = comm st" "trace st1 = trace st"
    and body: "andThen (write_buffer A (header_bytes (host_is_big A) (record_header A uc r sz)) 16 (st1\<lparr>header := record_header A uc r sz\<rparr>)) (\<lambda>(res, st).
      if res \<noteq> RES_OK then Inr (res, uc, st)
      else andThen (case extra of None \<Rightarrow> Inr (RES_OK, st) | Some bs \<Rightarrow> write_buffer A bs (unat (size (header st))) st)
        (\<lambda>(res, st). if res \<noteq> RES_OK then Inr (res, uc, st) else master_effect A ?op uc st)) = Inr (res, uc', st')"
    using send_register_steps [OF ini act ns send] .
  let ?h = "record_header A uc r sz"
  let ?st2 = "st1\<lparr>header := ?h\<rparr>"
  from body obtain res1 st3 where w1: "write_buffer A (header_bytes (host_is_big A) ?h) 16 ?st2 = Inr (res1, st3)" by auto
  have "res1 \<noteq> RES_BAD_IO" "16 \<le> MEMBLOCKLEN" "linked A ?st2" using body w1 ok l st1 by (auto simp: MEMBLOCKLEN_def linked_def)
  then obtain s1 where st3: "st3 = ?st2\<lparr>comm := s1\<rparr>" "tx s1 = tx (comm st) @ framed (trace st) (header_bytes (host_is_big A) ?h)"
    "linked A st3" "trace st \<longrightarrow> res1 = RES_OK"
    using write_buffer_sent [OF w1] st1 by auto
  have eff: "res = (if ?op = OP_TESTEND then RES_END else RES_OK) \<and> comm st' = comm st4 \<and> trace st' = trace st4"
    if "master_effect A ?op uc st4 = Inr (res, uc', st')" for st4
    using that by (cases ?op) (auto simp: master_effect_def Let_def)
  show thesis
  proof (cases "res1 = RES_OK")
    case False
    then have e: "res = res1" "st' = st3" "\<not> trace st" using body w1 st3(4) by auto
    have "tx (comm st') = tx (comm st) @ framed False (header_bytes (host_is_big A) ?h)" "res = RES_END" "linked A st'"
      using e False ok st3(1-3) by auto
    then show thesis using pay e(3) by (intro that [of sz extra st1]) (cases extra; simp)+
  next
    case r1: True
    show thesis
    proof (cases extra)
      case None
      then have "master_effect A ?op uc st3 = Inr (res, uc', st')" using body w1 r1 by simp
      from eff [OF this] None st3 pay show thesis by (intro that [of sz extra st1]) (auto simp: linked_def)
    next
      case (Some bs)
      have sz: "size (header st3) = sz" by (simp add: st3 record_header_def)
      obtain res2 st4 where w2: "write_buffer A bs (unat sz) st3 = Inr (res2, st4)" using body w1 r1 Some sz by auto
      have "res2 \<noteq> RES_BAD_IO" using body w1 r1 Some sz w2 ok by auto
      then obtain s2 where st4: "st4 = st3\<lparr>comm := s2\<rparr>" "tx s2 = tx s1 @ framed (trace st) (take (unat sz) bs)" "linked A st4" "trace st \<longrightarrow> res2 = RES_OK"
        using write_buffer_sent [OF w2 st3(3) small [OF pay]] st3 st1 by auto
      have t: "tx (comm st4) = tx (comm st) @ framed (trace st) (header_bytes (host_is_big A) ?h) @ framed (trace st) (take (unat sz) bs)"
        using st3 st4 by simp
      show thesis
      proof (cases "res2 = RES_OK")
        case True
        then have "master_effect A ?op uc st4 = Inr (res, uc', st')" using body w1 r1 Some sz w2 by simp
        from eff [OF this] Some t st4 pay show thesis by (intro that [of sz extra st1]) (auto simp: linked_def)
      next
        case False
        then have "res = res2" "st' = st4" "\<not> trace st" using body w1 r1 Some sz w2 st4(4) by auto
        with False Some t st4 pay ok show thesis by (intro that [of sz extra st1]) auto
      qed
    qed
  qed
qed

end
