(* ===== verification/Agreement.thy ===== *)
theory Agreement
  imports Transport
begin

text \<open>
  What success means. A run shows the harness something at every checkpoint: a register image, the memory block, or just an
  operation. A master and an apprentice that both came to the end, through a trace file or over a socket, have shown things that
  agree one by one, on whatever two processors and machines they ran: that is the purpose of the program.
\<close>

section \<open>What a run shows\<close>

text \<open>A register image comes with its operation, whether it is part of a set-up phase, and the number of the signal.\<close>

datatype 'ri shown =
    Registers RisuOp bool nat 'ri
  | Memory "byte list option"
  | Marker RisuOp

text \<open>Nothing is shown for an illegal instruction in a set-up phase.\<close>

definition shown_at :: "('uc, 'ri) arch \<Rightarrow> 'uc \<Rightarrow> arch_ptr \<Rightarrow> 'ri risu \<Rightarrow> 'ri shown list" where
  "shown_at A uc a st =
     (case ri_init A uc a of
        Inl e \<Rightarrow> []
      | Inr r \<Rightarrow>
          (let op = risuop_of A r
           in if op \<in> {OP_COMPARE, OP_TESTEND, OP_SIGILL} then
                if op = OP_SIGILL \<and> is_setup st then [] else [Registers op (is_setup st) (signal_count st + 1) r]
              else if op = OP_COMPAREMEM then [Memory (map_option (\<lambda>p. mem_read A uc p MEMBLOCKLEN) (memblock st))]
              else [Marker op]))"

inductive presents ::
  "('uc, 'ri) arch \<Rightarrow> ('uc, 'ri) handler \<Rightarrow> ('uc \<Rightarrow> 'uc event) \<Rightarrow> ('uc, 'ri) config \<Rightarrow> 'ri shown list \<Rightarrow> ('uc, 'ri) config \<Rightarrow> bool"
  for A H cpu where
  finished: "presents A H cpu c [] c"
| signalled: "cpu uc = Signal sig a uc1 \<Longrightarrow> step H cpu (Running uc st) c \<Longrightarrow> presents A H cpu c xs d \<Longrightarrow>
    presents A H cpu (Running uc st) (shown_at A uc1 a st @ xs) d"

inductive_simps presents_end [simp]:
  "presents A H cpu (Stopped r st) xs d"
  "presents A H cpu (Fell_Out st) xs d"
  "presents A H cpu (Broken e) xs d"

text \<open>Every run that a handler stopped shows something.\<close>

lemma runs_presents:
  assumes "runs H cpu c (Stopped r st)"
  shows "\<exists>xs. presents A H cpu c xs (Stopped r st)"
  using assms
proof (induction rule: converse_rtranclp_induct)
  case base
  show ?case by (auto intro: finished)
next
  case (step c c')
  then obtain xs where xs: "presents A H cpu c' xs (Stopped r st)" by blast
  obtain uc st1 where c: "c = Running uc st1" using step.hyps(1) by (cases c) simp_all
  show ?case
  proof (cases "cpu uc")
    case (Signal sig a uc1)
    then show ?thesis using signalled [OF Signal step.hyps(1) [unfolded c] xs] c by auto
  next
    case Returned
    then have "c' = Fell_Out st1" using step.hyps(1) unfolding c by (auto elim: step_RunningE)
    then show ?thesis using xs by simp
  qed
qed

lemma presents_runs: "presents A H cpu c xs d \<Longrightarrow> runs H cpu c d"
  by (induction rule: presents.induct) (auto intro: converse_rtranclp_into_rtranclp)

section \<open>Agreement\<close>

fun agrees :: "('uc, 'ri) arch \<Rightarrow> 'ri shown \<Rightarrow> 'ri shown \<Rightarrow> bool" where
  "agrees B (Registers op _ _ m) (Registers op' setup n a) \<longleftrightarrow>
     op = op' \<and> (setup \<or> (case ri_is_eq B n m a of Inr (eq, _) \<Rightarrow> eq | Inl e \<Rightarrow> False))"
| "agrees B (Memory x) (Memory y) \<longleftrightarrow> x \<noteq> None \<and> x = y"
| "agrees B (Marker op) (Marker op') \<longleftrightarrow> op = op'"
| "agrees B _ _ \<longleftrightarrow> False"

text \<open>The one thing that ends a test, and lists that end with it and have it nowhere else.\<close>

fun is_end :: "'ri shown \<Rightarrow> bool" where
  "is_end (Registers op _ _ _) \<longleftrightarrow> op = OP_TESTEND"
| "is_end _ \<longleftrightarrow> False"

fun ends_once :: "'ri shown list \<Rightarrow> bool" where
  "ends_once [] \<longleftrightarrow> False"
| "ends_once (x # xs) \<longleftrightarrow> (if is_end x then xs = [] else ends_once xs)"

text \<open>The record of what was shown.\<close>

fun shown_op :: "'ri shown \<Rightarrow> RisuOp" where
  "shown_op (Registers op _ _ _) = op"
| "shown_op (Memory _) = OP_COMPAREMEM"
| "shown_op (Marker op) = op"

fun shown_data :: "('uc, 'ri) arch \<Rightarrow> 'ri shown \<Rightarrow> byte list option" where
  "shown_data A (Registers _ _ _ r) = Some (ri_bytes A (ri_host_to_arch A r))"
| "shown_data A (Memory x) = x"
| "shown_data A (Marker _) = None"

definition shown_header :: "('uc, 'ri) arch \<Rightarrow> 'ri shown \<Rightarrow> arch_ptr \<Rightarrow> trace_header" where
  "shown_header A x p =
     \<lparr>magic = RISU_MAGIC, size = (case shown_data A x of None \<Rightarrow> 0 | Some bs \<Rightarrow> of_nat (length bs)),
      risu_op = of_int (int_of_op (shown_op x)), pc = p\<rparr>"

definition records :: "('uc, 'ri) arch \<Rightarrow> bool \<Rightarrow> 'ri shown \<Rightarrow> byte list \<Rightarrow> bool" where
  "records A tr x bs \<longleftrightarrow>
     (\<exists>p. bs = framed tr (header_bytes (host_is_big A) (shown_header A x p)) @
            (case shown_data A x of None \<Rightarrow> [] | Some data \<Rightarrow> framed tr data))"

text \<open>Things a master can show and record.\<close>

fun shown_wf :: "('ri \<Rightarrow> bool) \<Rightarrow> 'ri shown \<Rightarrow> bool" where
  "shown_wf wf_ri (Registers op _ _ r) \<longleftrightarrow> op \<in> {OP_COMPARE, OP_TESTEND, OP_SIGILL} \<and> wf_ri r"
| "shown_wf wf_ri (Memory x) \<longleftrightarrow> (\<exists>bs. x = Some bs \<and> length bs = MEMBLOCKLEN)"
| "shown_wf wf_ri (Marker op) \<longleftrightarrow> op \<in> {OP_SETMEMBLOCK, OP_GETMEMBLOCK, OP_SETUPBEGIN, OP_SETUPEND}"

lemma shown_at_op:
  assumes "ri_init A uc a = Inr r" "\<not> (risuop_of A r = OP_SIGILL \<and> is_setup st)"
  obtains x where "shown_at A uc a st = [x]" "shown_op x = risuop_of A r"
proof (cases "risuop_of A r \<in> {OP_COMPARE, OP_TESTEND, OP_SIGILL}")
  case True
  with assms show thesis by (intro that [of "Registers (risuop_of A r) (is_setup st) (signal_count st + 1) r"]) (auto simp: shown_at_def Let_def)
next
  case regs: False
  show thesis
  proof (cases "risuop_of A r = OP_COMPAREMEM")
    case True
    with assms show thesis by (intro that [of "Memory (map_option (\<lambda>p. mem_read A uc p MEMBLOCKLEN) (memblock st))"]) (auto simp: shown_at_def)
  next
    case False
    with assms regs show thesis by (intro that [of "Marker (risuop_of A r)"]) (auto simp: shown_at_def)
  qed
qed

lemma shown_op_known: "shown_wf wf_ri x \<Longrightarrow> op_known (shown_op x)"
  by (cases x) auto

lemma is_end_op: "shown_wf wf_ri x \<Longrightarrow> is_end x \<longleftrightarrow> shown_op x = OP_TESTEND"
  by (cases x) auto

text \<open>What a socket may carry after the last record: nothing, or a header whose data was not wanted.\<close>

definition cut_short :: "('uc, 'ri) arch \<Rightarrow> ('ri \<Rightarrow> bool) \<Rightarrow> byte list \<Rightarrow> bool" where
  "cut_short A wf_ri bs \<longleftrightarrow>
     bs = [] \<or> (\<exists>x p. shown_wf wf_ri x \<and> shown_data A x \<noteq> None \<and> bs = pkt_frame (header_bytes (host_is_big A) (shown_header A x p)))"

section \<open>The master\<close>

context arch_backend
begin

lemma payload_shown:
  assumes r: "ri_init A uc a = Inr r" "\<not> (risuop_of A r = OP_SIGILL \<and> is_setup st)" "wf_ri r" and x: "shown_at A uc a st = [x]"
    and mem: "Memory None \<notin> set (shown_at A uc a st)"
    and p: "payload A uc (risuop_of A r) (count_illegal (risuop_of A r) (st\<lparr>signal_count := n, ri_master := r\<rparr>)) = Inr (sz, extra, st1)"
  shows "shown_wf wf_ri x \<and> map_option (take (unat sz)) extra = shown_data A x \<and> unat sz \<le> MEMBLOCKLEN \<and>
    sz = (case shown_data A x of None \<Rightarrow> 0 | Some bs \<Rightarrow> of_nat (length bs))"
proof -
  have len: "length (ri_bytes A (ri_host_to_arch A r)) = sizeof_ri A" using r(3) by (intro length_enc to_arch_wf)
  show ?thesis
  proof (cases "risuop_of A r \<in> {OP_COMPARE, OP_TESTEND, OP_SIGILL}")
    case True
    with r x have "x = Registers (risuop_of A r) (is_setup st) (signal_count st + 1) r" by (auto simp: shown_at_def Let_def)
    with True p len r(3) size_exact [OF r(3)] unat_size size_small show ?thesis by (auto simp: payload_def Let_def)
  next
    case regs: False
    show ?thesis
    proof (cases "risuop_of A r = OP_COMPAREMEM")
      case True
      with r x have "x = Memory (map_option (\<lambda>p. mem_read A uc p MEMBLOCKLEN) (memblock st))" by (simp add: shown_at_def)
      with True p mem x mem_read_length show ?thesis by (auto simp: payload_def MEMBLOCKLEN_def)
    next
      case False
      with regs r(1) x have "x = Marker (risuop_of A r)" by (simp add: shown_at_def)
      with regs False p show ?thesis by (cases "risuop_of A r") (auto simp: payload_def)
    qed
  qed
qed

text \<open>A checkpoint of a master that is not in trouble: nothing is shown, or it is recorded, or the apprentice did not want the data.\<close>

lemma master_shows:
  assumes wf: "wf_uc uc" and l: "linked A st" and ns: "\<not> swaps_header A" and ok: "res \<in> {RES_OK, RES_END}"
    and mem: "Memory None \<notin> set (shown_at A uc a st)"
    and send: "send_register_info A uc a (st\<lparr>signal_count := signal_count st + 1\<rparr>) = Inr (res, uc', st')"
  obtains (hidden) "shown_at A uc a st = []" "tx (comm st') = tx (comm st)" "res = RES_OK" "linked A st'"
  | (recorded) x rec where "shown_at A uc a st = [x]" "shown_wf wf_ri x" "records A (trace st) x rec" "tx (comm st') = tx (comm st) @ rec"
      "res = RES_OK \<Longrightarrow> \<not> is_end x" "trace st \<Longrightarrow> res = RES_END \<Longrightarrow> is_end x" "linked A st'"
  | (refused) rest where "\<not> trace st" "res = RES_END" "tx (comm st') = tx (comm st) @ rest" "cut_short A wf_ri rest"
proof -
  obtain r where r: "ri_init A uc a = Inr r" using send by (auto simp: send_register_info_def)
  let ?op = "risuop_of A r" and ?st = "st\<lparr>signal_count := signal_count st + 1\<rparr>"
  show thesis
  proof (cases "?op = OP_SIGILL \<and> is_setup st")
    case True
    with r send l show thesis by (intro hidden) (auto simp: send_skips_setup shown_at_def linked_def)
  next
    case False
    obtain x where x: "shown_at A uc a st = [x]" "shown_op x = ?op" using shown_at_op [OF r False] .
    have act: "\<not> (?op = OP_SIGILL \<and> is_setup ?st)" and l': "linked A ?st" using False l by (simp_all add: linked_def)
    note shown = payload_shown [OF r False init_wf [OF wf r] x(1) mem]
    have small: "unat sz \<le> MEMBLOCKLEN" if "payload A uc ?op (count_illegal ?op (?st\<lparr>ri_master := r\<rparr>)) = Inr (sz, extra, st1)" for sz extra st1
      using shown that by simp
    obtain sz extra st1 where p: "payload A uc ?op (count_illegal ?op (?st\<lparr>ri_master := r\<rparr>)) = Inr (sz, extra, st1)" "linked A st'"
      and sent: "tx (comm st') = tx (comm ?st) @ framed (trace ?st) (header_bytes (host_is_big A) (record_header A uc r sz)) @
           (case extra of None \<Rightarrow> [] | Some bs \<Rightarrow> framed (trace ?st) (take (unat sz) bs)) \<and>
         (res = RES_OK \<longrightarrow> ?op \<noteq> OP_TESTEND) \<and> (trace ?st \<and> res = RES_END \<longrightarrow> ?op = OP_TESTEND) \<or>
       \<not> trace ?st \<and> res = RES_END \<and> extra \<noteq> None \<and>
         tx (comm st') = tx (comm ?st) @ framed False (header_bytes (host_is_big A) (record_header A uc r sz))"
      by (rule send_record_parts [OF r act l' ns ok small send])
    have b: "shown_wf wf_ri x" "map_option (take (unat sz)) extra = shown_data A x" "record_header A uc r sz = shown_header A x (pc_of A uc r)"
      using shown [of _ sz extra st1] p(1) x(2) by (simp_all add: record_header_def shown_header_def)
    have d: "(case extra of None \<Rightarrow> [] | Some bs \<Rightarrow> framed tr (take (unat sz) bs)) = (case shown_data A x of None \<Rightarrow> [] | Some bs \<Rightarrow> framed tr bs)" for tr
      using b(2) [symmetric] by (cases extra) auto
    have same: "trace ?st = trace st" "comm ?st = comm st" by simp_all
    from sent [unfolded b(3) d same] show thesis
    proof
      assume t: "tx (comm st') = tx (comm st) @ framed (trace st) (header_bytes (host_is_big A) (shown_header A x (pc_of A uc r))) @
           (case shown_data A x of None \<Rightarrow> [] | Some bs \<Rightarrow> framed (trace st) bs) \<and>
         (res = RES_OK \<longrightarrow> ?op \<noteq> OP_TESTEND) \<and> (trace st \<and> res = RES_END \<longrightarrow> ?op = OP_TESTEND)"
      show thesis
        by (rule recorded [OF x(1) b(1) _ conjunct1 [OF t] _ _ p(2)]) (use t x(2) is_end_op [OF b(1)] in \<open>auto simp: records_def\<close>)
    next
      assume t: "\<not> trace st \<and> res = RES_END \<and> extra \<noteq> None \<and>
         tx (comm st') = tx (comm st) @ framed False (header_bytes (host_is_big A) (shown_header A x (pc_of A uc r)))"
      then have "shown_data A x \<noteq> None" using b(2) [symmetric] by auto
      with t b(1) show thesis by (intro refused) (auto simp: cut_short_def framed_def)
    qed
  qed
qed

lemma master_records:
  assumes cpu: "\<And>u sig a u'. wf_uc u \<Longrightarrow> cpu u = Signal sig a u' \<Longrightarrow> wf_uc u'" and ns: "\<not> swaps_header A"
    and run: "presents A (master_sigill A) cpu (Running uc st) xs (Stopped RES_END stF)"
    and "wf_uc uc" "trace st = tr" "linked A st" "Memory None \<notin> set xs"
  shows "\<exists>xs' recs rest. tx (comm stF) = tx (comm st) @ concat recs @ rest \<and> list_all2 (records A tr) xs' recs \<and> list_all (shown_wf wf_ri) xs' \<and>
    (xs' = xs \<and> rest = [] \<and> ends_once xs \<or> \<not> tr \<and> \<not> list_ex is_end xs' \<and> cut_short A wf_ri rest)"
  using run assms(4-)
proof (induction "Running uc st" xs "Stopped RES_END stF :: ('uc, 'ri) config" arbitrary: uc st rule: presents.induct)
  case (signalled uc sig a uc1 st c xs)
  have wf1: "wf_uc uc1" using cpu signalled.prems(1) signalled.hyps(1) by blast
  have mem: "Memory None \<notin> set (shown_at A uc1 a st)" using signalled.prems(4) by simp
  from signalled.hyps(2) show ?case
  proof (cases rule: step.cases)
    case (resumed sig' a' uc1' uc2 st')
    with signalled.hyps(1) have e: "sig' = sig" "a' = a" "uc1' = uc1" by simp_all
    from master_sigill_resume [OF resumed(3)] obtain uc3 where
      s: "send_register_info A uc1 a (st\<lparr>signal_count := signal_count st + 1\<rparr>) = Inr (RES_OK, uc3, st')" "uc2 = uc_advance A uc3"
      unfolding e by blast
    have wf2: "wf_uc uc2" using send_keeps_wf [OF s(1) wf1] s(2) advance_wf by simp
    have tr: "trace st' = tr" using send_changes [OF s(1)] signalled.prems(2) by simp
    have later: "\<exists>xs' recs rest. tx (comm stF) = tx (comm st') @ concat recs @ rest \<and> list_all2 (records A tr) xs' recs \<and> list_all (shown_wf wf_ri) xs' \<and>
      (xs' = xs \<and> rest = [] \<and> ends_once xs \<or> \<not> tr \<and> \<not> list_ex is_end xs' \<and> cut_short A wf_ri rest)" if "linked A st'"
      using signalled.hyps(4) [OF resumed(1) wf2 tr that] signalled.prems(4) by simp
    have ok: "RES_OK \<in> {RES_OK, RES_END}" by simp
    show ?thesis
      using wf1 signalled.prems(3) ns ok mem s(1)
    proof (cases rule: master_shows)
      case hidden
      then show ?thesis using later by simp
    next
      case (recorded x rec)
      obtain xs' recs rest where "tx (comm stF) = tx (comm st') @ concat recs @ rest" "list_all2 (records A tr) xs' recs" "list_all (shown_wf wf_ri) xs'"
        "xs' = xs \<and> rest = [] \<and> ends_once xs \<or> \<not> tr \<and> \<not> list_ex is_end xs' \<and> cut_short A wf_ri rest"
        using later [OF recorded(7)] by blast
      then show ?thesis using recorded(1-5) signalled.prems(2)
        by (intro exI [of _ "x # xs'"] exI [of _ "rec # recs"] exI [of _ rest]) auto
    qed simp
  next
    case (jumped sig' a' uc1' r st')
    with signalled.hyps(1) have e: "sig' = sig" "a' = a" "uc1' = uc1" by simp_all
    have x: "xs = []" "r = RES_END" "st' = stF" using signalled.hyps(3) jumped(1) by auto
    obtain uc2 st1 where s: "send_register_info A uc1 a (st\<lparr>signal_count := signal_count st + 1\<rparr>) = Inr (RES_END, uc2, st1)" "comm stF = comm st1"
      using master_sigill_jump [OF jumped(3)] x unfolding e by auto
    have ok: "RES_END \<in> {RES_OK, RES_END}" by simp
    show ?thesis
      using wf1 signalled.prems(3) ns ok mem s(1)
    proof (cases rule: master_shows)
      case (recorded y rec)
      then show ?thesis using signalled.prems(2) x(1) s(2)
        by (intro exI [of _ "[y]"] exI [of _ "[rec]"] exI [of _ "[]"]) (auto simp: cut_short_def)
    next
      case (refused rest)
      then show ?thesis using signalled.prems(2) s(2) by (intro exI [of _ "[]"] exI [of _ rest]) auto
    qed simp
  qed (use signalled.hyps(3) in auto)
qed

end

section \<open>The apprentice\<close>

text \<open>
  The bytes of an image on the wire do not depend on the host but on an order that goes with the back end; the same order on
  both sides is what master and apprentice need.
\<close>

locale wire_backend = arch_backend A wf_ri wf_uc
  for A :: "('uc, 'ri) arch" and wf_ri :: "'ri \<Rightarrow> bool" and wf_uc :: "'uc \<Rightarrow> bool" +
  fixes wire :: "bool \<Rightarrow> 'ri \<Rightarrow> byte list" and order :: bool
  assumes on_wire: "ri_bytes A (ri_host_to_arch A r) = wire order r"
begin

lemma off_wire: "wf_ri r \<Longrightarrow> ri_arch_to_host A (ri_of_bytes A (wire order r)) = r"
  using on_wire [of r] dec_enc [OF to_arch_wf] to_arch_back by metis

lemma length_wire: "wf_ri r \<Longrightarrow> length (wire order r) = sizeof_ri A"
  using on_wire [of r] length_enc [OF to_arch_wf] by metis

end

lemma header_arrives:
  assumes "recv_register_info B st = Inr (RES_OK, st1)" "trace st \<or> has_sockets B" "rx (comm st) = framed (trace st) (header_bytes big h) @ rest"
    "magic h = RISU_MAGIC"
  obtains s where "recv_payload B (st\<lparr>comm := s, header := h\<rparr>) = Inr (RES_OK, st1)" "rx s = rest"
proof -
  obtain bs st2 where rb: "read_buffer B 16 st = Inr (RES_OK, bs, st2)"
    using assms(1) by (auto simp: recv_register_info_def Let_def split: if_splits)
  obtain s where s: "bs = header_bytes big h" "st2 = st\<lparr>comm := s\<rparr>" "rx s = rest"
    using read_buffer_ok [OF rb assms(2,3)] by auto
  have "header_arch_to_host (header_of_bytes (host_is_big B) (header_bytes big h)) = h"
    using header_arch_to_host_either [OF assms(4)] header_other_order [of big h] by (cases "host_is_big B = big") auto
  then have "recv_payload B (st\<lparr>comm := s, header := h\<rparr>) = Inr (RES_OK, st1)"
    using assms(1,4) rb s(1,2) by (simp add: recv_register_info_def Let_def)
  then show thesis using that s(3) by blast
qed

text \<open>Where the apprentice has put what it received: registers in the master's image, memory in the other memory block.\<close>

fun taken_in :: "'ri shown \<Rightarrow> 'ri \<Rightarrow> byte list \<Rightarrow> bool" where
  "taken_in (Registers _ _ _ r) q w \<longleftrightarrow> q = r"
| "taken_in (Memory (Some bs)) q w \<longleftrightarrow> w = bs"
| "taken_in _ q w \<longleftrightarrow> True"

lemma recv_payload_not_end: "recv_payload A st = Inr (res, st') \<Longrightarrow> res \<noteq> RES_END"
  by (auto simp: recv_payload_def Let_def dest: read_buffer_result split: if_splits)

lemma recv_not_end: "recv_register_info A st = Inr (res, st') \<Longrightarrow> res \<noteq> RES_END"
  by (auto simp: recv_register_info_def Let_def dest: read_buffer_result recv_payload_not_end split: if_splits)

lemma apprentice_sigill_resume:
  "apprentice_sigill A sig a uc st = Inr (Resume uc2, st') \<Longrightarrow>
   \<exists>uc1. recv_and_compare_register_info A uc a (st\<lparr>signal_count := signal_count st + 1\<rparr>) = Inr (RES_OK, uc1, st')"
  by (cases sig) (auto simp: apprentice_sigill_def leave_handler_def Let_def split: if_splits)

lemma apprentice_sigill_end:
  "apprentice_sigill A sig a uc st = Inr (Longjmp RES_END, st') \<Longrightarrow>
   \<exists>uc1 st1. recv_and_compare_register_info A uc a (st\<lparr>signal_count := signal_count st + 1\<rparr>) = Inr (RES_END, uc1, st1) \<and> comm st' = comm st1"
  by (cases sig) (auto simp: apprentice_sigill_def leave_handler_def Let_def split: if_splits)

text \<open>What the comparison has found when it accepts.\<close>

lemma compare_registers_accepts:
  assumes "compare_registers B op uc st = Inr (res, uc', st')" "res \<in> {RES_OK, RES_END}"
  shows "op = header_op (header st) \<and> res = (if op = OP_TESTEND then RES_END else RES_OK) \<and>
    (is_setup st \<or> (\<exists>a. ri_is_eq B (signal_count st) (ri_master st) (ri_apprentice st) = Inr (True, a)))"
  using assms by (cases "ri_is_eq B (signal_count st) (ri_master st) (ri_apprentice st)") (auto simp: compare_registers_def Let_def split: if_splits)

lemma compare_effect_accepts:
  assumes "compare_effect B op uc st = Inr (res, uc', st')" "res \<in> {RES_OK, RES_END}" "op \<notin> {OP_COMPARE, OP_TESTEND, OP_SIGILL}"
  shows "op = header_op (header st) \<and> res = RES_OK \<and>
    (op = OP_COMPAREMEM \<longrightarrow> (\<exists>p. memblock st = Some p \<and> mem_read B uc p MEMBLOCKLEN = other_memblock st))"
  using assms by (auto simp: compare_effect_def Let_def split: if_splits option.splits)

locale two_sides = m: wire_backend A wf_ri wf_uc wire ord_A + a: wire_backend B wf_ri wf_vc wire ord_B
  for A :: "('uc, 'ri) arch" and B :: "('vc, 'ri) arch" and wf_ri :: "'ri \<Rightarrow> bool" and wf_uc :: "'uc \<Rightarrow> bool" and wf_vc :: "'vc \<Rightarrow> bool"
    and wire :: "bool \<Rightarrow> 'ri \<Rightarrow> byte list" and ord_A :: bool and ord_B :: bool +
  assumes same_size: "sizeof_ri A = sizeof_ri B"
begin

definition ready :: "bool \<Rightarrow> 'ri risu \<Rightarrow> bool" where
  "ready tr st \<longleftrightarrow> trace st = tr \<and> (tr \<or> has_sockets B) \<and> wf_ri (ri_master st) \<and> length (other_memblock st) = MEMBLOCKLEN"

lemma header_of_shown:
  assumes "shown_wf wf_ri x"
  shows "magic (shown_header A x p) = RISU_MAGIC" "header_op (shown_header A x p) = shown_op x"
    "size (shown_header A x p) = (case shown_data A x of None \<Rightarrow> 0 | Some bs \<Rightarrow> of_nat (length bs))"
  using shown_op_known [OF assms] by (simp_all add: shown_header_def)

lemma data_arrives:
  assumes "andThen (respond RES_OK st) (\<lambda>st. andThen (read_buffer B n st) f) = Inr (RES_OK, st1)"
    and only: "\<forall>res bs st. f (res, bs, st) = Inr (RES_OK, st1) \<longrightarrow> res = RES_OK"
    and "trace st \<or> has_sockets B" "rx (comm st) = framed (trace st) data @ rest" "length data = n"
  obtains s where "f (RES_OK, data, st\<lparr>comm := s\<rparr>) = Inr (RES_OK, st1)" "rx s = rest"
proof -
  obtain st2 res bs st3 where g: "respond RES_OK st = Inr st2" "read_buffer B n st2 = Inr (res, bs, st3)" "f (res, bs, st3) = Inr (RES_OK, st1)"
    using assms(1) by auto
  note f = g [unfolded only [rule_format, OF g(3)]]
  obtain s where st2: "st2 = st\<lparr>comm := s\<rparr>" "rx s = rx (comm st)" using respond_rx [OF f(1)] by blast
  have r: "trace st2 \<or> has_sockets B" "rx (comm st2) = framed (trace st2) data @ rest" using assms(3,4) st2 by simp_all
  obtain t where "bs = data" "st3 = st2\<lparr>comm := t\<rparr>" "rx t = rest" using read_buffer_ok [OF f(2) r assms(5)] .
  with f(3) st2(1) that show thesis by simp
qed

text \<open>Registers and memory that the apprentice has taken in after their header.\<close>

lemma registers_arrive:
  assumes "recv_payload B st = Inr (RES_OK, st1)" "ready tr st" "header_op (header st) \<in> {OP_COMPARE, OP_TESTEND, OP_SIGILL}"
    and q: "wf_ri q" and sz: "size (header st) = of_nat (sizeof_ri B)" and rx: "rx (comm st) = framed tr (wire ord_B q) @ rest"
  obtains s where "st1 = st\<lparr>comm := s, ri_master := q\<rparr>" "rx s = rest"
proof -
  let ?f = "\<lambda>(res, bs, st'). let r = ri_arch_to_host B (ri_of_bytes B (fill bs (ri_bytes B (ri_master st')))); st' = st'\<lparr>ri_master := r\<rparr>
    in if res = RES_OK \<and> size (header st) \<noteq> of_int (ri_size B r) then Inr (RES_BAD_SIZE_REGINFO, st') else Inr (res, st') :: fault + RisuResult \<times> 'ri risu"
  have st: "trace st = tr" "trace st \<or> has_sockets B" "wf_ri (ri_master st)" using assms(2) by (auto simp: ready_def)
  have len: "length (wire ord_B q) = sizeof_ri B" using a.length_wire [OF q] .
  have rd: "andThen (respond RES_OK st) (\<lambda>st. andThen (read_buffer B (sizeof_ri B) st) ?f) = Inr (RES_OK, st1)"
    using assms(1,3) sz a.unat_size by (simp add: recv_payload_def Let_def)
  have only: "\<forall>res bs st. ?f (res, bs, st) = Inr (RES_OK, st1) \<longrightarrow> res = RES_OK" by (auto simp: Let_def split: if_splits)
  obtain t where t: "?f (RES_OK, wire ord_B q, st\<lparr>comm := t\<rparr>) = Inr (RES_OK, st1)" "rx t = rest"
    using data_arrives [OF rd only st(2) rx [folded st(1)] len] .
  have "fill (wire ord_B q) (ri_bytes B (ri_master st)) = wire ord_B q" using len a.length_enc [OF st(3)] by simp
  then have "st1 = st\<lparr>comm := t, ri_master := q\<rparr>" using t(1) a.off_wire [OF q] by (auto simp: Let_def split: if_splits)
  with t(2) that show thesis by blast
qed

lemma memory_arrives:
  assumes "recv_payload B st = Inr (RES_OK, st1)" "ready tr st" "header_op (header st) = OP_COMPAREMEM" "size (header st) = of_nat MEMBLOCKLEN"
    and bs: "length bs = MEMBLOCKLEN" and rx: "rx (comm st) = framed tr bs @ rest"
  obtains s where "st1 = st\<lparr>comm := s, other_memblock := bs\<rparr>" "rx s = rest"
proof -
  let ?f = "\<lambda>(res, bs, st). Inr (res, st\<lparr>other_memblock := fill bs (other_memblock st)\<rparr>) :: fault + RisuResult \<times> 'ri risu"
  have st: "trace st = tr" "trace st \<or> has_sockets B" "length (other_memblock st) = MEMBLOCKLEN" using assms(2) by (auto simp: ready_def)
  have rd: "andThen (respond RES_OK st) (\<lambda>st. andThen (read_buffer B MEMBLOCKLEN st) ?f) = Inr (RES_OK, st1)"
    using assms(1,3,4) by (simp add: recv_payload_def Let_def)
  have only: "\<forall>res bs st. ?f (res, bs, st) = Inr (RES_OK, st1) \<longrightarrow> res = RES_OK" by simp
  obtain t where "?f (RES_OK, bs, st\<lparr>comm := t\<rparr>) = Inr (RES_OK, st1)" "rx t = rest"
    using data_arrives [OF rd only st(2) rx [folded st(1)] bs] .
  then show thesis using bs st(3) by (intro that [of t]) auto
qed

text \<open>A record that the apprentice has taken in.\<close>

lemma record_arrives:
  assumes "recv_register_info B st = Inr (RES_OK, st1)" "ready tr st" "ord_A = ord_B" "records A tr x rec" "shown_wf wf_ri x" "rx (comm st) = rec @ rest"
  obtains s h r w where "st1 = st\<lparr>comm := s, header := h, ri_master := r, other_memblock := w\<rparr>" "rx s = rest" "ready tr st1" "header_op h = shown_op x"
    "taken_in x r w"
proof -
  obtain p where rec: "rec = framed tr (header_bytes (host_is_big A) (shown_header A x p)) @ (case shown_data A x of None \<Rightarrow> [] | Some bs \<Rightarrow> framed tr bs)"
    using assms(4) by (auto simp: records_def)
  let ?h = "shown_header A x p" and ?data = "case shown_data A x of None \<Rightarrow> [] | Some bs \<Rightarrow> framed tr bs"
  note h = header_of_shown [OF assms(5), of p]
  have pre: "trace st \<or> has_sockets B" "rx (comm st) = framed (trace st) (header_bytes (host_is_big A) ?h) @ ?data @ rest"
    using assms(2,6) rec by (auto simp: ready_def)
  obtain s where s: "recv_payload B (st\<lparr>comm := s, header := ?h\<rparr>) = Inr (RES_OK, st1)" "rx s = ?data @ rest"
    using header_arrives [OF assms(1) pre h(1)] .
  let ?st = "st\<lparr>comm := s, header := ?h\<rparr>"
  have ready: "ready tr ?st" using assms(2) by (simp add: ready_def)
  show thesis
  proof (cases x)
    case (Registers op b n q)
    then have q: "wf_ri q" "header_op (header ?st) \<in> {OP_COMPARE, OP_TESTEND, OP_SIGILL}" and data: "shown_data A x = Some (wire ord_B q)"
      using h(2) assms(3,5) by (auto simp: m.on_wire)
    have sz: "size (header ?st) = of_nat (sizeof_ri B)" "rx (comm ?st) = framed tr (wire ord_B q) @ rest"
      using h(3) s(2) data a.length_wire [OF q(1)] by simp_all
    obtain t where "st1 = ?st\<lparr>comm := t, ri_master := q\<rparr>" "rx t = rest" using registers_arrive [OF s(1) ready q(2,1) sz] .
    with Registers h(2) q(1) assms(2) show thesis
      by (intro that [where s = t and h = ?h and r = q and w = "other_memblock st"]) (auto simp: ready_def)
  next
    case (Memory y)
    then obtain bs where bs: "y = Some bs" "length bs = MEMBLOCKLEN" using assms(5) by auto
    then have ops: "header_op (header ?st) = OP_COMPAREMEM" "size (header ?st) = of_nat MEMBLOCKLEN" "rx (comm ?st) = framed tr bs @ rest"
      using h(2,3) s(2) Memory by auto
    obtain t where "st1 = ?st\<lparr>comm := t, other_memblock := bs\<rparr>" "rx t = rest" using memory_arrives [OF s(1) ready ops(1,2) bs(2) ops(3)] .
    with Memory bs h(2) assms(2) show thesis
      by (intro that [where s = t and h = ?h and r = "ri_master st" and w = bs]) (auto simp: ready_def)
  next
    case (Marker op)
    then have "header_op ?h \<in> {OP_SETMEMBLOCK, OP_GETMEMBLOCK, OP_SETUPBEGIN, OP_SETUPEND}" using h(2) assms(5) by auto
    with s(1) have "st1 = ?st" by (auto simp: recv_payload_def Let_def split: if_splits)
    with s(2) Marker assms(2) h(2) show thesis
      by (intro that [where s = s and h = ?h and r = "ri_master st" and w = "other_memblock st"]) (auto simp: ready_def)
  qed
qed

text \<open>After the last record there is nothing to take in.\<close>

lemma nothing_arrives:
  assumes "recv_register_info B st = Inr (RES_OK, st1)" "ready False st" "cut_short A wf_ri (rx (comm st))"
  shows False
proof -
  have st: "\<not> trace st" "has_sockets B" using assms(2) by (auto simp: ready_def)
  have "rx (comm st) \<noteq> []" using assms(1) st read_buffer_dry [of B 16 st] by (auto simp: recv_register_info_def)
  then obtain x p where x: "shown_wf wf_ri x" "shown_data A x \<noteq> None" "rx (comm st) = framed (trace st) (header_bytes (host_is_big A) (shown_header A x p)) @ []"
    using assms(3) st(1) by (auto simp: cut_short_def framed_def)
  note h = header_of_shown [OF x(1), of p]
  obtain s where s: "recv_payload B (st\<lparr>comm := s, header := shown_header A x p\<rparr>) = Inr (RES_OK, st1)" "rx s = []"
    using header_arrives [OF assms(1) _ x(3) h(1)] st(2) by blast
  have "header_op (shown_header A x p) \<in> {OP_COMPARE, OP_TESTEND, OP_SIGILL, OP_COMPAREMEM}" using x(1,2) h(2) by (cases x) auto
  then obtain n st2 y where r: "respond RES_OK (st\<lparr>comm := s, header := shown_header A x p\<rparr>) = Inr st2" "read_buffer B n st2 = Inr y"
    using s(1) by (auto simp: recv_payload_def Let_def split: if_splits)
  have "rx (comm st2) = []" "\<not> trace st2" using respond_rx [OF r(1)] s(2) st(1) by auto
  with r(2) st(2) read_buffer_dry [of B n st2] show False by (cases y) auto
qed

text \<open>A checkpoint of the apprentice that went well.\<close>

lemma checkpoint_parts:
  assumes "recv_and_compare_register_info B uc a (st\<lparr>signal_count := signal_count st + 1\<rparr>) = Inr (res, uc', st')" "res \<in> {RES_OK, RES_END}"
    and "shown_at B uc a st \<noteq> []"
  obtains r st1 st2 where "ri_init B uc a = Inr r" "\<not> (risuop_of B r = OP_SIGILL \<and> is_setup st)"
    "recv_register_info B (count_illegal (risuop_of B r) (st\<lparr>signal_count := signal_count st + 1, ri_apprentice := r\<rparr>)) = Inr (RES_OK, st1)"
    "compare_effect B (risuop_of B r) uc st1 = Inr (res, uc', st2)" "respond (if res = RES_OK then RES_OK else RES_END) st2 = Inr st'"
proof -
  obtain r where r: "ri_init B uc a = Inr r" using assms(1) by (auto simp: recv_and_compare_register_info_def)
  have act: "\<not> (risuop_of B r = OP_SIGILL \<and> is_setup st)" using assms(3) r by (auto simp: shown_at_def Let_def)
  show thesis using assms(1,2) r act that by (auto simp: recv_and_compare_register_info_def Let_def dest: recv_not_end split: if_splits)
qed

lemma checkpoint_agrees:
  assumes h: "recv_and_compare_register_info B uc a (st\<lparr>signal_count := signal_count st + 1\<rparr>) = Inr (res, uc', st')" "res \<in> {RES_OK, RES_END}"
    and st: "ready tr st" "shown_at B uc a st \<noteq> []" and "ord_A = ord_B"
    and x: "records A tr x rec" "shown_wf wf_ri x" "rx (comm st) = rec @ rest"
  shows "ready tr st' \<and> rx (comm st') = rest \<and> res = (if is_end x then RES_END else RES_OK) \<and>
    (\<exists>y. shown_at B uc a st = [y] \<and> agrees B x y)"
proof -
  from h st(2) obtain r st1 st2 where r: "ri_init B uc a = Inr r" "\<not> (risuop_of B r = OP_SIGILL \<and> is_setup st)"
    and c: "recv_register_info B (count_illegal (risuop_of B r) (st\<lparr>signal_count := signal_count st + 1, ri_apprentice := r\<rparr>)) = Inr (RES_OK, st1)"
      "compare_effect B (risuop_of B r) uc st1 = Inr (res, uc', st2)" "respond (if res = RES_OK then RES_OK else RES_END) st2 = Inr st'"
    by (rule checkpoint_parts)
  let ?op = "risuop_of B r" and ?st = "count_illegal (risuop_of B r) (st\<lparr>signal_count := signal_count st + 1, ri_apprentice := r\<rparr>)"
  have rd: "ready tr ?st" "rx (comm ?st) = rec @ rest" using st(1) x(3) by (simp_all add: ready_def)
  obtain s hd q w where w: "st1 = ?st\<lparr>comm := s, header := hd, ri_master := q, other_memblock := w\<rparr>" "rx s = rest" "ready tr st1"
    "header_op hd = shown_op x" "taken_in x q w"
    by (rule record_arrives [OF c(1) rd(1) assms(5) x(1,2) rd(2)])
  have f: "header st1 = hd" "ri_master st1 = q" "other_memblock st1 = w" "ri_apprentice st1 = r" "is_setup st1 = is_setup st"
    "signal_count st1 = signal_count st + 1" "memblock st1 = memblock st" "comm st1 = s"
    by (simp_all add: w(1))
  have k: "ready tr st2" "comm st2 = s"
    using compare_effect_keeps [OF c(2)] compare_effect_changes [OF c(2)] w(3) f(8) by (auto simp: ready_def)
  obtain s' where s': "st' = st2\<lparr>comm := s'\<rparr>" "rx s' = rx (comm st2)" using respond_rx [OF c(3)] by blast
  have "res = (if is_end x then RES_END else RES_OK) \<and> (\<exists>y. shown_at B uc a st = [y] \<and> agrees B x y)"
  proof (cases "?op \<in> {OP_COMPARE, OP_TESTEND, OP_SIGILL}")
    case True
    then have "compare_registers B ?op uc st1 = Inr (res, uc', st2)" using c(2) by (auto simp: compare_effect_def)
    note acc = compare_registers_accepts [OF this h(2), unfolded f w(4)]
    have sh: "shown_at B uc a st = [Registers ?op (is_setup st) (signal_count st + 1) r]" using True r by (auto simp: shown_at_def Let_def)
    obtain b n where "x = Registers ?op b n q" using acc w(5) True x(2) by (cases x) auto
    with acc sh show ?thesis by auto
  next
    case False
    note acc = compare_effect_accepts [OF c(2) h(2) False, unfolded f w(4)]
    show ?thesis
    proof (cases "?op = OP_COMPAREMEM")
      case True
      then obtain bs where bs: "x = Memory (Some bs)" using acc x(2) by (cases x) auto
      with True r(1) have "shown_at B uc a st = [Memory (map_option (\<lambda>p. mem_read B uc p MEMBLOCKLEN) (memblock st))]" by (simp add: shown_at_def)
      with acc True bs w(5) show ?thesis by auto
    next
      case mem: False
      then have "shown_at B uc a st = [Marker ?op]" using False r(1) by (simp add: shown_at_def)
      moreover have "x = Marker ?op" using conjunct1 [OF acc] x(2) False mem by (cases x) simp_all
      ultimately show ?thesis using conjunct2 [OF acc] by simp
    qed
  qed
  then show ?thesis using k w(2) s' by (auto simp: ready_def)
qed

lemma checkpoint_hidden:
  assumes "recv_and_compare_register_info B uc a (st\<lparr>signal_count := signal_count st + 1\<rparr>) = Inr (res, uc', st')" "shown_at B uc a st = []" "ready tr st"
  shows "ready tr st' \<and> comm st' = comm st \<and> res = RES_OK"
proof -
  obtain r where r: "ri_init B uc a = Inr r" using assms(1) by (auto simp: recv_and_compare_register_info_def)
  then have "risuop_of B r = OP_SIGILL" "is_setup st" using assms(2) shown_at_op [OF r, of st] by auto
  then show ?thesis using assms(1,3) r by (auto simp: recv_skips_setup ready_def)
qed

text \<open>Either nothing happens to the record, or its first item is used up and agrees with what the apprentice shows.\<close>

definition to_come :: "bool \<Rightarrow> 'ri shown list \<Rightarrow> byte list \<Rightarrow> byte list \<Rightarrow> bool" where
  "to_come tr xs bs rest \<longleftrightarrow>
     (\<exists>recs. bs = concat recs @ rest \<and> list_all2 (records A tr) xs recs) \<and> list_all (shown_wf wf_ri) xs \<and>
     (ends_once xs \<or> \<not> tr \<and> \<not> list_ex is_end xs \<and> cut_short A wf_ri rest)"

lemma apprentice_shows:
  assumes h: "recv_and_compare_register_info B uc a (st\<lparr>signal_count := signal_count st + 1\<rparr>) = Inr (res, uc', st')" "res \<in> {RES_OK, RES_END}"
    and st: "ready tr st" "to_come tr xs (rx (comm st)) rest" and ord: "ord_A = ord_B"
  obtains (hidden) "shown_at B uc a st = []" "ready tr st'" "rx (comm st') = rx (comm st)" "res = RES_OK"
  | (next_item) x y xs' where "shown_at B uc a st = [y]" "agrees B x y" "xs = x # xs'" "ready tr st'"
      "is_end x \<longrightarrow> xs' = [] \<and> rx (comm st') = rest" "\<not> is_end x \<longrightarrow> to_come tr xs' (rx (comm st')) rest"
      "res = (if is_end x then RES_END else RES_OK)"
proof (cases "shown_at B uc a st = []")
  case True
  then show thesis using checkpoint_hidden [OF h(1) True st(1)] by (intro hidden) auto
next
  case False
  obtain recs where recs: "rx (comm st) = concat recs @ rest" "list_all2 (records A tr) xs recs" "list_all (shown_wf wf_ri) xs"
    "ends_once xs \<or> \<not> tr \<and> \<not> list_ex is_end xs \<and> cut_short A wf_ri rest"
    using st(2) by (auto simp: to_come_def)
  show thesis
  proof (cases xs)
    case Nil
    then have cut: "\<not> tr" "cut_short A wf_ri (rx (comm st))" using recs by auto
    from h False obtain r st1 where "recv_register_info B (count_illegal (risuop_of B r) (st\<lparr>signal_count := signal_count st + 1, ri_apprentice := r\<rparr>)) = Inr (RES_OK, st1)"
      by (rule checkpoint_parts)
    then have False by (rule nothing_arrives) (use cut st(1) in \<open>simp_all add: ready_def\<close>)
    then show thesis ..
  next
    case (Cons x xs')
    then obtain rec recs' where x: "recs = rec # recs'" "records A tr x rec" "list_all2 (records A tr) xs' recs'" "shown_wf wf_ri x"
      using recs by (auto simp: list_all2_Cons1)
    have "rx (comm st) = rec @ concat recs' @ rest" using recs(1) x(1) by simp
    note c = checkpoint_agrees [OF h st(1) False ord x(2,4) this]
    have e: "xs' = [] \<and> recs' = []" if "is_end x" using that recs(4) Cons x(3) by auto
    have n: "to_come tr xs' (rx (comm st')) rest" if "\<not> is_end x"
      using that c recs(3,4) Cons x(3) by (auto simp: to_come_def)
    show thesis using c Cons e n by (auto intro: next_item)
  qed
qed

lemma success_agrees:
  assumes run: "presents B (apprentice_sigill B) cpu (Running uc st) ys (Stopped RES_END stE)" and ord: "ord_A = ord_B"
    and "ready tr st" "to_come tr xs (rx (comm st)) rest"
  shows "list_all2 (agrees B) xs ys \<and> ends_once xs \<and> rx (comm stE) = rest"
  using run assms(3-)
proof (induction "Running uc st" ys "Stopped RES_END stE :: ('vc, 'ri) config" arbitrary: uc st xs rule: presents.induct)
  case (signalled uc sig a uc1 st c ys)
  from signalled.hyps(2) show ?case
  proof (cases rule: step.cases)
    case (resumed sig' a' uc1' uc2 st')
    with signalled.hyps(1) have e: "sig' = sig" "a' = a" "uc1' = uc1" by simp_all
    obtain uc3 where h: "recv_and_compare_register_info B uc1 a (st\<lparr>signal_count := signal_count st + 1\<rparr>) = Inr (RES_OK, uc3, st')"
      using apprentice_sigill_resume [OF resumed(3)] unfolding e by blast
    have ok: "RES_OK \<in> {RES_OK, RES_END}" by simp
    show ?thesis
      using h ok signalled.prems ord
    proof (cases rule: apprentice_shows)
      case hidden
      then show ?thesis using signalled.hyps(4) [OF resumed(1) hidden(2)] signalled.prems(2) by simp
    next
      case (next_item x y xs')
      then show ?thesis using signalled.hyps(4) [OF resumed(1) next_item(4)] by (auto split: if_splits)
    qed
  next
    case (jumped sig' a' uc1' r st')
    with signalled.hyps(1) have e: "sig' = sig" "a' = a" "uc1' = uc1" by simp_all
    have y: "ys = []" "r = RES_END" "st' = stE" using signalled.hyps(3) jumped(1) by auto
    obtain uc3 st1 where h: "recv_and_compare_register_info B uc1 a (st\<lparr>signal_count := signal_count st + 1\<rparr>) = Inr (RES_END, uc3, st1)"
      "comm stE = comm st1"
      using apprentice_sigill_end [OF jumped(3) [unfolded y e]] by blast
    have ok: "RES_END \<in> {RES_OK, RES_END}" by simp
    show ?thesis
      using h(1) ok signalled.prems ord
    proof (cases rule: apprentice_shows)
      case (next_item x y xs')
      then show ?thesis using h(2) y(1) by (auto split: if_splits)
    qed simp
  qed (use signalled.hyps(3) in auto)
qed

text \<open>The two sides together: the apprentice reads what the master has written.\<close>

lemma both_ended_agree:
  assumes "\<And>u sig a u'. wf_uc u \<Longrightarrow> cpuM u = Signal sig a u' \<Longrightarrow> wf_uc u'" "\<not> swaps_header A" "ord_A = ord_B"
    and "presents A (master_sigill A) cpuM (Running ucM stM) xs (Stopped RES_END stF)" "wf_uc ucM" "trace stM = tr" "linked A stM" "Memory None \<notin> set xs"
    and "presents B (apprentice_sigill B) cpuA (Running ucA stA) ys (Stopped RES_END stE)" "ready tr stA"
    and "tx (comm stM) = []" "rx (comm stA) = tx (comm stF)"
  shows "list_all2 (agrees B) xs ys \<and> rx (comm stE) = []"
proof -
  have "\<exists>xs' recs rest. tx (comm stF) = tx (comm stM) @ concat recs @ rest \<and> list_all2 (records A tr) xs' recs \<and> list_all (shown_wf wf_ri) xs' \<and>
      (xs' = xs \<and> rest = [] \<and> ends_once xs \<or> \<not> tr \<and> \<not> list_ex is_end xs' \<and> cut_short A wf_ri rest)"
    by (rule m.master_records [OF _ assms(2,4-8)]) (use assms(1) in blast)
  then obtain xs' rest where x: "to_come tr xs' (rx (comm stA)) rest" "xs' = xs \<and> rest = [] \<or> \<not> list_ex is_end xs'"
    using assms(11,12) by (auto simp: to_come_def)
  have ok: "list_all2 (agrees B) xs' ys" "ends_once xs'" "rx (comm stE) = rest" using success_agrees [OF assms(9,3,10) x(1)] by blast+
  have "ends_once zs \<Longrightarrow> list_ex is_end zs" for zs :: "'ri shown list" by (induction zs) (auto split: if_splits)
  with ok x(2) show ?thesis by auto
qed

end

end
