(* ===== verification/Verdict.thy ===== *)
theory Verdict
  imports Program Session_Spec Agreement
begin

text \<open>
  What it means that both sides of the PowerPC program end well, through a trace file or over a socket. The two runs may be on
  different platforms and processors, say a real machine and the emulator on a host of the other byte order.
\<close>

section \<open>PowerPC images on the wire\<close>

text \<open>The order in which the words of an image are written: DingusPPC always swaps, whatever the order of its host.\<close>

definition wire_order :: "ppc_env \<Rightarrow> bool" where
  "wire_order env = (if platform env = RISU_DPPC then \<not> host_big_endian env else host_big_endian env)"

lemma wire_order_loaded [simp]: "wire_order (loaded_env M addr len) = wire_order (base_env M)"
  by (simp add: wire_order_def loaded_env_def)

interpretation ppc_wire: wire_backend "ppc_arch env opts lem" wf_reginfo wf_ctx reginfo_bytes "wire_order env" for env opts lem
  by unfold_locales (simp add: reginfo_host_to_arch_def wire_order_def reginfo_bytes_swap)

interpretation ppc_sides: two_sides "ppc_arch env opts lem" "ppc_arch env' opts' lem'" wf_reginfo wf_ctx wf_ctx reginfo_bytes
    "wire_order env" "wire_order env'"
  for env opts lem env' opts' lem'
  by unfold_locales simp

section \<open>Exit status 0\<close>

lemma apprentice_success: "apprentice A res st = Inr (report, EXIT_SUCCESS) \<Longrightarrow> res = RES_END"
  by (cases res) (auto simp: apprentice_def Let_def EXIT_SUCCESS_def EXIT_FAILURE_def)

lemma apprentice_ended:
  assumes "ppc_run M F Z next_opt sys calls g x files (out1, EXIT_SUCCESS, files')"
    and "risu_main F next_opt sys True g x = Some (out, Inr (Starts False (Trace_File name False) addr len, g', opts))"
  obtains uc stE where "image_entry M addr len opts = Inr uc"
    "runs (apprentice_sigill (loaded_arch M addr len opts)) (cpu_of M)
       (Running uc (initial_risu True (stream_of F Z files (Trace_File name False)) calls)) (Stopped RES_END stE)"
  using assms(1)
proof (cases rule: ppc_run.cases)
  case (apprentice_stopped out2 chan addr2 len2 g2 opts2 uc S res st report)
  with assms(2) have e: "out2 = out" "chan = Trace_File name False" "addr2 = addr" "len2 = len" "opts2 = opts" by simp_all
  note m = apprentice_stopped [unfolded e]
  have "res = RES_END" using apprentice_success m by blast
  then show thesis using m handler_in_installed [OF m(5)] by (intro that [of uc st]) (simp_all add: is_trace_def)
qed (use assms(2) in \<open>auto simp: apprentice_def EXIT_SUCCESS_def EXIT_FAILURE_def\<close>)

text \<open>
  C1: exit status 0 means agreement. If a run as a master recorded a trace and ended with status 0, and a run as an apprentice on
  that trace, on the same or on another machine with the same order of images on the wire, ended with status 0, then both have
  shown the same number of things, and they agree one by one: the same operations, register images that the apprentice's
  comparison accepts (outside of set-up phases), and identical memory blocks. The master must be one that does not swap its
  header, and not ask for a memory comparison before it has set the memory block.
\<close>

theorem success_means_agreement:
  assumes "\<And>u sig a u'. wf_ctx u \<Longrightarrow> cpu_of M u = Signal sig a u' \<Longrightarrow> wf_ctx u'" and "wf_ctx (boot_ctx M)"
    and "endian_macro M \<noteq> get_arch_big_endian (base_env M)" and "wire_order (base_env M) = wire_order (base_env M2)"
    and "with_zlib F2 = with_zlib F" and "\<And>bs. with_zlib F \<Longrightarrow> gz_content Z (gz_closed Z bs) = bs"
    and "risu_main F next_opt sys True g x = Some (out, Inr (Starts True (Trace_File name True) addr len, g1, opts))"
    and "risu_main F2 next_opt2 sys2 True g2 x2 = Some (out2, Inr (Starts False (Trace_File name False) addr2 len2, g3, opts2))"
    and "ppc_run M F Z next_opt sys calls g x files (said, EXIT_SUCCESS, files')"
    and "ppc_run M2 F2 Z next_opt2 sys2 calls2 g2 x2 files' (said2, EXIT_SUCCESS, files'')"
  shows "\<exists>uc uc2 st st2 xs ys.
    image_entry M addr len opts = Inr uc \<and> image_entry M2 addr2 len2 opts2 = Inr uc2 \<and>
    presents (loaded_arch M addr len opts) (master_sigill (loaded_arch M addr len opts)) (cpu_of M)
      (Running uc (initial_risu True [] calls)) xs (Stopped RES_END st) \<and>
    presents (loaded_arch M2 addr2 len2 opts2) (apprentice_sigill (loaded_arch M2 addr2 len2 opts2)) (cpu_of M2)
      (Running uc2 (initial_risu True (stream_of F2 Z files' (Trace_File name False)) calls2)) ys (Stopped RES_END st2) \<and>
    (Memory None \<notin> set xs \<longrightarrow> list_all2 (agrees (loaded_arch M2 addr2 len2 opts2)) xs ys \<and> rx (comm st2) = [])"
proof -
  let ?A = "loaded_arch M addr len opts" and ?B = "loaded_arch M2 addr2 len2 opts2" and ?T = "Trace_File name"
  obtain uc st where m: "image_entry M addr len opts = Inr uc"
    "runs (master_sigill ?A) (cpu_of M) (Running uc (initial_risu True [] calls)) (Stopped RES_END st)"
    "files' = files_after F Z (?T True) (close_comm (with_zlib F) True (?T True)) (tx (comm st)) files"
    using successful_master [OF assms(9,7)] .
  have reread: "stream_of F Z files' (?T False) = tx (comm st)"
    unfolding m(3) by (rule trace_file_read_back) (use assms(6) in blast)
  have same: "stream_of F2 Z files' (?T False) = tx (comm st)" using reread assms(5) by (simp add: stream_of_def)
  obtain uc2 st2 where a: "image_entry M2 addr2 len2 opts2 = Inr uc2"
    "runs (apprentice_sigill ?B) (cpu_of M2) (Running uc2 (initial_risu True (tx (comm st)) calls2)) (Stopped RES_END st2)"
    using apprentice_ended [OF assms(10,8)] unfolding same .
  obtain xs ys where p: "presents ?A (master_sigill ?A) (cpu_of M) (Running uc (initial_risu True [] calls)) xs (Stopped RES_END st)"
    "presents ?B (apprentice_sigill ?B) (cpu_of M2) (Running uc2 (initial_risu True (tx (comm st)) calls2)) ys (Stopped RES_END st2)"
    using runs_presents [OF m(2), of ?A] runs_presents [OF a(2), of ?B] by blast
  have "list_all2 (agrees ?B) xs ys \<and> rx (comm st2) = []" if "Memory None \<notin> set xs"
    unfolding loaded_arch_def
  proof (rule ppc_sides.both_ended_agree [OF _ _ _ p(1) [unfolded loaded_arch_def] _ _ _ that p(2) [unfolded loaded_arch_def], where tr = True])
    show "\<not> swaps_header (ppc_arch (loaded_env M addr len) opts (endian_macro M))"
      using assms(3) by (simp add: ppc_swaps loaded_env_def get_arch_big_endian_def)
    show "wire_order (loaded_env M addr len) = wire_order (loaded_env M2 addr2 len2)"
      using assms(4) by simp
    show "ppc_sides.ready (loaded_env M2 addr2 len2) opts2 (endian_macro M2) True (initial_risu True (tx (comm st)) calls2)" by (simp add: ppc_sides.ready_def wf_zero_reginfo)
  qed (use assms(1) image_entry_wf [OF m(1) assms(2)] in \<open>auto simp: linked_def\<close>)
  with m(1) a(1) p show ?thesis unfolding same by blast
qed

text \<open>The image of the examples shows its registers and ends.\<close>

lemma end_shows:
  assumes "presents (ppc_arch sample_env opts lem) H (\<lambda>_. Signal SIGILL 0 end_ctx) (Running uc st) xs (Stopped r st')"
  shows "xs \<noteq> [] \<and> Memory None \<notin> set xs"
proof -
  let ?A = "ppc_arch sample_env opts lem" and ?cpu = "\<lambda>_. Signal SIGILL 0 end_ctx"
  obtain q where "reginfo_init sample_env end_ctx 0 = Inr q" using end_init by blast
  then have sh: "\<exists>b n. shown_at ?A end_ctx 0 s = [Registers OP_TESTEND b n q]" for s
    using end_op [of 0 q] by (simp add: shown_at_def)
  have "Memory None \<notin> set xs" if "presents ?A H ?cpu c xs d" for c d xs
    using that
  proof (induction rule: presents.induct)
    case (signalled u sig a u1 s c xs d)
    then show ?case using sh [of s] by auto
  qed simp
  moreover have "xs \<noteq> []" using assms
  proof (cases rule: presents.cases)
    case signalled
    then show ?thesis using sh [of st] by auto
  qed
  ultimately show ?thesis using assms by blast
qed

lemma sample_replay:
  "\<exists>said files' said2 n. ppc_run sample_machine sample_front sample_zlib (getopt_long False) sample_os (replicate 2 (Xfer MEMBLOCKLEN))
       (example_state [''risu'', ''--master'', ''-tout'', ''image'']) x files (said, EXIT_SUCCESS, files') \<and>
     ppc_run sample_machine sample_front sample_zlib (getopt_long False) sample_os (replicate n (Xfer MEMBLOCKLEN))
       (example_state [''risu'', ''-tout'', ''image'']) x files' (said2, EXIT_SUCCESS, files')"
proof -
  let ?A = "loaded_arch sample_machine 0x1000 64 x" and ?a = "replicate 2 (Xfer MEMBLOCKLEN)"
  obtain said files' where rec: "ppc_run sample_machine sample_front sample_zlib (getopt_long False) sample_os ?a
      (example_state [''risu'', ''--master'', ''-tout'', ''image'']) x files (said, EXIT_SUCCESS, files')"
    using sample_recording by blast
  obtain out g1 where m: "risu_main sample_front (getopt_long False) sample_os True (example_state [''risu'', ''--master'', ''-tout'', ''image'']) x =
      Some (out, Inr (Starts True (Trace_File ''out'' True) 0x1000 64, g1, x))" using sample_commands(1) by blast
  obtain out2 g3 where a: "risu_main sample_front (getopt_long False) sample_os True (example_state [''risu'', ''-tout'', ''image'']) x =
      Some (out2, Inr (Starts False (Trace_File ''out'' False) 0x1000 64, g3, x))" using sample_commands(2) by blast
  obtain uc st S where u: "image_entry sample_machine 0x1000 64 x = Inr uc"
    "runs (master_sigill ?A) (cpu_of sample_machine) (Running uc (initial_risu True [] ?a)) (Stopped RES_END st)"
    "files' = files_after sample_front sample_zlib (Trace_File ''out'' True) (close_comm (with_zlib sample_front) True (Trace_File ''out'' True)) (tx (comm st)) files"
    "set_sigill_handler (no_signal sample_front) (sigaction_ok sample_machine) (master_sigill ?A) no_handlers = Inr S"
    using successful_master [OF rec m] by metis
  have reread: "stream_of sample_front sample_zlib files' (Trace_File ''out'' False) = tx (comm st)"
    unfolding u(3) by (rule trace_file_read_back) (simp add: sample_zlib_def)
  have "\<exists>n. \<forall>calls2. roomy n calls2 \<longrightarrow>
      (\<exists>stE. runs (apprentice_sigill ?A) (cpu_of sample_machine) (Running uc (initial_risu True (tx (comm st)) calls2)) (Stopped RES_END stE) \<and>
         print_stats stE = print_stats st)"
  proof (rule session_replays [OF _ _ _ u(1) _ u(2)])
    show "endian_macro sample_machine \<noteq> get_arch_big_endian (base_env sample_machine)"
      using sample_big_endian by (simp add: sample_machine_def)
  qed (auto simp: sample_machine_simps wf_end_ctx dest: end_op)
  then obtain n stE where "runs (apprentice_sigill ?A) (cpu_of sample_machine) (Running uc (initial_risu True (tx (comm st)) (replicate n (Xfer MEMBLOCKLEN)))) (Stopped RES_END stE)"
    using roomy_replicate by blast
  from successful_apprentice [OF a u(1,4) reread this] rec show ?thesis by blast
qed

theorem success_means_agreement_witness:
  "\<exists>xs ys uc uc2 n stream st st2.
     presents (loaded_arch sample_machine 0x1000 64 (default_opts APPLE)) (master_sigill (loaded_arch sample_machine 0x1000 64 (default_opts APPLE)))
       (cpu_of sample_machine) (Running uc (initial_risu True [] (replicate 2 (Xfer MEMBLOCKLEN)))) xs (Stopped RES_END st) \<and>
     presents (loaded_arch sample_machine 0x1000 64 (default_opts APPLE)) (apprentice_sigill (loaded_arch sample_machine 0x1000 64 (default_opts APPLE)))
       (cpu_of sample_machine) (Running uc2 (initial_risu True stream (replicate n (Xfer MEMBLOCKLEN)))) ys (Stopped RES_END st2) \<and>
     xs \<noteq> [] \<and> list_all2 (agrees (loaded_arch sample_machine 0x1000 64 (default_opts APPLE))) xs ys"
proof -
  let ?o = "default_opts APPLE" and ?a = "replicate 2 (Xfer MEMBLOCKLEN)"
  let ?A = "loaded_arch sample_machine 0x1000 64 ?o"
  obtain said files' said2 n where r: "ppc_run sample_machine sample_front sample_zlib (getopt_long False) sample_os ?a
       (example_state [''risu'', ''--master'', ''-tout'', ''image'']) ?o (\<lambda>_. []) (said, EXIT_SUCCESS, files')"
     "ppc_run sample_machine sample_front sample_zlib (getopt_long False) sample_os (replicate n (Xfer MEMBLOCKLEN))
       (example_state [''risu'', ''-tout'', ''image'']) ?o files' (said2, EXIT_SUCCESS, files')"
    using sample_replay by blast
  obtain out g1 where m: "risu_main sample_front (getopt_long False) sample_os True (example_state [''risu'', ''--master'', ''-tout'', ''image'']) ?o =
      Some (out, Inr (Starts True (Trace_File ''out'' True) 0x1000 64, g1, ?o))" using sample_commands(1) by blast
  obtain out2 g3 where a: "risu_main sample_front (getopt_long False) sample_os True (example_state [''risu'', ''-tout'', ''image'']) ?o =
      Some (out2, Inr (Starts False (Trace_File ''out'' False) 0x1000 64, g3, ?o))" using sample_commands(2) by blast
  have "\<exists>uc uc2 st st2 xs ys.
    image_entry sample_machine 0x1000 64 ?o = Inr uc \<and> image_entry sample_machine 0x1000 64 ?o = Inr uc2 \<and>
    presents ?A (master_sigill ?A) (cpu_of sample_machine) (Running uc (initial_risu True [] ?a)) xs (Stopped RES_END st) \<and>
    presents ?A (apprentice_sigill ?A) (cpu_of sample_machine) (Running uc2 (initial_risu True (stream_of sample_front sample_zlib files' (Trace_File ''out'' False)) (replicate n (Xfer MEMBLOCKLEN)))) ys (Stopped RES_END st2) \<and>
    (Memory None \<notin> set xs \<longrightarrow> list_all2 (agrees ?A) xs ys \<and> rx (comm st2) = [])"
  proof (rule success_means_agreement [OF _ _ _ refl refl _ m a r])
    show "gz_content sample_zlib (gz_closed sample_zlib bs) = bs" for bs by (simp add: sample_zlib_def)
    show "endian_macro sample_machine \<noteq> get_arch_big_endian (base_env sample_machine)"
      using sample_big_endian by (simp add: sample_machine_def)
  qed (auto simp: sample_machine_simps wf_end_ctx)
  then obtain uc uc2 st st2 xs ys where p:
    "presents ?A (master_sigill ?A) (cpu_of sample_machine) (Running uc (initial_risu True [] ?a)) xs (Stopped RES_END st)"
    "presents ?A (apprentice_sigill ?A) (cpu_of sample_machine) (Running uc2 (initial_risu True (stream_of sample_front sample_zlib files' (Trace_File ''out'' False)) (replicate n (Xfer MEMBLOCKLEN)))) ys (Stopped RES_END st2)"
    "Memory None \<notin> set xs \<longrightarrow> list_all2 (agrees ?A) xs ys" by blast
  have cpu: "cpu_of sample_machine = (\<lambda>_. Signal SIGILL 0 end_ctx)" by (simp add: sample_machine_def)
  have "xs \<noteq> [] \<and> Memory None \<notin> set xs" by (rule end_shows [OF p(1) [unfolded sample_machine_simps(5) cpu]])
  with p show ?thesis by blast
qed

section \<open>The end of a session over a socket\<close>

text \<open>
  C2: success over a socket means agreement. A master that ended, whatever replies it was given, and an apprentice on the same
  or on another machine that received exactly what the master has sent and came to the end of the test, have shown the same
  number of things and agree on them one by one. The apprentice's reads may be cut into pieces and interrupted at will; the
  master's writes must not be short, its header not swapped, and the memory block set before it is compared. The end of the master alone does not show it, because a mismatch ends it as well.
\<close>

theorem socket_success_means_agreement:
  assumes "\<And>u sig a u'. wf_ctx u \<Longrightarrow> cpuM u = Signal sig a u' \<Longrightarrow> wf_ctx u'" and "wf_ctx ucM"
    and "platform env \<noteq> RISU_MACOS9" "platform env2 \<noteq> RISU_MACOS9" "lem \<noteq> get_arch_big_endian env" "wire_order env = wire_order env2"
    and "whole calls" "Memory None \<notin> set xs"
    and "presents (ppc_arch env opts lem) (master_sigill (ppc_arch env opts lem)) cpuM
      (Running ucM (initial_risu False heard calls)) xs (Stopped RES_END stM)"
    and "presents (ppc_arch env2 opts2 lem2) (apprentice_sigill (ppc_arch env2 opts2 lem2)) cpuA
      (Running ucA (initial_risu False (tx (comm stM)) calls2)) ys (Stopped RES_END stA)"
  shows "list_all2 (agrees (ppc_arch env2 opts2 lem2)) xs ys \<and> rx (comm stA) = []"
proof (rule ppc_sides.both_ended_agree [OF _ _ assms(6) assms(9,2) _ _ assms(8,10), where tr = False])
  show "\<not> swaps_header (ppc_arch env opts lem)" using assms(5) by (simp add: ppc_swaps)
  show "linked (ppc_arch env opts lem) (initial_risu False heard calls)" using assms(3,7) by (simp add: linked_def)
  show "ppc_sides.ready env2 opts2 lem2 False (initial_risu False (tx (comm stM)) calls2)"
    using assms(4) by (simp add: ppc_sides.ready_def wf_zero_reginfo)
qed (use assms(1) in auto)

text \<open>The image of the examples over a socket.\<close>

lemma end_session:
  "\<exists>heard stM stA.
     runs (master_sigill (ppc_arch sample_env opts False)) (\<lambda>_. Signal SIGILL 0 end_ctx)
       (Running end_ctx (initial_risu False heard (replicate 4 (Xfer (MEMBLOCKLEN + 4))))) (Stopped RES_END stM) \<and>
     runs (apprentice_sigill (ppc_arch sample_env opts False)) (\<lambda>_. Signal SIGILL 0 end_ctx)
       (Running end_ctx (initial_risu False (tx (comm stM)) (replicate 6 (Xfer (MEMBLOCKLEN + 4))))) (Stopped RES_END stA)"
proof -
  let ?A = "ppc_arch sample_env opts False" and ?v = "visit_state (initial_risu False [] [])" and ?cpu = "\<lambda>_. Signal SIGILL 0 end_ctx"
  let ?tr = "[(end_ctx, 0, ?v, True)]"
  let ?replies = "concat (map (replies ?A) ?tr)" and ?says = "concat (map (says ?A) ?tr)"
  obtain v' where c: "completes ?A ?cpu end_ctx ?v ?tr v'" using end_completes [of opts False ?v] by blast
  have v: "visit_state (initial_risu False b p) = ?v" for b p by (simp add: visit_state_def)
  let ?M = "initial_risu False ?replies (replicate 4 (Xfer (MEMBLOCKLEN + 4)))" and ?S = "initial_risu False ?says (replicate 6 (Xfer (MEMBLOCKLEN + 4)))"
  have env: "platform sample_env \<noteq> RISU_MACOS9" "False \<noteq> get_arch_big_endian sample_env" by (simp_all add: sample_env_def get_arch_big_endian_def)
  have M: "socket_master ?A ?M" "ample (4 * length ?tr) (plan (comm ?M))" "rx (comm ?M) = ?replies @ []"
    using env ample_replicate [of 4] by (simp_all add: socket_master_def ppc_swaps)
  have S: "socket_apprentice ?A wf_reginfo ?S" "ample (6 * length ?tr) (plan (comm ?S))" "rx (comm ?S) = ?says @ []"
    using env ample_replicate [of 6] by (simp_all add: socket_apprentice_def wf_zero_reginfo)
  obtain stM where m: "runs (master_sigill ?A) ?cpu (Running end_ctx ?M) (Stopped RES_END stM)" "tx (comm stM) = ?says"
    using ppc_master.session_ends [OF c _ wf_end_ctx M(1) v M(3,2)] wf_end_ctx by auto
  obtain stA where "runs (apprentice_sigill ?A) ?cpu (Running end_ctx ?S) (Stopped RES_END stA)"
    using ppc_apprentice.session_ends [OF c _ wf_end_ctx S(1) v S(3,2)] wf_end_ctx by auto
  with m(1) show ?thesis unfolding m(2) [symmetric] by blast
qed

theorem socket_success_means_agreement_witness:
  "\<exists>xs ys heard stM stA.
     presents (ppc_arch sample_env (default_opts APPLE) False) (master_sigill (ppc_arch sample_env (default_opts APPLE) False)) (\<lambda>_. Signal SIGILL 0 end_ctx)
       (Running end_ctx (initial_risu False heard (replicate 4 (Xfer (MEMBLOCKLEN + 4))))) xs (Stopped RES_END stM) \<and>
     presents (ppc_arch sample_env (default_opts APPLE) False) (apprentice_sigill (ppc_arch sample_env (default_opts APPLE) False)) (\<lambda>_. Signal SIGILL 0 end_ctx)
       (Running end_ctx (initial_risu False (tx (comm stM)) (replicate 6 (Xfer (MEMBLOCKLEN + 4))))) ys (Stopped RES_END stA) \<and>
     xs \<noteq> [] \<and> list_all2 (agrees (ppc_arch sample_env (default_opts APPLE) False)) xs ys"
proof -
  let ?A = "ppc_arch sample_env (default_opts APPLE) False" and ?cpu = "\<lambda>_. Signal SIGILL 0 end_ctx"
  obtain heard stM stA where r: "runs (master_sigill ?A) ?cpu (Running end_ctx (initial_risu False heard (replicate 4 (Xfer (MEMBLOCKLEN + 4))))) (Stopped RES_END stM)"
    "runs (apprentice_sigill ?A) ?cpu (Running end_ctx (initial_risu False (tx (comm stM)) (replicate 6 (Xfer (MEMBLOCKLEN + 4))))) (Stopped RES_END stA)"
    using end_session [of "default_opts APPLE"] by blast
  obtain xs ys where p: "presents ?A (master_sigill ?A) ?cpu (Running end_ctx (initial_risu False heard (replicate 4 (Xfer (MEMBLOCKLEN + 4))))) xs (Stopped RES_END stM)"
    "presents ?A (apprentice_sigill ?A) ?cpu (Running end_ctx (initial_risu False (tx (comm stM)) (replicate 6 (Xfer (MEMBLOCKLEN + 4))))) ys (Stopped RES_END stA)"
    using runs_presents [OF r(1), of ?A] runs_presents [OF r(2), of ?A] by blast
  have xs: "xs \<noteq> [] \<and> Memory None \<notin> set xs" by (rule end_shows [OF p(1)])
  have env: "platform sample_env \<noteq> RISU_MACOS9" "False \<noteq> get_arch_big_endian sample_env" by (simp_all add: sample_env_def get_arch_big_endian_def)
  have "list_all2 (agrees ?A) xs ys"
    using socket_success_means_agreement [OF _ wf_end_ctx env(1) env(1) env(2) refl whole_replicate _ p] xs wf_end_ctx by auto
  with p xs show ?thesis by blast
qed

end
