(* ===== verification/Spec2Isabelle.thy ===== *)
theory Spec2Isabelle
  imports Endian Comms PPC_Stack Fronts Verdict
begin

text \<open>
  RISU compares two implementations of an instruction set: a \<^emph>\<open>master\<close> runs a test image and, at every
  checkpoint (a designated undefined instruction), sends its registers to an \<^emph>\<open>apprentice\<close> that runs the
  same image elsewhere, over a socket or through a trace file; the apprentice stops at the first
  difference. PowerPC is the one architecture whose back end has all functions this version of the
  harness calls, so the sessions are about it; the back ends for ARM, AArch64, i386, LoongArch, m68k and
  s390x are modelled by themselves, with the command line options they add.

  \<^bold>\<open>Parts of the program and the theories that model them.\<close>

  \<^item> \<^verbatim>\<open>Risu_Prelude\<close>: machine integers, the bytes of a value in memory for either byte order, the ways in
    which a C function does not return (\<open>fault\<close>: exit, abort, access outside of an object, undefined
    arithmetic, blocked in a system call), sequencing of such calls (\<open>andThen\<close>), and the interface locale
    \<open>struct_layout\<close> (fixed-size encodings), interpreted for the trace header and the register image.
  \<^item> \<^verbatim>\<open>Endian\<close> (\<^verbatim>\<open>src/endianswap.h\<close>): the byte swapping macros, built-in and portable.
  \<^item> \<^verbatim>\<open>Risu_Types\<close> (\<^verbatim>\<open>src/risu.h\<close>): operations, results, magic number, trace header.
  \<^item> \<^verbatim>\<open>Comms\<close> (\<^verbatim>\<open>src/comms.c\<close>): the socket layer. A descriptor is a record of pending bytes, bytes written,
    \<^verbatim>\<open>errno\<close> and the outcomes of the system calls to come, so that short transfers, interruptions and the
    end of the stream are all histories of the model. The retry loops recurse on the history. A \<^verbatim>\<open>read\<close> with
    a negative count, converted to \<^verbatim>\<open>size_t\<close>, fails as the systems have it.
  \<^item> \<^verbatim>\<open>PPC_Float\<close>, \<^verbatim>\<open>PPC_Reginfo\<close>, \<^verbatim>\<open>PPC_FpRules\<close>, \<^verbatim>\<open>PPC_Compare\<close>, \<^verbatim>\<open>PPC_Dump\<close> (\<^verbatim>\<open>src/risu_ppc64.c\<close>,
    \<^verbatim>\<open>src/risu_reginfo_ppc64.c\<close>, \<^verbatim>\<open>src/risu_reginfo_ppc64.h\<close>): floating point helpers; options, register image
    (\<open>reginfo\<close>), machine context (\<open>ppc_ctx\<close>), capture, restore and byte layout; the rules that excuse
    differing floating point registers, one definition per family of options; \<^verbatim>\<open>reginfo_is_eq\<close>, which
    returns its verdict and the apprentice's image it has modified; the dumps as strings. Conditions are
    evaluated from left to right, because divisions and \<^verbatim>\<open>ABS\<close> are undefined for some operands.
  \<^item> \<^verbatim>\<open>Harness\<close> (\<^verbatim>\<open>src/risu.c\<close>): the static variables as the record \<open>risu\<close>; the functions of the back end as
    the record \<open>arch\<close>, an argument of every definition; header, transport, \<^verbatim>\<open>send_register_info\<close>,
    \<^verbatim>\<open>recv_register_info\<close>, \<^verbatim>\<open>recv_and_compare_register_info\<close> and the signal handlers, which either resume
    the image or leave by \<^verbatim>\<open>siglongjmp\<close>. The locale \<open>arch_backend\<close> states what the harness relies on.
  \<^item> \<^verbatim>\<open>Session\<close> (\<^verbatim>\<open>src/risu.c\<close>): the step relation of a run between signals, for an arbitrary processor
    given as a function, and the reports of \<^verbatim>\<open>master\<close> and \<^verbatim>\<open>apprentice\<close>.
  \<^item> \<^verbatim>\<open>Text_Output\<close>, \<^verbatim>\<open>C_Strtol\<close>: the \<^verbatim>\<open>printf\<close> and \<^verbatim>\<open>strtoul\<close> conversions used. \<^verbatim>\<open>PPC_Backend\<close>: the PowerPC
    functions as an \<open>arch\<close>, the interpretation of \<open>arch_backend\<close> on them, and the properties of a session.
  \<^item> \<^verbatim>\<open>Socket_Session\<close>: a checkpoint over a socket, both sides together. The bytes of a record on the wire
    (\<open>record_frames\<close>) and of the replies to it (\<open>answers\<close>) are defined, and each side is shown to produce
    the one from the other.
  \<^item> \<^verbatim>\<open>Session_Spec\<close>: the session as a specification (\<open>visit\<close>, \<open>completes\<close>): what the checkpoints of an
    image do to the memory block, the set-up phase and the counters, without registers or bytes. The locale
    \<open>session_side\<close> is the contract of a handler that implements it; both handlers are interpretations.
  \<^item> \<^verbatim>\<open>PPC_Start\<close> (\<^verbatim>\<open>src/risu_reginfo_ppc64.c\<close>): \<^verbatim>\<open>arch_init\<close> and \<^verbatim>\<open>do_image\<close>, with the calls to the emulator as a list.
    \<^verbatim>\<open>PPC_Stack\<close>: the build with \<^verbatim>\<open>SAVESTACK\<close>, a second interpretation of \<open>arch_backend\<close> and \<open>session_side\<close>.
  \<^item> \<^verbatim>\<open>Connect\<close> (\<^verbatim>\<open>src/comms.c\<close>): how either side gets its connection, over the answers of the network. \<^verbatim>\<open>Entry\<close>
    (\<^verbatim>\<open>src/risu.c\<close>, \<^verbatim>\<open>src/risu_ppc64.c\<close>): how the handlers are installed, and the entry points of DingusPPC and
    Mac OS 9; a run of the handler that was installed is a run as \<^verbatim>\<open>Session\<close> has it.
  \<^item> \<^verbatim>\<open>Getopt\<close> (\<^verbatim>\<open>src/compat/getopt.c\<close>): the option parser, with its static variables as a record and the
    argument vector as a list that it permutes; the reference is a parser on immutable lists (\<open>parse\<close>).
  \<^item> \<^verbatim>\<open>Risu_Main\<close> (\<^verbatim>\<open>src/risu.c\<close>): \<^verbatim>\<open>usage\<close>, \<^verbatim>\<open>setup_options\<close>, \<^verbatim>\<open>load_image\<close> and \<^verbatim>\<open>risu_main\<close> up to the start of a session;
    the files and the mapping that the operating system provides are parameters.
  \<^item> \<^verbatim>\<open>Argfile\<close>, \<^verbatim>\<open>Console\<close> (\<^verbatim>\<open>src/risu_main.c\<close>): the splitter that turns a line into an argument vector
    inside the buffer it reads, against a lexer on immutable text; the console of Mac OS 9 and \<^verbatim>\<open>main\<close>.
  \<^item> \<^verbatim>\<open>Program\<close> (\<^verbatim>\<open>src/risu.c\<close>): a run of the PowerPC program from its command line to its exit status (\<open>ppc_run\<close>), with
    \<^verbatim>\<open>close_comm\<close>, \<^verbatim>\<open>unload_image\<close> and the files that trace files are, compressed where the build has zlib.
  \<^item> \<^verbatim>\<open>Transport\<close> (\<^verbatim>\<open>src/risu.c\<close>, \<^verbatim>\<open>src/comms.c\<close>): what a trace file and a socket have in common for calls that may fail: what
    was written is on the stream (\<open>framed\<close>), what was read was next on it. \<^verbatim>\<open>Agreement\<close> (\<^verbatim>\<open>src/risu.c\<close>): what a run shows
    at its checkpoints (\<open>shown\<close>, \<open>presents\<close>: registers, memory block or a bare operation), and when two runs agree on it.
    The locale \<open>wire_backend\<close> extends \<open>arch_backend\<close> by the bytes of an image; \<open>two_sides\<close> is a master and an apprentice,
    possibly with different back ends, that share these bytes. \<^verbatim>\<open>Verdict\<close> interprets both for PowerPC on any two
    platforms and states what success means.
  \<^item> \<^verbatim>\<open>Reg_Compare\<close>: what the other back ends share. The locale \<open>register_comparison\<close> states that a comparison
    accepts exactly when a visible and a hidden part of two images agree and that the report is empty exactly
    when the visible parts do; \<open>complete_comparison\<close> is the case without a hidden part.
  \<^item> \<^verbatim>\<open>Arch_Arm\<close>, \<^verbatim>\<open>Arch_AArch64\<close>, \<^verbatim>\<open>Arch_I386\<close>, \<^verbatim>\<open>Arch_Loongarch64\<close>, \<^verbatim>\<open>Arch_M68k\<close>, \<^verbatim>\<open>Arch_S390x\<close> (\<^verbatim>\<open>src/risu_\<close>\<open>arch\<close>\<^verbatim>\<open>.c\<close>,
    \<^verbatim>\<open>src/risu_reginfo_\<close>\<open>arch\<close>\<^verbatim>\<open>.c\<close> and \<^verbatim>\<open>.h\<close>): context access, images, update of the context where there is one,
    comparison, dumps and options; each interprets one of the two locales. Constants and layouts of system
    headers (SVE macros, extended contexts, places of registers, \<^verbatim>\<open>cpuid\<close>) are parameters.
  \<^item> \<^verbatim>\<open>Backends\<close>: the properties of these back ends side by side. \<^verbatim>\<open>Fronts\<close>: their option tables under \<^verbatim>\<open>risu_main\<close>.

  \<^bold>\<open>What is shown.\<close> The socket layer delivers packets intact whatever the history of short reads and
  interruptions, and stays in step after a packet of the wrong length. The header is understood in every
  combination of byte orders; the register image survives the wire. The comparison, when it accepts, has
  turned the apprentice's image into the master's in the compared registers, and writing that image back makes
  it the image of the context; with strict options it is exact, but for MQ at the first checkpoint; options
  only relax it; registers the previous instruction did not write must agree; it returns but for two
  undefined expressions; a failure always names a register. When a master and an apprentice, on the same or on different machines, both end well, through
  a trace file with exit status 0 or over a socket, they have agreed checkpoint by checkpoint, and nothing of what the
  master sent is left over. Conversely a trace recorded to its end replays to its end, on the same processor and
  byte for byte, and from the command lines of both sides to their exit statuses and equal statistics, also
  through a compressed file; over a socket the two sides consume exactly what the other sends at every checkpoint, and
  the master goes on exactly when the apprentice does; a register difference stops the apprentice with a
  report. \<^verbatim>\<open>getopt_long\<close>, \<^verbatim>\<open>argcargv\<close> and \<^verbatim>\<open>risu_main\<close> refine their reference parsers and lexer, memory safety
  included; a script of the console is run to its end. For ARM, m68k and s390x it is shown which registers of two
  signal contexts decide the comparison of their images. On these and LoongArch the report of a
  mismatch is empty exactly when there is none; on i386 and AArch64 it is shown what the report leaves
  out. Further theorems state exactly how the code behaves where it departs from its comments: the
  portable 64-bit swap, short writes, a stale \<^verbatim>\<open>errno\<close>, negative packet lengths, the size taken from a
  swapped header, the overflow behind the rounding options, the hidden bit of \<^verbatim>\<open>mantissa\<close>, the one undefined
  division, bad options that are ignored, and the copy of narrow LoongArch vectors.

  \<^bold>\<open>Bounds.\<close> Loops over registers run over the lists of their indices. The loops on system calls end because
  the history is finite; running out of it is the value \<open>Waiting\<close>, and the theorems on delivery state
  how many successful calls are enough (\<open>roomy\<close> for a trace file, \<open>ample\<close> for a socket: two to receive a
  packet, two to send one with its reply, one to answer). The normalisation loop is a partial function; its
  termination is proved for every argument it is called with. So are the console, whose \<^verbatim>\<open>source\<close> command can
  run forever: a script without it is proved to end, and the loop over the options, which is proved to
  return for every argument vector. The loops of \<^verbatim>\<open>argcargv\<close> and \<^verbatim>\<open>getopt\<close> are total, with the
  distance to the end of the buffer or of the vector as measure. A run is a reflexive transitive closure,
  without fuel.

  \<^bold>\<open>Not modelled.\<close> The texts of \<^verbatim>\<open>perror\<close>; the compression itself, of which it is only used that a closed
  file reads back; the DingusPPC emulator itself. Of PowerPC, vector registers (\<^verbatim>\<open>VRREGS\<close>), because that
  build does not compile for any platform; the branches for Linux, which do not compile either, because the
  indices into \<^verbatim>\<open>gp_regs\<close> they use are not declared; and the build with 64-bit registers. The \<^verbatim>\<open>GETOPT_COMPAT\<close> parts of
  \<^verbatim>\<open>getopt.c\<close>, which are commented out, and the test program at its end; the Perl generator of test images. That master and apprentice run
  concurrently is not modelled: each side is a function of the bytes it receives.
\<close>

end
